(* ===== verification/Decimal.thy ===== *)
theory Decimal
  imports Prelude
begin

text \<open>
  Decimal numerals as package \<^verbatim>\<open>strconv\<close> of Go writes and reads them: \<^verbatim>\<open>strconv.FormatInt(i, 10)\<close>,
  \<^verbatim>\<open>strconv.Itoa\<close> and the \<open>%d\<close> verb print them, \<^verbatim>\<open>strconv.ParseInt(s, 10, 64)\<close> and
  \<^verbatim>\<open>strconv.Atoi\<close> (the same function on a 64-bit target) read them. The reader
  rejects what is not a numeral and what does not fit 64 bits.
\<close>

section \<open>Digits\<close>

definition digit :: "nat \<Rightarrow> char" where
  "digit d = ''0123456789'' ! d"

definition is_digit :: "char \<Rightarrow> bool" where
  "is_digit c \<longleftrightarrow> 48 \<le> byte_val c \<and> byte_val c \<le> 57"

definition digit_val :: "char \<Rightarrow> nat" where
  "digit_val c = byte_val c - 48"

lemma less_10_cases: "(d::nat) < 10 \<Longrightarrow> d \<in> {0,1,2,3,4,5,6,7,8,9}"
  by auto

lemma digit_val_digit [simp]: "d < 10 \<Longrightarrow> digit_val (digit d) = d"
  by (drule less_10_cases) (auto simp: digit_def digit_val_def)

lemma is_digit_digit [simp]: "d < 10 \<Longrightarrow> is_digit (digit d)"
  by (drule less_10_cases) (auto simp: digit_def is_digit_def)

lemma is_digit_val_less: "is_digit c \<Longrightarrow> digit_val c < 10"
  by (auto simp: is_digit_def digit_val_def)

text \<open>The value of a digit string, most significant digit first, on top of \<open>acc\<close>.\<close>

fun dec_val :: "nat \<Rightarrow> string \<Rightarrow> nat" where
  "dec_val acc [] = acc"
| "dec_val acc (c # s) = dec_val (acc * 10 + digit_val c) s"

lemma dec_val_append: "dec_val acc (s @ t) = dec_val (dec_val acc s) t"
  by (induction s arbitrary: acc) auto

lemma dec_val_ge: "acc \<le> dec_val acc s"
proof (induction s arbitrary: acc)
  case (Cons c s)
  have "acc \<le> acc * 10 + digit_val c" by simp
  also have "\<dots> \<le> dec_val (acc * 10 + digit_val c) s" by (rule Cons.IH)
  finally show ?case by simp
qed simp

section \<open>Printing\<close>

fun show_nat :: "nat \<Rightarrow> string" where
  "show_nat n = (if n < 10 then [digit n] else show_nat (n div 10) @ [digit (n mod 10)])"

declare show_nat.simps [simp del]

lemma show_nat_small [simp]: "n < 10 \<Longrightarrow> show_nat n = [digit n]"
  by (simp add: show_nat.simps)

definition FormatInt :: "int \<Rightarrow> string" where
  "FormatInt i = (if i < 0 then CHR ''-'' # show_nat (nat (- i)) else show_nat (nat i))"

lemma show_nat_nonempty [simp]: "show_nat n \<noteq> []"
  by (subst show_nat.simps) simp

lemma show_nat_digits: "c \<in> set (show_nat n) \<Longrightarrow> is_digit c"
proof (induction n rule: show_nat.induct)
  case (1 n)
  then show ?case by (subst (asm) (2) show_nat.simps) (auto split: if_splits)
qed

lemma dec_val_show_nat [simp]: "dec_val 0 (show_nat n) = n"
proof (induction n rule: show_nat.induct)
  case (1 n)
  then show ?case
    by (subst show_nat.simps) (auto simp: dec_val_append)
qed

lemma show_nat_hd: "is_digit (hd (show_nat n))"
  by (metis show_nat_digits show_nat_nonempty list.set_sel(1))

lemma FormatInt_chars: "c \<in> set (FormatInt i) \<Longrightarrow> is_digit c \<or> c = CHR ''-''"
  by (auto simp: FormatInt_def dest: show_nat_digits split: if_splits)

lemma FormatInt_no_LF: "LF \<notin> set (FormatInt i)"
proof
  assume "LF \<in> set (FormatInt i)"
  then have "is_digit LF \<or> LF = CHR ''-''" by (rule FormatInt_chars)
  then show False by (simp add: is_digit_def)
qed

lemma FormatInt_nonempty [simp]: "FormatInt i \<noteq> []"
  by (simp add: FormatInt_def)

section \<open>Reading\<close>

definition parse_magnitude :: "string \<Rightarrow> nat option" where
  "parse_magnitude s = (if s \<noteq> [] \<and> list_all is_digit s then Some (dec_val 0 s) else None)"

definition range64 :: "int \<Rightarrow> int option" where
  "range64 i = (if in_int64 i then Some i else None)"

fun ParseInt :: "string \<Rightarrow> int option" where
  "ParseInt [] = None"
| "ParseInt (c # s) =
     (if c = CHR ''-'' then Option.bind (parse_magnitude s) (\<lambda>m. range64 (- int m))
      else if c = CHR ''+'' then Option.bind (parse_magnitude s) (\<lambda>m. range64 (int m))
      else Option.bind (parse_magnitude (c # s)) (\<lambda>m. range64 (int m)))"

abbreviation Atoi :: "string \<Rightarrow> int option" where "Atoi \<equiv> ParseInt"

lemma ParseInt_in_range: "ParseInt s = Some i \<Longrightarrow> in_int64 i"
  by (cases s) (auto simp: range64_def Option.bind_eq_Some_conv split: if_splits)

lemma parse_magnitude_show_nat [simp]: "parse_magnitude (show_nat n) = Some n"
  by (auto simp: parse_magnitude_def list_all_iff dest: show_nat_digits)

lemma show_nat_Cons:
  obtains c s where "show_nat n = c # s" "is_digit c" "c \<noteq> CHR ''-''" "c \<noteq> CHR ''+''"
proof -
  obtain c s where cs: "show_nat n = c # s" by (cases "show_nat n") auto
  with show_nat_hd [of n] have "is_digit c" by simp
  moreover from this have "c \<noteq> CHR ''-''" "c \<noteq> CHR ''+''" by (auto simp: is_digit_def)
  ultimately show ?thesis using cs that by blast
qed

text \<open>What \<^verbatim>\<open>FormatInt\<close> prints, \<^verbatim>\<open>ParseInt\<close> reads back.\<close>

lemma ParseInt_FormatInt: "in_int64 i \<Longrightarrow> ParseInt (FormatInt i) = Some i"
proof (cases "i < 0")
  case True
  assume "in_int64 i"
  with True show ?thesis by (simp add: FormatInt_def range64_def)
next
  case False
  assume "in_int64 i"
  moreover obtain c s where "show_nat (nat i) = c # s" "c \<noteq> CHR ''-''" "c \<noteq> CHR ''+''"
    by (rule show_nat_Cons)
  moreover have "parse_magnitude (show_nat (nat i)) = Some (nat i)" by simp
  ultimately show ?thesis using False by (simp add: FormatInt_def range64_def)
qed

end
