(* ===== verification/Float64.thy ===== *)
theory Float64
  imports Complex_Main "HOL-Library.Log_Nat" "HOL-Library.Signed_Division" Decimal
begin

text \<open>
  The floating-point arithmetic of the program, on exact rationals: \<open>float64\<close> is the nearest double of a
  number (ties to even), so a Go operation on doubles is the exact operation followed by \<open>float64\<close>. The numbers
  that occur are zero or of a size between \<open>2 ^ - 64\<close> and \<open>2 ^ 64\<close>: neither the range of the exponent nor
  infinities come in.
\<close>

section \<open>Rounding\<close>

definition roundEven :: "rat \<Rightarrow> int" where
  "roundEven x =
     (let f = \<lfloor>x\<rfloor>; r = x - of_int f in
      if r < 1 / 2 then f else if r > 1 / 2 then f + 1 else if even f then f else f + 1)"

text \<open>The exponent \<open>e\<close> with \<open>2 ^ e \<le> x < 2 ^ (e + 1)\<close>, for a positive \<open>x\<close>.\<close>

definition exponent :: "rat \<Rightarrow> int" where
  "exponent x = (case quotient_of x of (p, q) \<Rightarrow>
     (let k = bitlen p - bitlen q in if 2 powi k \<le> x then k else k - 1))"

definition positiveFloat :: "rat \<Rightarrow> rat" where
  "positiveFloat x = (let u = 2 powi (exponent x - 52) in of_int (roundEven (x / u)) * u)"

definition float64 :: "rat \<Rightarrow> rat" where
  "float64 x = (if x = 0 then 0 else if x > 0 then positiveFloat x else - positiveFloat (- x))"

text \<open>The conversion \<^verbatim>\<open>int64(f)\<close>, which truncates.\<close>

definition truncate64 :: "rat \<Rightarrow> int" where
  "truncate64 x = (if 0 \<le> x then \<lfloor>x\<rfloor> else - \<lfloor>- x\<rfloor>)"

lemma roundEven_of_int [simp]: "roundEven (of_int i) = i"
  by (simp add: roundEven_def)

lemma roundEven_numeral [simp]: "roundEven (numeral n) = numeral n"
  using roundEven_of_int [of "numeral n"] by simp

lemma float64_zero [simp]: "float64 0 = 0"
  by (simp add: float64_def)

lemma roundEven_near: "\<bar>of_int (roundEven x) - x\<bar> \<le> 1 / 2"
  by (simp add: roundEven_def Let_def abs_if) linarith

lemma roundEven_mono: "x \<le> y \<Longrightarrow> roundEven x \<le> roundEven y"
proof (rule ccontr)
  assume le: "x \<le> y" and "\<not> roundEven x \<le> roundEven y"
  then have "of_int (roundEven y) + 1 \<le> (of_int (roundEven x) :: rat)" by linarith
  with le roundEven_near [of x] roundEven_near [of y] have "x = y" by linarith
  with \<open>\<not> roundEven x \<le> roundEven y\<close> show False by simp
qed

section \<open>Integers are exact\<close>

lemma quotient_of_nat: "quotient_of (of_int i) = (i, 1)"
  by (simp add: quotient_of_int)

lemma exponent_of_int:
  assumes "0 < i"
  shows "exponent (of_int i) = bitlen i - 1" and "2 powi exponent (of_int i) \<le> (of_int i :: rat)"
proof -
  let ?k = "bitlen i - 1"
  have k: "0 \<le> ?k" using assms bitlen_ge_iff_power [of 1 i] by (simp add: bitlen_nonneg)
  have "2 ^ nat ?k \<le> i" using bitlen_bounds [OF assms] by simp
  then have le: "2 powi ?k \<le> (of_int i :: rat)"
    using k by (metis of_int_le_iff of_int_numeral of_int_power power_int_of_nat int_nat_eq)
  moreover have "bitlen 1 = 1" by (simp add: bitlen_def floorlog_def)
  ultimately show "exponent (of_int i) = ?k" by (simp add: exponent_def quotient_of_nat)
  with le show "2 powi exponent (of_int i) \<le> (of_int i :: rat)" by simp
qed

lemma positiveFloat_of_int:
  assumes "0 < i" and "i \<le> 2 ^ 53"
  shows "positiveFloat (of_int i) = of_int i"
proof (cases "i = 2 ^ 53")
  case True
  then have "bitlen i = 54" using bitlen_le_iff_power [of i 54] bitlen_ge_iff_power [of 54 i] by simp
  then have "exponent (of_int i) = 53" using exponent_of_int(1) [OF assms(1)] by simp
  moreover have "(of_int i :: rat) / 2 = of_int (2 ^ 52)" by (simp add: True)
  ultimately show ?thesis by (simp add: positiveFloat_def True)
next
  case False
  with assms have "i < 2 ^ 53" by simp
  then have "bitlen i \<le> 53" using assms(1) by (simp add: bitlen_le_iff_power)
  then have e: "exponent (of_int i) - 52 \<le> 0" using exponent_of_int(1) [OF assms(1)] by simp
  define n where "n = nat (52 - exponent (of_int i))"
  have n: "exponent (of_int i) - 52 = - int n" using e by (simp add: n_def)
  have "(of_int i :: rat) / 2 powi (- int n) = of_int (i * 2 ^ n)"
    by (simp add: power_int_minus field_simps)
  then have "roundEven (of_int i / 2 powi (- int n)) = i * 2 ^ n" by (simp only: roundEven_of_int)
  then show ?thesis using n by (simp add: positiveFloat_def power_int_minus Let_def)
qed

lemma float64_of_int [simp]: "\<bar>i\<bar> \<le> 2 ^ 53 \<Longrightarrow> float64 (of_int i) = of_int i"
  using positiveFloat_of_int [of i] positiveFloat_of_int [of "- i"]
  by (cases "0 < i"; cases "i = 0") (simp_all add: float64_def)

text \<open>Rounding does not pass an integer that a double can hold.\<close>

lemma exponent_le:
  assumes "0 < x"
  shows "2 powi exponent x \<le> x"
proof -
  obtain p q where pq: "quotient_of x = (p, q)" by (cases "quotient_of x")
  then have x: "x = of_int p / of_int q" and "0 < q" by (simp_all add: quotient_of_div quotient_of_denom_pos)
  with assms have "0 < p" by (simp add: zero_less_divide_iff)
  have "2 powi (bitlen p - bitlen q - 1) \<le> x"
  proof -
    have bl: "0 < bitlen p" "0 < bitlen q"
      using \<open>0 < p\<close> \<open>0 < q\<close> bitlen_eq_zero_iff [of p] bitlen_eq_zero_iff [of q] bitlen_nonneg [of p] bitlen_nonneg [of q] by linarith+
    have "2 ^ nat (bitlen p - 1) \<le> p" "q \<le> 2 ^ nat (bitlen q)"
      using bitlen_bounds [OF \<open>0 < p\<close>] bitlen_bounds [OF \<open>0 < q\<close>] by simp_all
    then have p2: "(2 :: rat) ^ nat (bitlen p - 1) \<le> of_int p" and q2: "of_int q \<le> (2 :: rat) ^ nat (bitlen q)"
      using of_int_le_iff [of "2 ^ nat (bitlen p - 1)" p, where 'a = rat] of_int_le_iff [of q "2 ^ nat (bitlen q)", where 'a = rat]
      by simp_all
    have "2 powi (bitlen p - bitlen q - 1) = (2 :: rat) powi (bitlen p - 1) / 2 powi bitlen q"
      by (subst power_int_diff [symmetric]) (simp_all add: algebra_simps)
    also have "\<dots> = 2 ^ nat (bitlen p - 1) / 2 ^ nat (bitlen q)" using bl by (simp add: power_int_def)
    also have "\<dots> \<le> of_int p / of_int q" using p2 q2 \<open>0 < q\<close> \<open>0 < p\<close> by (intro frac_le) auto
    finally show ?thesis using x by simp
  qed
  then show ?thesis by (simp add: exponent_def pq Let_def)
qed

lemma float64_le_int:
  assumes "0 \<le> x" and "x \<le> of_int n" and "n \<le> 2 ^ 53"
  shows "float64 x \<le> of_int n"
proof (cases "x = of_int n")
  case True
  with assms show ?thesis by (cases "0 \<le> n") auto
next
  case False
  show ?thesis
  proof (cases "x = 0")
    case True
    with assms show ?thesis by simp
  next
    case nz: False
    let ?e = "exponent x"
    have "(2 :: rat) powi ?e < 2 powi 53"
      using exponent_le [of x] assms nz False of_int_le_iff [of n "2 ^ 53", where 'a = rat] by simp
    then have "?e < 53" by (intro power_int_le_imp_less_exp [of "2 :: rat"]) simp_all
    then have "?e - 52 \<le> 0" by simp
    then obtain m where m: "?e - 52 = - int m" by (metis minus_equation_iff nonneg_int_cases neg_0_le_iff_le)
    have "x / 2 powi (- int m) \<le> of_int (n * 2 ^ m)" using assms(2) by (simp add: power_int_minus field_simps)
    from roundEven_mono [OF this] have "of_int (roundEven (x / 2 powi (- int m))) \<le> (of_int (n * 2 ^ m) :: rat)"
      by (simp only: roundEven_of_int of_int_le_iff)
    then have "positiveFloat x \<le> of_int n" by (simp add: positiveFloat_def m power_int_minus field_simps)
    with assms(1) nz show ?thesis by (simp add: float64_def)
  qed
qed

lemma float64_nonneg: "0 \<le> x \<Longrightarrow> 0 \<le> float64 x"
proof -
  assume "0 \<le> x"
  have "0 \<le> roundEven (x / u)" if "0 \<le> u" for u :: rat
    using roundEven_mono [of 0 "x / u"] roundEven_of_int [of 0] \<open>0 \<le> x\<close> that by simp
  then show ?thesis using \<open>0 \<le> x\<close> by (simp add: float64_def positiveFloat_def Let_def)
qed

lemma truncate64_le: "0 \<le> x \<Longrightarrow> x \<le> of_int n \<Longrightarrow> 0 \<le> truncate64 x \<and> truncate64 x \<le> n"
  by (simp add: truncate64_def floor_le_iff)

lemma truncate64_of_int [simp]: "truncate64 (of_int i) = i"
  by (simp add: truncate64_def)

section \<open>Durations and byte counts\<close>

text \<open>\<^verbatim>\<open>time.Duration.Seconds\<close>; Go's division truncates.\<close>

definition Seconds :: "int \<Rightarrow> rat" where
  "Seconds d = float64 (of_int (d sdiv 1000000000) + float64 (of_int (d smod 1000000000) / 1000000000))"

text \<open>\<^verbatim>\<open>fmt.Sprintf("%.1f", x)\<close> for \<open>x \<ge> 0\<close>.\<close>

definition sprintf1f :: "rat \<Rightarrow> string" where
  "sprintf1f x = (let n = nat (roundEven (x * 10)) in show_nat (n div 10) @ ''.'' @ show_nat (n mod 10))"

text \<open>A whole number of seconds below \<open>2 ^ 53\<close> comes out exactly, of either sign.\<close>

lemma Seconds_whole:
  assumes "\<bar>n\<bar> \<le> 2 ^ 53"
  shows "truncate64 (Seconds (n * 1000000000)) = n"
proof -
  have "(n * 1000000000) sdiv 1000000000 = n" "(n * 1000000000) smod 1000000000 = 0"
    by (simp_all add: signed_divide_int_def signed_modulo_int_def sgn_mult abs_mult sgn_mult_abs)
  then have "Seconds (n * 1000000000) = float64 (of_int n)" by (simp add: Seconds_def)
  also have "\<dots> = of_int n" by (rule float64_of_int [OF assms])
  finally have "Seconds (n * 1000000000) = of_int n" .
  then show ?thesis by simp
qed

end
