(* ===== verification/Store_Types.thy ===== *)
theory Store_Types
  imports Prelude Float64
begin

unbundle bit_operations_syntax

text \<open>
  Values, configuration and shard arithmetic of the storage package (\<^verbatim>\<open>src/storage/value.go\<close>,
  \<^verbatim>\<open>src/storage/storage.go\<close> and the top of \<^verbatim>\<open>src/storage/memory.go\<close>).

  Times are nanoseconds since the Unix epoch, as \<^typ>\<open>int\<close>; an operation reads the clock once and gets
  the reading as its argument \<open>now\<close>.
\<close>

section \<open>Values\<close>

datatype ValueType = ValueTypeString | ValueTypeList | ValueTypeSet | ValueTypeZSet
  | ValueTypeHash | ValueTypeStream | ValueTypeOther int

fun ValueType_String :: "ValueType \<Rightarrow> string" where
  "ValueType_String ValueTypeString = ''string''"
| "ValueType_String ValueTypeList = ''list''"
| "ValueType_String ValueTypeSet = ''set''"
| "ValueType_String ValueTypeZSet = ''zset''"
| "ValueType_String ValueTypeHash = ''hash''"
| "ValueType_String ValueTypeStream = ''stream''"
| "ValueType_String (ValueTypeOther _) = ''none''"

text \<open>
  The \<^verbatim>\<open>Data\<close> of a value, one constructor per struct of \<^verbatim>\<open>value.go\<close>. A \<open>float64\<close> score is kept as
  its 64 bits; Go maps are association lists.
\<close>

type_synonym float64 = "64 word"

datatype vdata =
    StringValue bytes
  | ListValue "bytes list"
  | SetValue "string list"
  | ZSetValue "(string \<times> float64) list" "(string \<times> float64) list"
  | HashValue "(string \<times> bytes) list"
  | StreamValue "(string \<times> (string \<times> bytes) list) list" string
  | NilData

record svalue =
  valType :: ValueType
  valData :: vdata
  valExpiry :: "int option"
  valVersion :: int

definition IsExpired :: "int \<Rightarrow> svalue \<Rightarrow> bool" where
  "IsExpired now v \<longleftrightarrow> (case valExpiry v of None \<Rightarrow> False | Some e \<Rightarrow> e < now)"

text \<open>A value once expired stays expired.\<close>

lemma IsExpired_mono: "IsExpired now v \<Longrightarrow> now \<le> later \<Longrightarrow> IsExpired later v"
  by (auto simp: IsExpired_def split: option.splits)

section \<open>Cleanup configurations\<close>

record CleanupConfig =
  SampleSize :: int
  MaxRounds :: int
  BatchSize :: int
  ExpiredThreshold :: rat

definition CleanupConfigDefault :: CleanupConfig where
  "CleanupConfigDefault = \<lparr>SampleSize = 20, MaxRounds = 4, BatchSize = 10, ExpiredThreshold = float64 (1 / 4)\<rparr>"

definition CleanupConfigSmallDataset :: CleanupConfig where
  "CleanupConfigSmallDataset = \<lparr>SampleSize = 10, MaxRounds = 2, BatchSize = 5, ExpiredThreshold = float64 (1 / 2)\<rparr>"

definition CleanupConfigMediumDataset :: CleanupConfig where
  "CleanupConfigMediumDataset = \<lparr>SampleSize = 25, MaxRounds = 5, BatchSize = 12, ExpiredThreshold = float64 (3 / 10)\<rparr>"

definition CleanupConfigLargeDataset :: CleanupConfig where
  "CleanupConfigLargeDataset = \<lparr>SampleSize = 50, MaxRounds = 8, BatchSize = 25, ExpiredThreshold = float64 (15 / 100)\<rparr>"

definition CleanupConfigBestPerformance :: CleanupConfig where
  "CleanupConfigBestPerformance = \<lparr>SampleSize = 100, MaxRounds = 10, BatchSize = 50, ExpiredThreshold = float64 (1 / 10)\<rparr>"

definition CleanupConfigLowLatency :: CleanupConfig where
  "CleanupConfigLowLatency = \<lparr>SampleSize = 15, MaxRounds = 3, BatchSize = 8, ExpiredThreshold = float64 (4 / 10)\<rparr>"

section \<open>The number of shards\<close>

text \<open>\<^verbatim>\<open>nextPowerOf2\<close>: or-ing the number with its shifts fills every bit below its highest one.\<close>

definition nextPowerOf2 :: "int \<Rightarrow> int" where
  "nextPowerOf2 n0 =
     (if n0 \<le> 1 then 1
      else let n = n0 - 1;
               n = n OR drop_bit 1 n;
               n = n OR drop_bit 2 n;
               n = n OR drop_bit 4 n;
               n = n OR drop_bit 8 n;
               n = n OR drop_bit 16 n;
               n = n OR drop_bit 32 n
           in wrap64 (n + 1))"

text \<open>\<open>smeared m w x\<close>: bit \<open>i\<close> of \<open>x\<close> is set when one of the \<open>w\<close> bits of \<open>m\<close> from \<open>i\<close> upwards is.\<close>

definition smeared :: "int \<Rightarrow> nat \<Rightarrow> int \<Rightarrow> bool" where
  "smeared m w x \<longleftrightarrow> (\<forall>i. bit x i \<longleftrightarrow> (\<exists>j<w. bit m (i + j)))"

lemma smeared_double:
  assumes "smeared m w x"
  shows "smeared m (2 * w) (x OR drop_bit w x)"
  unfolding smeared_def
proof
  fix i
  have "bit (x OR drop_bit w x) i \<longleftrightarrow> (\<exists>j<w. bit m (i + j)) \<or> (\<exists>j<w. bit m (i + w + j))"
    using assms by (simp add: smeared_def bit_or_iff bit_drop_bit_eq add.commute)
  also have "\<dots> \<longleftrightarrow> (\<exists>j<2 * w. bit m (i + j))"
  proof
    assume "(\<exists>j<w. bit m (i + j)) \<or> (\<exists>j<w. bit m (i + w + j))"
    then show "\<exists>j<2 * w. bit m (i + j)"
    proof
      assume "\<exists>j<w. bit m (i + w + j)"
      then obtain j where "j < w" "bit m (i + (w + j))" by (auto simp: add.assoc)
      then show ?thesis by (intro exI [of _ "w + j"]) auto
    next
      assume "\<exists>j<w. bit m (i + j)"
      then obtain j where "j < w" "bit m (i + j)" by blast
      then show ?thesis by (intro exI [of _ j]) auto
    qed
  next
    assume "\<exists>j<2 * w. bit m (i + j)"
    then obtain j where j: "j < 2 * w" "bit m (i + j)" by blast
    show "(\<exists>j<w. bit m (i + j)) \<or> (\<exists>j<w. bit m (i + w + j))"
    proof (cases "j < w")
      case False
      with j have "j - w < w" "bit m (i + w + (j - w))" by auto
      then show ?thesis by blast
    qed (use j in blast)
  qed
  finally show "bit (x OR drop_bit w x) i \<longleftrightarrow> (\<exists>j<2 * w. bit m (i + j))" .
qed

lemma bit_above: "0 \<le> m \<Longrightarrow> m < 2 ^ k \<Longrightarrow> k \<le> i \<Longrightarrow> \<not> bit (m :: int) i"
proof
  assume m: "0 \<le> m" "m < 2 ^ k" "k \<le> i" and b: "bit m i"
  have "(2::int) ^ k \<le> 2 ^ i" using m(3) by (simp add: power_increasing)
  with m have "m < 2 ^ i" by linarith
  with m have "m div 2 ^ i = 0" by (intro div_pos_pos_trivial)
  with b show False by (simp add: bit_iff_odd)
qed

lemma smeared_mask:
  assumes "smeared m 64 x" and "2 ^ k \<le> m" and "m < 2 ^ Suc k" and "k < 64"
  shows "x = 2 ^ Suc k - 1"
proof -
  have "m div 2 ^ k = 1"
  proof -
    have "m = 2 ^ k * 1 + (m - 2 ^ k)" by simp
    moreover have "0 \<le> m - 2 ^ k" "m - 2 ^ k < 2 ^ k" using assms(2,3) by auto
    ultimately show ?thesis by (rule int_div_pos_eq)
  qed
  then have top: "bit m k" by (simp add: bit_iff_odd)
  have "0 < (2::int) ^ k" by simp
  with assms(2) have "0 \<le> m" by linarith
  have "x = mask (Suc k)"
  proof (rule bit_eqI)
    fix i
    have "(\<exists>j<64. bit m (i + j)) \<longleftrightarrow> i < Suc k"
    proof
      assume "\<exists>j<64. bit m (i + j)"
      then obtain j where "bit m (i + j)" by blast
      then have "\<not> Suc k \<le> i + j" using bit_above [OF \<open>0 \<le> m\<close> assms(3)] by blast
      then show "i < Suc k" by simp
    next
      assume "i < Suc k"
      then have "k - i < 64" "bit m (i + (k - i))" using top assms(4) by auto
      then show "\<exists>j<64. bit m (i + j)" by blast
    qed
    then show "bit x i \<longleftrightarrow> bit (mask (Suc k) :: int) i"
      using assms(1) by (simp add: smeared_def bit_mask_iff)
  qed
  then show ?thesis by (simp add: mask_eq_exp_minus_1)
qed

lemma ex_power_bracket: "1 \<le> (m::int) \<Longrightarrow> \<exists>k. 2 ^ k \<le> m \<and> m < 2 ^ Suc k"
proof -
  assume m: "1 \<le> m"
  define k where "k = (LEAST k. m < 2 ^ Suc k)"
  have "m < 2 ^ Suc (nat m)"
  proof -
    have "int (nat m) < int (2 ^ nat m)" by (simp only: of_nat_less_iff) simp
    then have "m < 2 ^ nat m" using m by simp
    also have "\<dots> \<le> 2 ^ Suc (nat m)" by simp
    finally show ?thesis .
  qed
  then have up: "m < 2 ^ Suc k" unfolding k_def by (rule LeastI)
  have "2 ^ k \<le> m"
  proof (cases k)
    case (Suc k')
    then have "\<not> m < 2 ^ Suc k'" using not_less_Least [of k' "\<lambda>k. m < 2 ^ Suc k"] by (simp add: k_def)
    with Suc show ?thesis by simp
  qed (use m in simp)
  with up show ?thesis by blast
qed

lemma nextPowerOf2_power:
  assumes "1 \<le> n" and "n \<le> 2 ^ 62"
  shows "\<exists>k. nextPowerOf2 n = 2 ^ k \<and> n \<le> 2 ^ k \<and> (\<forall>j. n \<le> 2 ^ j \<longrightarrow> k \<le> j)"
proof (cases "n = 1")
  case True
  then show ?thesis by (intro exI [of _ 0]) (simp add: nextPowerOf2_def)
next
  case False
  define m where "m = n - 1"
  obtain k where k: "2 ^ k \<le> m" "m < 2 ^ Suc k"
    using ex_power_bracket [of m] assms False by (auto simp: m_def)
  have "(2::int) ^ k < 2 ^ 62" using k(1) assms(2) by (simp add: m_def)
  then have k62: "k < 62" by (rule power_less_imp_less_exp [rotated]) simp
  have "smeared m 1 m" by (simp add: smeared_def)
  note s1 = smeared_double [OF this]
  note s6 = smeared_double [OF smeared_double [OF smeared_double [OF smeared_double [OF smeared_double [OF s1]]]]]
  have "smeared m 64 (let n = m OR drop_bit 1 m; n = n OR drop_bit 2 n; n = n OR drop_bit 4 n;
      n = n OR drop_bit 8 n; n = n OR drop_bit 16 n in n OR drop_bit 32 n)"
    using s6 by (simp add: Let_def)
  then have eq: "(let n = m OR drop_bit 1 m; n = n OR drop_bit 2 n; n = n OR drop_bit 4 n;
      n = n OR drop_bit 8 n; n = n OR drop_bit 16 n in n OR drop_bit 32 n) = 2 ^ Suc k - 1"
    using k k62 by (intro smeared_mask) auto
  have "(2::int) ^ Suc k \<le> 2 ^ 62" using k62 by (intro power_increasing) auto
  then have "in_int64 (2 ^ Suc k)" by (intro in_int64_nonneg) auto
  then have "wrap64 (2 ^ Suc k) = 2 ^ Suc k" by (rule wrap64_id)
  then have "nextPowerOf2 n = 2 ^ Suc k"
    using eq assms False by (simp add: nextPowerOf2_def m_def [symmetric] Let_def)
  moreover have "Suc k \<le> j" if "n \<le> 2 ^ j" for j
  proof (rule ccontr)
    assume "\<not> Suc k \<le> j"
    then have "(2::int) ^ j \<le> 2 ^ k" by (intro power_increasing) auto
    with k(1) that show False by (simp add: m_def)
  qed
  moreover have "n \<le> 2 ^ Suc k" using k(2) by (simp add: m_def)
  ultimately show ?thesis by blast
qed

text \<open>
  For every requested shard count up to 2^62, \<open>nextPowerOf2\<close> returns a power of two that is at
  least the count, and the smallest such: the bit tricks compute the rounding the options promise.
\<close>

theorem nextPowerOf2_least:
  assumes "1 \<le> n" and "n \<le> 2 ^ 62"
  shows "\<exists>k. nextPowerOf2 n = 2 ^ k \<and> n \<le> 2 ^ k \<and> (\<forall>j. n \<le> 2 ^ j \<longrightarrow> k \<le> j)"
  using assms by (rule nextPowerOf2_power)

theorem nextPowerOf2_least_witness:
  "nextPowerOf2 100 = 128 \<and> (\<exists>k. nextPowerOf2 100 = 2 ^ k \<and> 100 \<le> (2::int) ^ k \<and> (\<forall>j. 100 \<le> (2::int) ^ j \<longrightarrow> k \<le> j))"
  using nextPowerOf2_least [of 100] by (simp add: nextPowerOf2_def wrap64_def)

end
