(* ===== verification/Matching.thy ===== *)
theory Matching
  imports Prelude "HOL-Library.Sublist"
begin

text \<open>
  Key patterns (\<^verbatim>\<open>src/storage/matching.go\<close>): the four matching strategies and what they call of the Go
  standard library, \<^verbatim>\<open>filepath.Match\<close> on a system with \<open>/\<close> as separator, \<^verbatim>\<open>utf8.DecodeRuneInString\<close>
  and the fragment of \<^verbatim>\<open>regexp\<close> that \<^verbatim>\<open>globToRegex\<close> produces. The specification they are compared with
  is \<open>globs\<close>, the usual reading of \<open>*\<close> and \<open>?\<close>.
\<close>

datatype MatchingStrategy = StrategySimple | StrategyRegex | StrategyAutomaton | StrategyGlob
  | StrategyOther int

section \<open>The specification\<close>

fun globs :: "string \<Rightarrow> string \<Rightarrow> bool" where
  "globs [] s = (s = [])"
| "globs (p # ps) [] = (p = CHR ''*'' \<and> globs ps [])"
| "globs (p # ps) (c # s) =
     (if p = CHR ''*'' then globs ps (c # s) \<or> globs (p # ps) s
      else (p = CHR ''?'' \<or> p = c) \<and> globs ps s)"

section \<open>The simple strategy\<close>

definition matchPatternSimple :: "string \<Rightarrow> string \<Rightarrow> bool" where
  "matchPatternSimple key pat =
     (if pat = [] then key = []
      else if pat = ''*'' then key \<noteq> []
      else if key = pat then True
      else if last pat = CHR ''*'' then HasPrefix key (butlast pat)
      else if hd pat = CHR ''*'' then HasSuffix key (tl pat)
      else if CHR ''*'' \<in> set pat then
        (let before = takeWhile (\<lambda>c. c \<noteq> CHR ''*'') pat;
             after = tl (dropWhile (\<lambda>c. c \<noteq> CHR ''*'') pat)
         in if CHR ''*'' \<in> set after then False
            else HasPrefix key before \<and> HasSuffix key after)
      else False)"

section \<open>The automaton strategy\<close>

type_synonym memo = "nat \<times> nat \<Rightarrow> bool option"

text \<open>
  \<^verbatim>\<open>matchAutomaton\<close> with its memo table passed along. The indices grow one at a time and the function
  stops at the lengths, so \<open>\<ge>\<close> is the \<open>==\<close> of the source.
\<close>

function matchAutomaton :: "string \<Rightarrow> string \<Rightarrow> nat \<Rightarrow> nat \<Rightarrow> memo \<Rightarrow> bool \<times> memo" where
  "matchAutomaton str pat strIdx patIdx memo =
     (case memo (strIdx, patIdx) of
        Some result \<Rightarrow> (result, memo)
      | None \<Rightarrow>
          (if patIdx \<ge> length pat then
             (let result = (strIdx \<ge> length str) in (result, memo((strIdx, patIdx) \<mapsto> result)))
           else if strIdx \<ge> length str then
             (let result = list_all (\<lambda>c. c = CHR ''*'') (drop patIdx pat)
              in (result, memo((strIdx, patIdx) \<mapsto> result)))
           else
             (let patChar = pat ! patIdx; strChar = str ! strIdx;
                  (result, memo') =
                    (if patChar = CHR ''*'' then
                       (case matchAutomaton str pat strIdx (patIdx + 1) memo of
                          (True, m1) \<Rightarrow> (True, m1)
                        | (False, m1) \<Rightarrow> matchAutomaton str pat (strIdx + 1) patIdx m1)
                     else if patChar = CHR ''?'' then
                       matchAutomaton str pat (strIdx + 1) (patIdx + 1) memo
                     else if patChar = strChar then
                       matchAutomaton str pat (strIdx + 1) (patIdx + 1) memo
                     else (False, memo))
              in (result, memo'((strIdx, patIdx) \<mapsto> result)))))"
  by pat_completeness auto
termination
  by (relation "measure (\<lambda>(str, pat, i, j, memo). (length str - i) + (length pat - j))") auto

declare matchAutomaton.simps [simp del]

definition matchPatternAutomaton :: "string \<Rightarrow> string \<Rightarrow> bool" where
  "matchPatternAutomaton str pat =
     (if pat = [] then str = []
      else if pat = ''*'' then str \<noteq> []
      else fst (matchAutomaton str pat 0 0 (\<lambda>_. None)))"

text \<open>Every entry of the table is the answer for the suffixes it stands for.\<close>

definition memo_ok :: "string \<Rightarrow> string \<Rightarrow> memo \<Rightarrow> bool" where
  "memo_ok str pat memo \<longleftrightarrow>
     (\<forall>i j b. memo (i, j) = Some b \<longrightarrow> b = globs (drop j pat) (drop i str))"

lemma memo_ok_upd: "memo_ok str pat memo \<Longrightarrow> b = globs (drop j pat) (drop i str) \<Longrightarrow>
    memo_ok str pat (memo((i, j) \<mapsto> b))"
  by (auto simp: memo_ok_def)

lemma globs_all_stars: "globs ps [] \<longleftrightarrow> list_all (\<lambda>c. c = CHR ''*'') ps"
  by (induction ps) auto

lemma matchAutomaton_ends:
  assumes "memo_ok str pat memo" and "memo (i, j) \<noteq> None \<or> length pat \<le> j \<or> length str \<le> i"
  shows "fst (matchAutomaton str pat i j memo) = globs (drop j pat) (drop i str) \<and>
     memo_ok str pat (snd (matchAutomaton str pat i j memo))"
proof (cases "memo (i, j)")
  case (Some b)
  with assms show ?thesis by (subst (1 2) matchAutomaton.simps) (auto simp: memo_ok_def)
next
  case None
  with assms show ?thesis
    by (subst (1 2) matchAutomaton.simps) (auto intro!: memo_ok_upd simp: globs_all_stars Let_def)
qed

lemma matchAutomaton_correct:
  "memo_ok str pat memo \<Longrightarrow>
     fst (matchAutomaton str pat i j memo) = globs (drop j pat) (drop i str) \<and>
     memo_ok str pat (snd (matchAutomaton str pat i j memo))"
proof (induction str pat i j memo rule: matchAutomaton.induct)
  case (1 str pat i j memo)
  show ?case
  proof (cases "memo (i, j) \<noteq> None \<or> length pat \<le> j \<or> length str \<le> i")
    case True
    with "1.prems" show ?thesis by (rule matchAutomaton_ends)
  next
    case False
    then have None: "memo (i, j) = None" and guards: "\<not> length pat \<le> j" "\<not> length str \<le> i" by auto
    then have p: "drop j pat = pat ! j # drop (Suc j) pat" and s: "drop i str = str ! i # drop (Suc i) str"
      by (simp_all add: Cons_nth_drop_Suc)
    note IH = "1.IH" [OF None guards refl refl]
    define sub where "sub = (if pat ! j = CHR ''*'' then
          (case matchAutomaton str pat i (j + 1) memo of
             (True, m1) \<Rightarrow> (True, m1) | (False, m1) \<Rightarrow> matchAutomaton str pat (i + 1) j m1)
        else if pat ! j = CHR ''?'' then matchAutomaton str pat (i + 1) (j + 1) memo
        else if pat ! j = str ! i then matchAutomaton str pat (i + 1) (j + 1) memo
        else (False, memo))"
    have sub_ok: "fst sub = globs (drop j pat) (drop i str) \<and> memo_ok str pat (snd sub)"
    proof (cases "pat ! j = CHR ''*''")
      case True
      obtain b m1 where first: "matchAutomaton str pat i (j + 1) memo = (b, m1)" by fastforce
      with IH(1) [OF True "1.prems"] have "b = globs (drop (Suc j) pat) (drop i str)" "memo_ok str pat m1" by auto
      with IH(2) [OF True first [symmetric]] show ?thesis using True first by (cases b) (auto simp: sub_def p s)
    qed (use IH(3,4) "1.prems" in \<open>auto simp: sub_def p s\<close>)
    have step: "matchAutomaton str pat i j memo = (fst sub, (snd sub)((i, j) \<mapsto> fst sub))"
      using None guards by (subst matchAutomaton.simps) (simp add: sub_def Let_def split_def)
    show ?thesis unfolding step fst_conv snd_conv using sub_ok memo_ok_upd by blast
  qed
qed

text \<open>
  Claim C25: the memoised automaton strategy decides the glob relation: for every pattern but the
  single \<open>*\<close> (which it reads as "any non-empty key") it accepts exactly the keys that the
  pattern matches, and the memo table never changes an answer.
\<close>

theorem matchPatternAutomaton_correct:
  "matchPatternAutomaton str pat = (if pat = ''*'' then str \<noteq> [] else globs pat str)"
proof (cases "pat = [] \<or> pat = ''*''")
  case False
  have "memo_ok str pat (\<lambda>_. None)" by (simp add: memo_ok_def)
  from matchAutomaton_correct [OF this, of 0 0] False show ?thesis
    by (simp add: matchPatternAutomaton_def)
qed (auto simp: matchPatternAutomaton_def)

section \<open>UTF-8\<close>

definition RuneError :: nat where "RuneError = 65533"

definition cont :: "char \<Rightarrow> bool" where
  "cont c \<longleftrightarrow> 128 \<le> byte_val c \<and> byte_val c \<le> 191"

definition between :: "nat \<Rightarrow> nat \<Rightarrow> char \<Rightarrow> bool" where
  "between lo hi c \<longleftrightarrow> lo \<le> byte_val c \<and> byte_val c \<le> hi"

text \<open>\<^verbatim>\<open>utf8.DecodeRuneInString\<close>: the first rune and its width, (\<open>RuneError\<close>, 1) for a malformed byte.\<close>

fun DecodeRune :: "string \<Rightarrow> nat \<times> nat" where
  "DecodeRune [] = (RuneError, 0)"
| "DecodeRune (c0 # s) =
     (let b0 = byte_val c0; low = (\<lambda>c. byte_val c mod 64) in
      if b0 < 128 then (b0, 1)
      else if 194 \<le> b0 \<and> b0 \<le> 223 then
        (case s of c1 # _ \<Rightarrow> if cont c1 then ((b0 mod 32) * 64 + low c1, 2) else (RuneError, 1)
         | _ \<Rightarrow> (RuneError, 1))
      else if 224 \<le> b0 \<and> b0 \<le> 239 then
        (case s of c1 # c2 # _ \<Rightarrow>
            if between (if b0 = 224 then 160 else 128) (if b0 = 237 then 159 else 191) c1 \<and> cont c2
            then ((b0 mod 16) * 4096 + low c1 * 64 + low c2, 3) else (RuneError, 1)
         | _ \<Rightarrow> (RuneError, 1))
      else if 240 \<le> b0 \<and> b0 \<le> 244 then
        (case s of c1 # c2 # c3 # _ \<Rightarrow>
            if between (if b0 = 240 then 144 else 128) (if b0 = 244 then 143 else 191) c1 \<and> cont c2 \<and> cont c3
            then ((b0 mod 8) * 262144 + low c1 * 4096 + low c2 * 64 + low c3, 4) else (RuneError, 1)
         | _ \<Rightarrow> (RuneError, 1))
      else (RuneError, 1))"

lemma DecodeRune_width: "s \<noteq> [] \<Longrightarrow> 0 < snd (DecodeRune s)"
  by (cases s) (auto simp: Let_def split: list.split)

lemma DecodeRune_ASCII: "byte_val c < 128 \<Longrightarrow> DecodeRune (c # s) = (byte_val c, 1)"
  by simp

declare DecodeRune.simps(2) [simp del]

section \<open>filepath.Match\<close>

definition Separator :: char where "Separator = CHR ''/''"

text \<open>\<open>getEsc\<close>: one possibly escaped rune of a character class; \<open>None\<close> is \<open>ErrBadPattern\<close>.\<close>

definition getEsc :: "string \<Rightarrow> (nat \<times> string) option" where
  "getEsc chunk =
     (if chunk = [] \<or> hd chunk = CHR ''-'' \<or> hd chunk = CHR '']'' then None
      else let chunk' = (if hd chunk = CHR 0x5C then tl chunk else chunk) in
        if chunk' = [] then None
        else let (r, n) = DecodeRune chunk' in
          if (r = RuneError \<and> n = 1) \<or> length chunk' \<le> n then None else Some (r, drop n chunk'))"

lemma getEsc_shorter: "getEsc chunk = Some (r, rest) \<Longrightarrow> length rest < length chunk"
proof -
  assume eq: "getEsc chunk = Some (r, rest)"
  define c' where "c' = (if hd chunk = CHR 0x5C then tl chunk else chunk)"
  obtain x n where dec: "DecodeRune c' = (x, n)" by (cases "DecodeRune c'")
  from eq dec have "c' \<noteq> []" "rest = drop n c'"
    by (auto simp: getEsc_def c'_def [symmetric] Let_def split: if_splits)
  moreover have "0 < n" using DecodeRune_width [OF \<open>c' \<noteq> []\<close>] dec by simp
  moreover have "length c' \<le> length chunk" by (simp add: c'_def)
  ultimately show ?thesis by (cases c') auto
qed

text \<open>
  The ranges of a class up to its closing bracket: whether rune \<open>r\<close> is in one of them, and the rest.
  The end of the text right after a range is the \<open>ErrBadPattern\<close> that \<open>getEsc\<close> reports.
\<close>

function matchRanges :: "nat \<Rightarrow> string \<Rightarrow> nat \<Rightarrow> bool \<Rightarrow> (bool \<times> string) option" where
  "matchRanges r chunk nrange found =
     (if chunk \<noteq> [] \<and> hd chunk = CHR '']'' \<and> nrange > 0 then Some (found, tl chunk)
      else case getEsc chunk of
          None \<Rightarrow> None
        | Some (lo, c1) \<Rightarrow>
            (if hd c1 = CHR ''-'' then
               (case getEsc (tl c1) of
                  None \<Rightarrow> None
                | Some (hi, c2) \<Rightarrow> matchRanges r c2 (Suc nrange) (found \<or> lo \<le> r \<and> r \<le> hi))
             else matchRanges r c1 (Suc nrange) (found \<or> r = lo)))"
  by pat_completeness auto
termination
  by (relation "measure (\<lambda>(r, chunk, n, f). length chunk)")
    (auto dest!: getEsc_shorter intro: less_le_trans)

declare matchRanges.simps [simp del]

lemma matchRanges_shorter:
  "matchRanges r chunk n f = Some (b, rest) \<Longrightarrow> length rest < length chunk"
proof (induction r chunk n f rule: matchRanges.induct)
  case (1 r chunk n f)
  show ?case
  proof (cases "chunk \<noteq> [] \<and> hd chunk = CHR '']'' \<and> n > 0")
    case True
    with "1.prems" show ?thesis by (subst (asm) matchRanges.simps) (cases chunk, auto)
  next
    case False
    with "1.prems" obtain lo c1 where esc: "getEsc chunk = Some (lo, c1)"
      by (subst (asm) matchRanges.simps) (auto split: option.splits)
    then have c1: "length c1 < length chunk" by (rule getEsc_shorter)
    show ?thesis
    proof (cases "hd c1 = CHR ''-''")
      case True
      with False esc "1.prems" obtain hi c2 where esc2: "getEsc (tl c1) = Some (hi, c2)"
        and rec: "matchRanges r c2 (Suc n) (f \<or> lo \<le> r \<and> r \<le> hi) = Some (b, rest)"
        by (subst (asm) matchRanges.simps) (auto split: option.splits if_splits)
      have "length rest < length c2" by (rule "1.IH"(1) [OF False esc refl True esc2 refl rec])
      with getEsc_shorter [OF esc2] c1 show ?thesis by simp
    next
      case nodash: False
      with False esc "1.prems" have "matchRanges r c1 (Suc n) (f \<or> r = lo) = Some (b, rest)"
        by (subst (asm) matchRanges.simps) auto
      then have "length rest < length c1" by (rule "1.IH"(2) [OF False esc refl nodash])
      with c1 show ?thesis by simp
    qed
  qed
qed

text \<open>
  \<open>matchChunk\<close>: match a piece of pattern without stars at the front of \<open>s\<close>. \<open>None\<close> is \<open>ErrBadPattern\<close>,
  \<open>Some None\<close> no match, \<open>Some (Some t)\<close> a match that leaves \<open>t\<close>. After a mismatch (\<open>failed\<close>)
  the rest of the chunk is still checked for being well formed.
\<close>

function matchChunk :: "string \<Rightarrow> string \<Rightarrow> bool \<Rightarrow> string option option" where
  "matchChunk chunk s failed0 = (case chunk of
       [] \<Rightarrow> Some (if failed0 then None else Some s)
     | c # ch \<Rightarrow>
         (let failed = (failed0 \<or> s = []);
              literal = (\<lambda>d. if failed then (s, True) else (tl s, d \<noteq> hd s))
          in if c = CHR ''['' then
               (let (r, s') = (if failed then (0, s) else case DecodeRune s of (r, n) \<Rightarrow> (r, drop n s));
                    negated = (ch \<noteq> [] \<and> hd ch = CHR ''^'');
                    ch' = (if negated then tl ch else ch)
                in case matchRanges r ch' 0 False of
                     None \<Rightarrow> None
                   | Some (m, rest) \<Rightarrow> matchChunk rest s' (failed \<or> m = negated))
             else if c = CHR ''?'' then
               (if failed then matchChunk ch s True
                else matchChunk ch (drop (snd (DecodeRune s)) s) (hd s = Separator))
             else if c = CHR 0x5C then
               (case ch of [] \<Rightarrow> None | d # ch' \<Rightarrow> (case literal d of (s', f) \<Rightarrow> matchChunk ch' s' f))
             else (case literal c of (s', f) \<Rightarrow> matchChunk ch s' f)))"
  by pat_completeness auto
termination
  by (relation "measure (\<lambda>(chunk, s, f). length chunk)")
    (auto dest!: matchRanges_shorter simp: Let_def split: if_splits)

declare matchChunk.simps [simp del]

fun scanBody :: "bool \<Rightarrow> string \<Rightarrow> string \<times> string" where
  "scanBody inrange [] = ([], [])"
| "scanBody inrange (c # p) =
     (if c = CHR 0x5C then
        (case p of [] \<Rightarrow> ([c], []) | d # p' \<Rightarrow> (case scanBody inrange p' of (a, b) \<Rightarrow> (c # d # a, b)))
      else if c = CHR ''*'' \<and> \<not> inrange then ([], c # p)
      else case scanBody (c = CHR ''['' \<or> c \<noteq> CHR '']'' \<and> inrange) p of (a, b) \<Rightarrow> (c # a, b))"

lemma scanBody_append: "scanBody inrange p = (a, b) \<Longrightarrow> p = a @ b"
proof (induction inrange p arbitrary: a b rule: scanBody.induct)
  case (2 inrange c p)
  show ?case
  proof (cases "c = CHR 0x5C")
    case True
    show ?thesis
    proof (cases p)
      case Nil
      with True "2.prems" show ?thesis by simp
    next
      case (Cons d p')
      obtain a' b' where "scanBody inrange p' = (a', b')" by (cases "scanBody inrange p'")
      with True Cons "2.prems" "2.IH"(1) [OF True Cons] show ?thesis by simp
    qed
  next
    case esc: False
    show ?thesis
    proof (cases "c = CHR ''*'' \<and> \<not> inrange")
      case True
      with esc "2.prems" show ?thesis by simp
    next
      case False
      obtain a' b' where rec: "scanBody (c = CHR ''['' \<or> c \<noteq> CHR '']'' \<and> inrange) p = (a', b')"
        by (cases "scanBody (c = CHR ''['' \<or> c \<noteq> CHR '']'' \<and> inrange) p")
      then have "p = a' @ b'" by (rule "2.IH"(2) [OF esc False])
      moreover have "(a, b) = (c # a', b')"
        unfolding "2.prems" [symmetric] scanBody.simps if_not_P [OF esc] if_not_P [OF False] rec by simp
      ultimately show ?thesis by simp
    qed
  qed
qed simp

lemma scanBody_nonempty:
  assumes "scanBody inrange (c # p) = (a, b)" and "c \<noteq> CHR ''*''"
  shows "a \<noteq> []"
proof (cases "c = CHR 0x5C")
  case True
  with assms(1) show ?thesis by (auto split: list.splits prod.splits)
next
  case False
  obtain a' b' where rec: "scanBody (c = CHR ''['' \<or> c \<noteq> CHR '']'' \<and> inrange) p = (a', b')"
    by (cases "scanBody (c = CHR ''['' \<or> c \<noteq> CHR '']'' \<and> inrange) p")
  have nostar: "\<not> (c = CHR ''*'' \<and> \<not> inrange)" using assms(2) by simp
  have "(a, b) = (c # a', b')"
    unfolding assms(1) [symmetric] scanBody.simps if_not_P [OF False] if_not_P [OF nostar] rec by simp
  then show ?thesis by simp
qed

definition scanChunk :: "string \<Rightarrow> bool \<times> string \<times> string" where
  "scanChunk pat =
     (let p = dropWhile (\<lambda>c. c = CHR ''*'') pat
      in case scanBody False p of (chunk, rest) \<Rightarrow> (p \<noteq> pat, chunk, rest))"

lemma dropWhile_shorter: "dropWhile P xs \<noteq> xs \<Longrightarrow> length (dropWhile P xs) < length xs"
  by (cases xs) (auto simp: less_Suc_eq_le length_dropWhile_le split: if_splits)

lemma scanChunk_shorter:
  assumes "scanChunk pat = (star, chunk, rest)" and "pat \<noteq> []"
  shows "length rest < length pat"
proof -
  define p where "p = dropWhile (\<lambda>c. c = CHR ''*'') pat"
  have body: "scanBody False p = (chunk, rest)"
    using assms(1) unfolding scanChunk_def Let_def p_def [symmetric] by (auto split: prod.splits)
  then have split: "p = chunk @ rest" by (rule scanBody_append)
  show ?thesis
  proof (cases "p = pat")
    case True
    obtain c t where pat: "pat = c # t" using assms(2) by (cases pat) auto
    have nostar: "c \<noteq> CHR ''*''"
    proof
      assume "c = CHR ''*''"
      then have "length p \<le> length t" by (simp add: p_def pat length_dropWhile_le)
      with True pat show False by simp
    qed
    have "chunk \<noteq> []" by (rule scanBody_nonempty [OF body [unfolded True pat] nostar])
    with split True show ?thesis by (cases chunk) auto
  next
    case False
    then have "length p < length pat" unfolding p_def by (rule dropWhile_shorter)
    with split show ?thesis by simp
  qed
qed

fun starSearch :: "string \<Rightarrow> bool \<Rightarrow> string \<Rightarrow> string option option" where
  "starSearch chunk isLast [] = Some None"
| "starSearch chunk isLast (c # name) =
     (if c = Separator then Some None
      else case matchChunk chunk name False of
          None \<Rightarrow> None
        | Some None \<Rightarrow> starSearch chunk isLast name
        | Some (Some t) \<Rightarrow> (if isLast \<and> t \<noteq> [] then starSearch chunk isLast name else Some (Some t)))"

text \<open>Before reporting no match, the rest of the pattern is checked for being well formed.\<close>

function checkRest :: "string \<Rightarrow> bool option" where
  "checkRest pat =
     (if pat = [] then Some False
      else case scanChunk pat of (star, chunk, rest) \<Rightarrow>
        (case matchChunk chunk [] False of None \<Rightarrow> None | Some _ \<Rightarrow> checkRest rest))"
  by pat_completeness auto
termination
  by (relation "measure length") (auto dest!: sym [of _ "scanChunk _"] intro: scanChunk_shorter)

declare checkRest.simps [simp del]

function filepathMatch :: "string \<Rightarrow> string \<Rightarrow> bool option" where
  "filepathMatch pat name =
     (if pat = [] then Some (name = [])
      else case scanChunk pat of (star, chunk, rest) \<Rightarrow>
        (if star \<and> chunk = [] then Some (Separator \<notin> set name)
         else
           (let nomatch = (if star then starSearch chunk (rest = []) name else Some None);
                found = (case matchChunk chunk name False of
                   None \<Rightarrow> None
                 | Some (Some t) \<Rightarrow> (if t = [] \<or> rest \<noteq> [] then Some (Some t) else nomatch)
                 | Some None \<Rightarrow> nomatch)
            in case found of
                 None \<Rightarrow> None
               | Some (Some t) \<Rightarrow> filepathMatch rest t
               | Some None \<Rightarrow> checkRest rest)))"
  by pat_completeness auto
termination
  by (relation "measure (\<lambda>(pat, name). length pat)")
    (auto dest!: sym [of _ "scanChunk _"] intro: scanChunk_shorter)

declare filepathMatch.simps [simp del]

definition matchPatternGlob :: "string \<Rightarrow> string \<Rightarrow> bool" where
  "matchPatternGlob str pat =
     (if pat = ''*'' \<and> str = [] then False
      else if pat = [] then str = []
      else case filepathMatch pat str of
          None \<Rightarrow> matchPatternSimple str pat
        | Some matched \<Rightarrow> matched)"

section \<open>The glob strategy decides the glob relation on plain patterns\<close>

text \<open>
  A pattern without brackets and backslashes is plain; keys are ASCII without the separator. On these
  the search of \<^verbatim>\<open>filepath.Match\<close>, which never goes back over a star it has passed, is complete.
\<close>

definition plain :: "string \<Rightarrow> bool" where
  "plain pat \<longleftrightarrow> CHR ''['' \<notin> set pat \<and> CHR 0x5C \<notin> set pat"

definition segment :: "string \<Rightarrow> bool" where
  "segment name \<longleftrightarrow> isASCII name \<and> Separator \<notin> set name"

fun fits :: "string \<Rightarrow> string \<Rightarrow> bool" where
  "fits [] s = True"
| "fits (c # ch) [] = False"
| "fits (c # ch) (d # s) = ((c = CHR ''?'' \<or> c = d) \<and> fits ch s)"

lemma plain_Cons: "plain (c # p) \<longleftrightarrow> c \<noteq> CHR ''['' \<and> c \<noteq> CHR 0x5C \<and> plain p"
  by (auto simp: plain_def)

lemma plain_append: "plain (p @ q) \<longleftrightarrow> plain p \<and> plain q"
  by (auto simp: plain_def)

lemma segment_Cons: "segment (c # s) \<longleftrightarrow> byte_val c < 128 \<and> c \<noteq> Separator \<and> segment s"
  by (auto simp: segment_def isASCII_def)

lemma segment_suffix: "segment s \<Longrightarrow> suffix t s \<Longrightarrow> segment t"
  by (auto simp: segment_def isASCII_def dest: set_mono_suffix)

lemma matchChunk_step:
  assumes "c \<noteq> CHR ''[''" and "c \<noteq> CHR 0x5C"
  shows "matchChunk (c # ch) s f =
    (if f \<or> s = [] then matchChunk ch s True
     else if c = CHR ''?'' then matchChunk ch (drop (snd (DecodeRune s)) s) (hd s = Separator)
     else matchChunk ch (tl s) (c \<noteq> hd s))"
  unfolding matchChunk.simps [of "c # ch"] list.case Let_def if_not_P [OF assms(1)] if_not_P [OF assms(2)]
  by simp

lemma matchChunk_failed: "plain chunk \<Longrightarrow> matchChunk chunk s True = Some None"
  by (induction chunk) (simp_all add: matchChunk.simps [of "[]"] plain_Cons matchChunk_step)

lemma matchChunk_plain:
  "plain chunk \<Longrightarrow> segment s \<Longrightarrow>
     matchChunk chunk s False = Some (if fits chunk s then Some (drop (length chunk) s) else None)"
proof (induction chunk arbitrary: s)
  case Nil
  then show ?case by (simp add: matchChunk.simps)
next
  case (Cons c ch)
  show ?case
  proof (cases s)
    case Nil
    with Cons.prems show ?thesis by (simp add: plain_Cons matchChunk_step matchChunk_failed)
  next
    case (Cons d t)
    with Cons.prems Cons.IH [of t] show ?thesis
      by (simp add: plain_Cons segment_Cons matchChunk_step matchChunk_failed DecodeRune_ASCII)
  qed
qed

lemma scanBody_plain:
  "plain p \<Longrightarrow> scanBody False p = (takeWhile (\<lambda>c. c \<noteq> CHR ''*'') p, dropWhile (\<lambda>c. c \<noteq> CHR ''*'') p)"
proof (induction p)
  case (Cons c p)
  then have c: "c \<noteq> CHR ''[''" "c \<noteq> CHR 0x5C" and p: "plain p" by (simp_all add: plain_Cons)
  have range: "(c = CHR ''['' \<or> c \<noteq> CHR '']'' \<and> False) = False" using c by simp
  show ?case
    unfolding scanBody.simps if_not_P [OF c(2)] range Cons.IH [OF p] by simp
qed simp

lemma globs_star: "globs (CHR ''*'' # ps) s \<longleftrightarrow> (\<exists>t. suffix t s \<and> globs ps t)"
  by (induction s) (auto simp: suffix_Cons)

lemma globs_star_mono: "suffix t s \<Longrightarrow> globs (CHR ''*'' # ps) t \<Longrightarrow> globs (CHR ''*'' # ps) s"
  unfolding globs_star by (meson suffix_order.trans)

lemma globs_chunk:
  "CHR ''*'' \<notin> set chunk \<Longrightarrow> globs (chunk @ rest) s \<longleftrightarrow> fits chunk s \<and> globs rest (drop (length chunk) s)"
  by (induction chunk s rule: fits.induct) auto

lemma globs_stars: "globs (replicate (Suc n) (CHR ''*'') @ ps) s \<longleftrightarrow> globs (CHR ''*'' # ps) s"
proof (induction n arbitrary: s)
  case (Suc n)
  have "globs (replicate (Suc (Suc n)) (CHR ''*'') @ ps) s \<longleftrightarrow>
      (\<exists>t. suffix t s \<and> globs (replicate (Suc n) (CHR ''*'') @ ps) t)"
    using globs_star [of "replicate (Suc n) (CHR ''*'') @ ps"] by simp
  also have "\<dots> \<longleftrightarrow> (\<exists>t. suffix t s \<and> globs (CHR ''*'' # ps) t)" unfolding Suc.IH ..
  also have "\<dots> \<longleftrightarrow> globs (CHR ''*'' # ps) s"
    using globs_star_mono suffix_order.refl by blast
  finally show ?case .
qed simp

lemma fits_length: "fits chunk s \<Longrightarrow> length chunk \<le> length s"
  by (induction chunk s rule: fits.induct) auto

text \<open>A place where the chunk fits, at the end of the name when it is the last chunk.\<close>

definition hit :: "string \<Rightarrow> bool \<Rightarrow> string \<Rightarrow> bool" where
  "hit chunk isLast t \<longleftrightarrow> fits chunk t \<and> (isLast \<longrightarrow> drop (length chunk) t = [])"

lemma starSearch_leftmost:
  assumes "plain chunk" and "segment name"
  shows "(starSearch chunk isLast name = Some None \<and> (\<forall>t. strict_suffix t name \<longrightarrow> \<not> hit chunk isLast t)) \<or>
    (\<exists>t. starSearch chunk isLast name = Some (Some (drop (length chunk) t)) \<and> strict_suffix t name \<and>
       hit chunk isLast t \<and> (\<forall>t'. strict_suffix t' name \<and> hit chunk isLast t' \<longrightarrow> suffix t' t))"
  using assms(2)
proof (induction name)
  case (Cons c name)
  have below: "strict_suffix t (c # name) \<longleftrightarrow> suffix t name" for t
    by (auto simp: strict_suffix_def suffix_Cons dest: suffix_length_le)
  have name: "segment name" and c: "c \<noteq> Separator" using Cons.prems by (simp_all add: segment_Cons)
  note attempt = matchChunk_plain [OF assms(1) name]
  show ?case
  proof (cases "hit chunk isLast name")
    case True
    then have "starSearch chunk isLast (c # name) = Some (Some (drop (length chunk) name))"
      using c attempt by (auto simp: hit_def)
    with True show ?thesis unfolding below by blast
  next
    case False
    then have "starSearch chunk isLast (c # name) = starSearch chunk isLast name"
      using c attempt by (auto simp: hit_def)
    moreover have "suffix t name \<and> hit chunk isLast t \<longleftrightarrow> strict_suffix t name \<and> hit chunk isLast t" for t
      using False by (auto simp: strict_suffix_def)
    ultimately show ?thesis using Cons.IH [OF name] unfolding below by metis
  qed
qed (simp add: strict_suffix_def)

lemma checkRest_plain: "plain pat \<Longrightarrow> checkRest pat = Some False"
proof (induction pat rule: checkRest.induct)
  case (1 pat)
  show ?case
  proof (cases "pat = []")
    case False
    obtain star chunk rest where scan: "scanChunk pat = (star, chunk, rest)" by (cases "scanChunk pat")
    let ?p = "dropWhile (\<lambda>c. c = CHR ''*'') pat"
    have "?p = chunk @ rest" using scan scanBody_append
      unfolding scanChunk_def Let_def by (auto split: prod.splits)
    moreover have "plain ?p" using "1.prems" set_dropWhileD by (force simp: plain_def)
    ultimately have plain: "plain chunk" "plain rest" by (simp_all add: plain_append)
    have "matchChunk chunk [] False \<noteq> None" using matchChunk_plain [OF plain(1), of "[]"]
      by (simp add: segment_def isASCII_def)
    with "1.IH" [OF False scan [symmetric] refl] plain False scan show ?thesis
      by (subst checkRest.simps) auto
  qed (simp add: checkRest.simps)
qed

text \<open>How \<open>scanChunk\<close> takes a plain pattern apart.\<close>

lemma scanChunk_plain:
  assumes "scanChunk pat = (star, chunk, rest)" and "plain pat"
  shows "plain chunk" and "plain rest" and "CHR ''*'' \<notin> set chunk"
    and "rest = [] \<or> hd rest = CHR ''*''" and "chunk = [] \<Longrightarrow> rest = []"
    and "globs pat s = globs ((if star then [CHR ''*''] else []) @ chunk @ rest) s"
proof -
  define p where "p = dropWhile (\<lambda>c. c = CHR ''*'') pat"
  define stars where "stars = takeWhile (\<lambda>c. c = CHR ''*'') pat"
  have pat: "pat = stars @ p" by (simp add: p_def stars_def)
  have p: "plain p" using assms(2) by (simp add: pat plain_append)
  have parts: "star = (p \<noteq> pat)" "chunk = takeWhile (\<lambda>c. c \<noteq> CHR ''*'') p" "rest = dropWhile (\<lambda>c. c \<noteq> CHR ''*'') p"
    using assms(1) unfolding scanChunk_def Let_def p_def [symmetric] scanBody_plain [OF p] by simp_all
  have split: "p = chunk @ rest" by (simp add: parts)
  show "plain chunk" "plain rest" using p by (simp_all add: split plain_append)
  show "CHR ''*'' \<notin> set chunk" by (auto simp: parts dest: set_takeWhileD)
  show "rest = [] \<or> hd rest = CHR ''*''"
    using hd_dropWhile [of "\<lambda>c. c \<noteq> CHR ''*''" p] by (auto simp: parts)
  show "rest = []" if "chunk = []"
    using that hd_dropWhile [of "\<lambda>c. c = CHR ''*''" pat] unfolding p_def [symmetric] parts(2,3)
    by (cases p) (auto split: if_splits)
  have all: "stars = replicate (length stars) (CHR ''*'')"
    unfolding stars_def by (rule replicate_length_same [symmetric]) (auto dest: set_takeWhileD)
  show "globs pat s = globs ((if star then [CHR ''*''] else []) @ chunk @ rest) s"
  proof (cases "length stars")
    case (Suc n)
    then have "star" by (auto simp: parts pat)
    with globs_stars [of n p s] all show ?thesis by (simp add: pat split Suc)
  qed (auto simp: parts(1) pat split)
qed

lemma drop_suffix_mono:
  assumes "suffix t' t" shows "suffix (drop n t') (drop n t)"
proof (rule suffix_length_suffix)
  show "suffix (drop n t') t" using suffix_drop assms by (rule suffix_order.trans)
  show "length (drop n t') \<le> length (drop n t)" using suffix_length_le [OF assms] by simp
qed (rule suffix_drop)

text \<open>The leftmost hit decides a starred chunk: no other place to put it can do better.\<close>

lemma leftmost_decides:
  assumes star: "rest = [] \<or> hd rest = CHR ''*''" and chunk: "CHR ''*'' \<notin> set chunk"
    and t: "suffix t name" "hit chunk (rest = []) t"
    and left: "\<And>t'. suffix t' name \<Longrightarrow> hit chunk (rest = []) t' \<Longrightarrow> suffix t' t"
  shows "globs (CHR ''*'' # chunk @ rest) name \<longleftrightarrow> globs rest (drop (length chunk) t)"
proof
  assume "globs (CHR ''*'' # chunk @ rest) name"
  then obtain u where u: "suffix u name" "fits chunk u" "globs rest (drop (length chunk) u)"
    unfolding globs_star using globs_chunk [OF chunk] by blast
  then have "hit chunk (rest = []) u" by (auto simp: hit_def)
  with left u(1) have "suffix (drop (length chunk) u) (drop (length chunk) t)"
    by (intro drop_suffix_mono) blast
  with star u(3) t(2) show "globs rest (drop (length chunk) t)"
    by (cases rest) (auto simp: hit_def intro: globs_star_mono)
next
  assume "globs rest (drop (length chunk) t)"
  with t show "globs (CHR ''*'' # chunk @ rest) name"
    unfolding globs_star using globs_chunk [OF chunk] by (auto simp: hit_def)
qed

lemma no_hit_no_match:
  assumes "CHR ''*'' \<notin> set chunk" and "\<And>t. suffix t name \<Longrightarrow> \<not> hit chunk (rest = []) t"
  shows "\<not> globs (CHR ''*'' # chunk @ rest) name"
  unfolding globs_star using assms(2) globs_chunk [OF assms(1)] by (auto simp: hit_def)

text \<open>What one round of \<^verbatim>\<open>filepath.Match\<close> finds for a plain chunk.\<close>

definition locate :: "bool \<Rightarrow> string \<Rightarrow> bool \<Rightarrow> string \<Rightarrow> string option option" where
  "locate star chunk isLast name =
     (if hit chunk isLast name then Some (Some (drop (length chunk) name))
      else if star then starSearch chunk isLast name else Some None)"

lemma filepathMatch_step:
  assumes "scanChunk pat = (star, chunk, rest)" and "pat \<noteq> []" and "\<not> (star \<and> chunk = [])"
    and "plain chunk" and "segment name"
  shows "filepathMatch pat name = (case locate star chunk (rest = []) name of None \<Rightarrow> None
      | Some (Some t) \<Rightarrow> filepathMatch rest t | Some None \<Rightarrow> checkRest rest)"
  using assms(1-3) matchChunk_plain [OF assms(4,5)]
  by (subst filepathMatch.simps) (auto simp: locate_def hit_def Let_def)

lemma locate_star:
  assumes "plain chunk" and "segment name"
  obtains (nowhere) "locate True chunk isLast name = Some None"
      "\<And>t. suffix t name \<Longrightarrow> \<not> hit chunk isLast t"
    | (leftmost) t where "locate True chunk isLast name = Some (Some (drop (length chunk) t))"
      "suffix t name" "hit chunk isLast t" "\<And>t'. suffix t' name \<Longrightarrow> hit chunk isLast t' \<Longrightarrow> suffix t' t"
proof (cases "hit chunk isLast name")
  case True
  with leftmost [of name] show ?thesis by (simp add: locate_def)
next
  case False
  then have proper: "suffix t name \<and> hit chunk isLast t \<longleftrightarrow> strict_suffix t name \<and> hit chunk isLast t" for t
    by (auto simp: strict_suffix_def)
  from False have "locate True chunk isLast name = starSearch chunk isLast name" by (simp add: locate_def)
  with starSearch_leftmost [OF assms, of isLast] proper nowhere leftmost show ?thesis by metis
qed

lemma filepathMatch_plain:
  "plain pat \<Longrightarrow> segment name \<Longrightarrow> filepathMatch pat name = Some (globs pat name)"
proof (induction pat arbitrary: name rule: length_induct)
  case (1 pat)
  show ?case
  proof (cases "pat = []")
    case nonempty: False
    obtain star chunk rest where scan: "scanChunk pat = (star, chunk, rest)" by (cases "scanChunk pat")
    note sc = scanChunk_plain [OF scan "1.prems"(1)] and chunk = globs_chunk [OF scanChunk_plain(3) [OF scan "1.prems"(1)]]
    have rec: "filepathMatch rest (drop n t) = Some (globs rest (drop n t))" if "suffix t name" for n t
      using "1.IH" scanChunk_shorter [OF scan nonempty] sc(2)
        segment_suffix [OF "1.prems"(2) suffix_order.trans [OF suffix_drop that]] by blast
    consider (all) "star" "chunk = []" | (starred) "star" "chunk \<noteq> []" | (unstarred) "\<not> star" by blast
    then show ?thesis
    proof cases
      case all
      with scan nonempty "1.prems"(2) sc(5) show ?thesis
        unfolding sc(6) by (subst filepathMatch.simps) (auto simp: globs_star segment_def)
    next
      case starred
      note step = filepathMatch_step [OF scan nonempty _ sc(1) "1.prems"(2)]
      from sc(1) "1.prems"(2) show ?thesis
      proof (cases rule: locate_star [where isLast = "rest = []"])
        case nowhere
        with step starred sc(6) no_hit_no_match [OF sc(3) nowhere(2)] show ?thesis
          by (simp add: checkRest_plain [OF sc(2)])
      next
        case (leftmost t)
        with step starred sc(6) rec leftmost_decides [OF sc(4,3) leftmost(2-4)] show ?thesis by simp
      qed
    next
      case unstarred
      with filepathMatch_step [OF scan nonempty _ sc(1) "1.prems"(2)] rec [of name] show ?thesis
        unfolding sc(6) by (auto simp: locate_def chunk hit_def checkRest_plain [OF sc(2)])
    qed
  qed (simp add: filepathMatch.simps)
qed

section \<open>The regex strategy\<close>

text \<open>
  Go ranges over the runes of a string. \<^verbatim>\<open>globToRegex\<close> is kept on runes, as \<^verbatim>\<open>regexp\<close> decodes the text
  that \<^verbatim>\<open>WriteRune\<close> encodes.
\<close>

function runes :: "string \<Rightarrow> nat list" where
  "runes s = (if s = [] then [] else case DecodeRune s of (r, n) \<Rightarrow> r # runes (drop n s))"
  by pat_completeness auto
termination
proof (relation "measure length", simp)
  fix s :: string and r n
  assume "s \<noteq> []" and "(r, n) = DecodeRune s"
  with DecodeRune_width [of s] have "0 < n" by (metis snd_conv)
  with \<open>s \<noteq> []\<close> show "(drop n s, s) \<in> measure length" by simp
qed

declare runes.simps [simp del]

definition regexMeta :: "nat list" where
  "regexMeta = map byte_val (''.^$+()[]{}|'' @ [CHR 0x5C])"

fun globToRegex :: "nat list \<Rightarrow> nat list" where
  "globToRegex [] = []"
| "globToRegex (char # pat) =
     (if char = byte_val CHR ''*'' then map byte_val ''.*''
      else if char = byte_val CHR ''?'' then map byte_val ''.''
      else if char \<in> set regexMeta then [byte_val CHR 0x5C, char]
      else [char]) @ globToRegex pat"

datatype rtoken = RAnyStar | RAny | RLit nat

text \<open>
  \<^verbatim>\<open>regexp.Compile\<close> on the texts that \<^verbatim>\<open>globToRegex\<close> writes between \<open>^\<close> and \<open>$\<close>: literals, escaped
  punctuation, \<open>.\<close> and \<open>.*\<close>. \<open>None\<close> is a compilation error; lemma \<open>globToRegex_compiles\<close> shows that no
  pattern leads to it.
\<close>

fun regexCompile :: "nat list \<Rightarrow> rtoken list option" where
  "regexCompile [] = Some []"
| "regexCompile (c # re) =
     (if c = byte_val CHR ''.'' then
        (case re of
           d # re' \<Rightarrow>
             (if d = byte_val CHR ''*'' then map_option (\<lambda>ts. RAnyStar # ts) (regexCompile re')
              else map_option (\<lambda>ts. RAny # ts) (regexCompile re))
         | [] \<Rightarrow> Some [RAny])
      else if c = byte_val CHR 0x5C then
        (case re of
           d # re' \<Rightarrow> (if d \<in> set regexMeta then map_option (\<lambda>ts. RLit d # ts) (regexCompile re') else None)
         | [] \<Rightarrow> None)
      else if c \<in> set regexMeta \<union> {byte_val CHR ''*'', byte_val CHR ''?''} then None
      else map_option (\<lambda>ts. RLit c # ts) (regexCompile re))"

text \<open>\<^verbatim>\<open>MatchString\<close> of an anchored expression; \<open>.\<close> stands for every rune but the line feed.\<close>

fun regexMatch :: "rtoken list \<Rightarrow> nat list \<Rightarrow> bool" where
  "regexMatch [] s = (s = [])"
| "regexMatch (RLit c # ts) [] = False"
| "regexMatch (RAny # ts) [] = False"
| "regexMatch (RAnyStar # ts) [] = regexMatch ts []"
| "regexMatch (RLit c # ts) (d # s) = (c = d \<and> regexMatch ts s)"
| "regexMatch (RAny # ts) (d # s) = (d \<noteq> byte_val LF \<and> regexMatch ts s)"
| "regexMatch (RAnyStar # ts) (d # s) = (regexMatch ts (d # s) \<or> d \<noteq> byte_val LF \<and> regexMatch (RAnyStar # ts) s)"

definition matchPatternRegex :: "string \<Rightarrow> string \<Rightarrow> bool" where
  "matchPatternRegex str pat =
     (if pat = ''*'' \<and> str = [] then False
      else if pat = [] then str = []
      else case regexCompile (globToRegex (runes pat)) of
          None \<Rightarrow> matchPatternSimple str pat
        | Some regex \<Rightarrow> regexMatch regex (runes str))"

section \<open>Choosing a strategy\<close>

fun MatchPatternWithStrategy :: "string \<Rightarrow> string \<Rightarrow> MatchingStrategy \<Rightarrow> bool" where
  "MatchPatternWithStrategy str pat StrategySimple = matchPatternSimple str pat"
| "MatchPatternWithStrategy str pat StrategyRegex = matchPatternRegex str pat"
| "MatchPatternWithStrategy str pat StrategyAutomaton = matchPatternAutomaton str pat"
| "MatchPatternWithStrategy str pat StrategyGlob = matchPatternGlob str pat"
| "MatchPatternWithStrategy str pat (StrategyOther n) = matchPatternSimple str pat"

text \<open>The package-wide configuration, its accessors, and \<^verbatim>\<open>matchPattern\<close> of \<^verbatim>\<open>memory.go\<close>, which reads it.\<close>

record MatchingConfig =
  strategy :: MatchingStrategy

definition globalMatchingConfig :: MatchingConfig where
  "globalMatchingConfig = \<lparr>strategy = StrategyGlob\<rparr>"

definition SetMatchingStrategy :: "MatchingStrategy \<Rightarrow> MatchingConfig \<Rightarrow> MatchingConfig" where
  "SetMatchingStrategy st cfg = cfg\<lparr>strategy := st\<rparr>"

definition GetMatchingStrategy :: "MatchingConfig \<Rightarrow> MatchingStrategy" where
  "GetMatchingStrategy cfg = strategy cfg"

definition matchPattern :: "MatchingConfig \<Rightarrow> string \<Rightarrow> string \<Rightarrow> bool" where
  "matchPattern cfg str pat = MatchPatternWithStrategy str pat (GetMatchingStrategy cfg)"

section \<open>The strategies compared\<close>

fun globToken :: "nat \<Rightarrow> rtoken" where
  "globToken r = (if r = byte_val CHR ''*'' then RAnyStar else if r = byte_val CHR ''?'' then RAny else RLit r)"

lemma globToRegex_not_starred:
  "case globToRegex pat of [] \<Rightarrow> True | d # _ \<Rightarrow> d \<noteq> byte_val CHR ''*''"
  by (cases pat) auto

lemma globToRegex_compiles: "regexCompile (globToRegex pat) = Some (map globToken pat)"
proof (induction pat)
  case (Cons r pat)
  consider (star) "r = byte_val CHR ''*''" | (any) "r = byte_val CHR ''?''"
    | (meta) "r \<noteq> byte_val CHR ''*''" "r \<noteq> byte_val CHR ''?''" "r \<in> set regexMeta"
    | (lit) "r \<noteq> byte_val CHR ''*''" "r \<noteq> byte_val CHR ''?''" "r \<notin> set regexMeta" by blast
  then show ?case
  proof cases
    case star
    with Cons show ?thesis by simp
  next
    case any
    with Cons globToRegex_not_starred [of pat] show ?thesis
      by (cases "globToRegex pat") simp_all
  next
    case meta
    with Cons show ?thesis by simp
  next
    case lit
    then have "r \<noteq> byte_val CHR ''.''" "r \<noteq> byte_val CHR 0x5C" unfolding regexMeta_def by auto
    with lit Cons show ?thesis by simp
  qed
qed simp

lemma runes_ASCII: "isASCII s \<Longrightarrow> runes s = map byte_val s"
  by (induction s) (auto simp: isASCII_def runes.simps DecodeRune_ASCII)

lemma globToken_byte:
  "globToken (byte_val p) =
     (if p = CHR ''*'' then RAnyStar else if p = CHR ''?'' then RAny else RLit (byte_val p))"
  using of_char_eq_iff [of p "CHR ''*''", where 'a = nat] of_char_eq_iff [of p "CHR ''?''", where 'a = nat]
  by (simp del: of_char_eq_iff)

declare globToken.simps [simp del]

lemma regexMatch_globs:
  "LF \<notin> set s \<Longrightarrow> regexMatch (map globToken (map byte_val pat)) (map byte_val s) = globs pat s"
proof (induction pat s rule: globs.induct)
  case (3 p ps c s)
  have "byte_val c \<noteq> byte_val LF" using "3.prems" of_char_eq_iff [of c LF, where 'a = nat] by auto
  with 3 show ?case by (simp add: globToken_byte globToken.simps [of 42])
qed (auto simp: globToken_byte)

lemma strategies_decide:
  assumes "plain pat" and "isASCII pat" and "segment str" and "LF \<notin> set str" and "st \<in> {StrategyGlob, StrategyRegex, StrategyAutomaton}"
  shows "MatchPatternWithStrategy str pat st = (if pat = ''*'' then str \<noteq> [] else globs pat str)"
proof -
  let ?spec = "if pat = ''*'' then str \<noteq> [] else globs pat str"
  have star: "globs ''*'' str" by (auto simp: globs_star)
  have "matchPatternGlob str pat = ?spec"
    using star filepathMatch_plain [OF assms(1,3)] by (auto simp: matchPatternGlob_def)
  moreover have "matchPatternRegex str pat = ?spec"
    using star regexMatch_globs [OF assms(4), of pat] runes_ASCII [OF assms(2)] runes_ASCII [of str] assms(3)
    by (auto simp: matchPatternRegex_def segment_def globToRegex_compiles simp del: map_map)
  moreover have "matchPatternAutomaton str pat = ?spec" by (rule matchPatternAutomaton_correct)
  ultimately show ?thesis using assms(5) by auto
qed



lemma fits_prefix: "CHR ''?'' \<notin> set x \<Longrightarrow> fits x s \<longleftrightarrow> prefix x s"
  by (induction x s rule: fits.induct) auto

lemma globs_one_star:
  assumes "CHR ''*'' \<notin> set pre" and "CHR ''*'' \<notin> set suf"
    and "CHR ''?'' \<notin> set pre" and "CHR ''?'' \<notin> set suf" and "length pre + length suf \<le> length key"
  shows "globs (pre @ ''*'' @ suf) key \<longleftrightarrow> HasPrefix key pre \<and> HasSuffix key suf"
proof -
  have "globs suf t \<longleftrightarrow> t = suf" for t
    using globs_chunk [OF assms(2), of "[]" t] by (auto simp: fits_prefix [OF assms(4)] prefix_def)
  then have star: "globs (''*'' @ suf) t \<longleftrightarrow> suffix suf t" for t
    using globs_star [of suf t] by simp
  have "globs (pre @ ''*'' @ suf) key \<longleftrightarrow> prefix pre key \<and> suffix suf (drop (length pre) key)"
    unfolding globs_chunk [OF assms(1)] star fits_prefix [OF assms(3)] ..
  moreover have "suffix suf (drop (length pre) key) \<longleftrightarrow> suffix suf key"
  proof
    show "suffix suf key" if "suffix suf (drop (length pre) key)"
      using that suffix_drop by (rule suffix_order.trans)
    show "suffix suf (drop (length pre) key)" if "suffix suf key"
      by (rule suffix_length_suffix [OF that suffix_drop]) (use assms(5) in simp)
  qed
  ultimately show ?thesis by (simp add: HasPrefix_iff HasSuffix_iff prefix_def suffix_def)
qed

lemma matchPatternSimple_one_star:
  assumes "CHR ''*'' \<notin> set pre" and "CHR ''*'' \<notin> set suf" and "pre @ suf \<noteq> []"
  shows "matchPatternSimple key (pre @ ''*'' @ suf) \<longleftrightarrow> HasPrefix key pre \<and> HasSuffix key suf"
proof -
  define pat where "pat = pre @ CHR ''*'' # suf"
  have cut: "takeWhile (\<lambda>c. c \<noteq> CHR ''*'') pat = pre" "tl (dropWhile (\<lambda>c. c \<noteq> CHR ''*'') pat) = suf"
    using assms(1) unfolding pat_def by (induction pre) auto
  have letters: "suf \<noteq> [] \<Longrightarrow> last suf \<noteq> CHR ''*''" "pre \<noteq> [] \<Longrightarrow> hd pre \<noteq> CHR ''*''"
    using assms(1,2) last_in_set hd_in_set by metis+
  have last: "last pat = CHR ''*'' \<longleftrightarrow> suf = []"
    using letters(1) unfolding pat_def by (cases "suf = []") auto
  have hd: "hd pat = CHR ''*'' \<longleftrightarrow> pre = []"
    using letters(2) unfolding pat_def by (cases "pre = []") auto
  have ends: "suf = [] \<Longrightarrow> butlast pat = pre" "pre = [] \<Longrightarrow> tl pat = suf"
    by (simp_all add: pat_def butlast_append)
  have pat: "pat \<noteq> []" "pat \<noteq> ''*''" "CHR ''*'' \<in> set pat" "CHR ''*'' \<notin> set suf"
    using assms by (auto simp: pat_def append_eq_Cons_conv)
  have self: "HasPrefix pat pre" "HasSuffix pat suf"
    unfolding HasPrefix_iff HasSuffix_iff pat_def by (blast, metis append_Cons append_assoc append_Nil)
  have "matchPatternSimple key pat \<longleftrightarrow> HasPrefix key pre \<and> HasSuffix key suf"
    unfolding matchPatternSimple_def cut Let_def using pat last hd ends self
    by (auto simp: HasPrefix_iff HasSuffix_iff)
  then show ?thesis by (simp add: pat_def)
qed

text \<open>
  The simple strategy decides the glob relation for a pattern with one \<open>*\<close>, no \<open>?\<close> and at least
  one other character, on keys at least as long as the fixed parts of the pattern together.
\<close>

theorem matchPatternSimple_single_star:
  assumes "set (pre @ suf) \<inter> {CHR ''*'', CHR ''?''} = {}" and "pre @ suf \<noteq> []"
    and "length pre + length suf \<le> length key"
  shows "matchPatternSimple key (pre @ ''*'' @ suf) = globs (pre @ ''*'' @ suf) key"
proof -
  have none: "CHR ''*'' \<notin> set pre" "CHR ''*'' \<notin> set suf" "CHR ''?'' \<notin> set pre" "CHR ''?'' \<notin> set suf"
    using assms(1) by auto
  show ?thesis
    unfolding matchPatternSimple_one_star [OF none(1,2) assms(2)] globs_one_star [OF none assms(3)] ..
qed

theorem matchPatternSimple_single_star_witness:
  "matchPatternSimple ''user:1:name'' (''user:'' @ ''*'' @ '':name'')"
  using matchPatternSimple_single_star [of "''user:''" "'':name''" "''user:1:name''"] by simp

text \<open>
  Below that length the simple strategy accepts keys in which the two fixed parts overlap:
  it takes \<open>aba\<close> for a match of \<open>ab*ba\<close>, which the other strategies reject.
\<close>

theorem matchPatternSimple_overlap:
  "matchPatternSimple ''aba'' ''ab*ba'' \<and> \<not> matchPatternAutomaton ''aba'' ''ab*ba''"
  by (auto simp: matchPatternAutomaton_correct) code_simp

text \<open>
  Under the default strategy \<open>*\<close> and \<open>?\<close> do not stand for \<open>/\<close>: \<open>user/1\<close> is not found by
  \<open>user*\<close>, nor \<open>a/b\<close> by \<open>a?b\<close>, though the glob relation (and the automaton strategy) accept them.
\<close>

theorem default_strategy_stops_at_separator:
  "\<not> matchPattern globalMatchingConfig ''user/1'' ''user*'' \<and> globs ''user*'' ''user/1'' \<and>
   \<not> matchPattern globalMatchingConfig ''a/b'' ''a?b'' \<and> globs ''a?b'' ''a/b''"
  by code_simp

end
