(* ===== verification/Store_Ops.thy ===== *)
theory Store_Ops
  imports Store_Types Matching "HOL-Library.AList" "HOL-Library.Multiset" "HOL-Library.Monad_Syntax"
begin

text \<open>
  The in-memory storage engine (\<^verbatim>\<open>src/storage/memory.go\<close>): its state and every operation.

  A shard's Go map is an association list with distinct keys, a database the list of its shards, the
  store's map of databases an association list. An operation returns \<open>None\<close> where the code panics (a
  missing database, a shard index out of range, an impossible allocation, a second \<^verbatim>\<open>close\<close>) or never
  returns. Each operation is one atomic step and reads the clock once (\<open>now\<close>).

  What the program takes from outside is a parameter: \<open>H\<close> is \<^verbatim>\<open>xxhash.Sum64String\<close>, of which nothing is
  assumed; \<open>ord\<close> is the order in which the runtime iterates over a map, read through \<open>arrange\<close>, so that
  any permutation is possible and nothing else; \<open>rng\<close> is the random generator.
\<close>

section \<open>State\<close>

type_synonym shard = "(string \<times> svalue) list"

type_synonym shardedDatabase = "shard list"

text \<open>Calls made to the registered observers, oldest first: the observer's number and the method.\<close>

datatype event =
    OnKeySet string bytes
  | OnKeyDeleted string
  | OnKeyExpired string
  | OnKeyAccessed string

record memstore =
  databases :: "(int \<times> shardedDatabase) list"
  currentDB :: int
  shards :: int
  shardMask :: "64 word"
  memoryLimit :: int
  observers :: "nat list"
  cleanupConfig :: CleanupConfig
  closed :: bool
  notified :: "(nat \<times> event) list"

type_synonym hash = "string \<Rightarrow> 64 word"

type_synonym 'a order = "'a list \<Rightarrow> 'a list"

text \<open>The order a map is iterated in: whatever \<open>ord\<close> proposes, if it is a permutation.\<close>

definition arrange :: "'a order \<Rightarrow> 'a list \<Rightarrow> 'a list" where
  "arrange ord xs = (if mset (ord xs) = mset xs then ord xs else xs)"

lemma arrange_perm [simp]: "mset (arrange ord xs) = mset xs"
  by (simp add: arrange_def)

lemma arrange_set [simp]: "set (arrange ord xs) = set xs"
  by (rule mset_eq_setD) simp

lemma arrange_distinct [simp]: "distinct (arrange ord xs) = distinct xs"
  by (rule mset_eq_imp_distinct_iff) simp

lemma arrange_length [simp]: "length (arrange ord xs) = length xs"
  by (rule mset_eq_length) simp

lemma arrange_id: "mset (ord xs) = mset xs \<Longrightarrow> arrange ord xs = ord xs"
  by (simp add: arrange_def)

section \<open>Construction\<close>

text \<open>The largest allocation of the Go runtime on 64-bit machines.\<close>

definition maxAlloc :: int where "maxAlloc = 2 ^ 48"

text \<open>\<^verbatim>\<open>make([]T, len, cap)\<close> succeeds for a capacity in this range; \<open>elem\<close> is the size of an element.\<close>

definition makeSlice :: "int \<Rightarrow> int \<Rightarrow> unit option" where
  "makeSlice elem cap = (if 0 \<le> cap \<and> cap * elem \<le> maxAlloc then Some () else None)"

text \<open>A shard is a \<^verbatim>\<open>RWMutex\<close> (24 bytes) and a map pointer.\<close>

definition newShardedDatabase :: "memstore \<Rightarrow> shardedDatabase option" where
  "newShardedDatabase s = do {
     makeSlice 32 (shards s);
     Some (replicate (nat (shards s)) [])
   }"

definition WithShardCount :: "int \<Rightarrow> memstore \<Rightarrow> memstore" where
  "WithShardCount cnt s =
     (if cnt > 0 then
        s\<lparr>shards := nextPowerOf2 cnt, shardMask := word_of_int (nextPowerOf2 cnt - 1)\<rparr>
      else s)"

definition emptyMemory :: memstore where
  "emptyMemory = \<lparr>databases = [], currentDB = 0, shards = 64, shardMask = 63, memoryLimit = 0,
     observers = [], cleanupConfig = CleanupConfigDefault, closed = False, notified = []\<rparr>"

definition NewMemory :: "(memstore \<Rightarrow> memstore) list \<Rightarrow> memstore option" where
  "NewMemory opts = do {
     let s = fold (\<lambda>opt s. opt s) opts emptyMemory;
     db \<leftarrow> newShardedDatabase s;
     Some (s\<lparr>databases := AList.update 0 db (databases s)\<rparr>)
   }"

definition NewMemoryWithShards :: "int \<Rightarrow> memstore option" where
  "NewMemoryWithShards numShards = NewMemory [WithShardCount numShards]"

section \<open>Access to databases and shards\<close>

definition keyHash :: "hash \<Rightarrow> memstore \<Rightarrow> string \<Rightarrow> nat" where
  "keyHash H s key = unat (H key AND shardMask s)"

definition currentDatabase :: "memstore \<Rightarrow> shardedDatabase option" where
  "currentDatabase s = map_of (databases s) (currentDB s)"

definition shardAt :: "shardedDatabase \<Rightarrow> nat \<Rightarrow> shard option" where
  "shardAt db i = (if i < length db then Some (db ! i) else None)"

text \<open>The shards that a loop \<^verbatim>\<open>for i := 0; i < s.shards; i++\<close> visits.\<close>

definition allShards :: "memstore \<Rightarrow> shardedDatabase \<Rightarrow> shard list option" where
  "allShards s db = (if nat (shards s) \<le> length db then Some (take (nat (shards s)) db) else None)"

text \<open>Writing a shard in place, in database \<open>d\<close> and in the current one.\<close>

definition putShardIn :: "int \<Rightarrow> nat \<Rightarrow> shard \<Rightarrow> memstore \<Rightarrow> memstore" where
  "putShardIn d i sh s = s\<lparr>databases := map (\<lambda>(n, db). (n, if n = d then db[i := sh] else db)) (databases s)\<rparr>"

definition putShard :: "nat \<Rightarrow> shard \<Rightarrow> memstore \<Rightarrow> memstore" where
  "putShard i sh s = putShardIn (currentDB s) i sh s"

definition notify :: "event \<Rightarrow> memstore \<Rightarrow> memstore" where
  "notify e s = s\<lparr>notified := notified s @ map (\<lambda>ob. (ob, e)) (observers s)\<rparr>"

definition keysOf :: "shard \<Rightarrow> string list" where
  "keysOf sh = map fst sh"

text \<open>The entries of a shard in the order of one iteration.\<close>

definition iterate :: "string order \<Rightarrow> shard \<Rightarrow> shard" where
  "iterate ord sh = map (\<lambda>k. (k, the (map_of sh k))) (arrange ord (keysOf sh))"

section \<open>String operations\<close>

definition deleteExpiredKey :: "hash \<Rightarrow> int \<Rightarrow> string \<Rightarrow> memstore \<Rightarrow> memstore option" where
  "deleteExpiredKey H now key s = do {
     db \<leftarrow> currentDatabase s;
     let i = keyHash H s key;
     sh \<leftarrow> shardAt db i;
     case map_of sh key of
       None \<Rightarrow> Some s
     | Some value \<Rightarrow>
         (if IsExpired now value
          then Some (notify (OnKeyExpired key) (putShard i (AList.delete key sh) s))
          else Some s)
   }"

text \<open>The result of \<^verbatim>\<open>Get\<close> is \<open>None\<close> for \<open>(nil, false)\<close> and \<open>Some data\<close> for \<open>(data, true)\<close>.\<close>

definition Get :: "hash \<Rightarrow> int \<Rightarrow> string \<Rightarrow> memstore \<Rightarrow> (bytes option \<times> memstore) option" where
  "Get H now key s = do {
     db \<leftarrow> currentDatabase s;
     sh \<leftarrow> shardAt db (keyHash H s key);
     case map_of sh key of
       None \<Rightarrow> Some (None, s)
     | Some value \<Rightarrow>
         (if IsExpired now value then do {
            s' \<leftarrow> deleteExpiredKey H now key s;
            Some (None, s')
          } else
            (let result = (if valType value = ValueTypeString
                           then case valData value of StringValue data \<Rightarrow> Some data | _ \<Rightarrow> None
                           else None)
             in Some (result, notify (OnKeyAccessed key) s)))
   }"

text \<open>\<^verbatim>\<open>unsafe.Sizeof(Value)\<close> is 40: an \<open>int\<close>, an interface (16), a pointer and an \<open>int64\<close>.\<close>

definition calculateValueSize :: "svalue \<Rightarrow> int" where
  "calculateValueSize value = 40 +
     (if valType value = ValueTypeString
      then case valData value of StringValue data \<Rightarrow> int (length data) | _ \<Rightarrow> 0
      else 0)"

definition shardUsage :: "shard \<Rightarrow> int" where
  "shardUsage sh = sum_list (map (\<lambda>(key, value). int (length key) + calculateValueSize value) sh)"

fun databasesUsage :: "memstore \<Rightarrow> shardedDatabase list \<Rightarrow> int option" where
  "databasesUsage s [] = Some 0"
| "databasesUsage s (db # dbs) = do {
     shs \<leftarrow> allShards s db;
     rest \<leftarrow> databasesUsage s dbs;
     Some (sum_list (map shardUsage shs) + rest)
   }"

definition MemoryUsage :: "memstore \<Rightarrow> int option" where
  "MemoryUsage s = databasesUsage s (map snd (databases s))"

section \<open>Eviction\<close>

text \<open>
  The inner loop of \<^verbatim>\<open>evictLRU\<close> over the shards \<open>is\<close> still to visit: the first key of one iteration over
  each shard goes, until \<open>cnt\<close> keys are gone. The early return is the end of this loop and of the
  outer one. Results are the store, \<open>evicted\<close> and \<open>evictedThisRound\<close>.
\<close>

fun evictShards ::
  "(nat \<Rightarrow> string order) \<Rightarrow> int \<Rightarrow> nat list \<Rightarrow> memstore \<Rightarrow> int \<Rightarrow> int \<Rightarrow> (memstore \<times> int \<times> int) option"
where
  "evictShards ord cnt [] s evicted thisRound = Some (s, evicted, thisRound)"
| "evictShards ord cnt (i # is) s evicted thisRound =
     (if evicted < cnt then do {
        db \<leftarrow> currentDatabase s;
        sh \<leftarrow> shardAt db i;
        case iterate (ord i) sh of
          [] \<Rightarrow> evictShards ord cnt is s evicted thisRound
        | (key, _) # _ \<Rightarrow>
            (let s' = notify (OnKeyDeleted key) (putShard i (AList.delete key sh) s)
             in evictShards ord cnt is s' (evicted + 1) (thisRound + 1))
      } else Some (s, evicted, thisRound))"

lemma evictShards_counts:
  "evictShards ord cnt is s e r = Some (s', e', r') \<Longrightarrow> e' - e = r' - r \<and> r \<le> r'"
proof (induction "is" arbitrary: s e r)
  case (Cons i "is")
  show ?case
  proof (cases "e < cnt")
    case True
    then obtain db sh where "currentDatabase s = Some db" "shardAt db i = Some sh"
      using Cons.prems by (auto split: bind_splits)
    with Cons.prems True Cons.IH show ?thesis
      by (cases "iterate (ord i) sh") (fastforce simp: Let_def)+
  qed (use Cons.prems in auto)
qed simp

text \<open>The outer loop; \<open>ord\<close> also has the number of the round, as every iteration has its own order.\<close>

function evictRounds ::
  "(nat \<Rightarrow> nat \<Rightarrow> string order) \<Rightarrow> int \<Rightarrow> nat \<Rightarrow> memstore \<Rightarrow> int \<Rightarrow> (memstore \<times> int) option"
where
  "evictRounds ord cnt rnd s evicted =
     (if evicted < cnt then
        (case evictShards (ord rnd) cnt [0..<nat (shards s)] s evicted 0 of
           None \<Rightarrow> None
         | Some (s', evicted', thisRound) \<Rightarrow>
             (if thisRound = 0 then Some (s', evicted')
              else evictRounds ord cnt (rnd + 1) s' evicted'))
      else Some (s, evicted))"
  by pat_completeness auto
termination
  by (relation "measure (\<lambda>(ord, cnt, rnd, s, evicted). nat (cnt - evicted))")
    (auto dest!: evictShards_counts)

declare evictRounds.simps [simp del]

definition evictLRU :: "(nat \<Rightarrow> nat \<Rightarrow> string order) \<Rightarrow> int \<Rightarrow> memstore \<Rightarrow> (int \<times> memstore) option" where
  "evictLRU ord cnt s = (case evictRounds ord cnt 0 s 0 of
     None \<Rightarrow> None
   | Some (s', evicted) \<Rightarrow> Some (evicted, s'))"

definition EvictLRU :: "(nat \<Rightarrow> nat \<Rightarrow> string order) \<Rightarrow> int \<Rightarrow> memstore \<Rightarrow> (int \<times> memstore) option" where
  "EvictLRU ord cnt s = evictLRU ord cnt s"

section \<open>Writing\<close>

definition Set ::
  "hash \<Rightarrow> (nat \<Rightarrow> nat \<Rightarrow> string order) \<Rightarrow> int \<Rightarrow> string \<Rightarrow> bytes \<Rightarrow> int option \<Rightarrow> memstore \<Rightarrow> memstore option"
where
  "Set H ord now key value expiry s = do {
     db \<leftarrow> currentDatabase s;
     let memLimit = memoryLimit s;
     let i = keyHash H s key;
     sh \<leftarrow> shardAt db i;
     let newValue = \<lparr>valType = ValueTypeString, valData = StringValue value, valExpiry = expiry, valVersion = now\<rparr>;
     let s = putShard i (AList.update key newValue sh) s;
     let s = notify (OnKeySet key value) s;
     if memLimit > 0 then do {
       memUsage \<leftarrow> MemoryUsage s;
       if memUsage > memLimit then do {
         (evicted, s) \<leftarrow> evictLRU ord 1 s;
         Some s
       } else Some s
     } else Some s
   }"

text \<open>The keys of a command grouped by shard, as the maps built by \<^verbatim>\<open>Del\<close> and \<^verbatim>\<open>Exists\<close>.\<close>

definition keysByShard :: "hash \<Rightarrow> memstore \<Rightarrow> string list \<Rightarrow> (nat \<times> string list) list" where
  "keysByShard H s keys =
     map (\<lambda>i. (i, filter (\<lambda>k. keyHash H s k = i) keys)) (remdups (map (keyHash H s) keys))"

fun delKeys :: "nat \<Rightarrow> string list \<Rightarrow> memstore \<Rightarrow> int \<Rightarrow> (int \<times> memstore) option" where
  "delKeys i [] s deleted = Some (deleted, s)"
| "delKeys i (key # keys) s deleted = do {
     db \<leftarrow> currentDatabase s;
     sh \<leftarrow> shardAt db i;
     (case map_of sh key of
        None \<Rightarrow> delKeys i keys s deleted
      | Some _ \<Rightarrow>
          delKeys i keys (notify (OnKeyDeleted key) (putShard i (AList.delete key sh) s)) (deleted + 1))
   }"

fun delShards :: "(nat \<times> string list) list \<Rightarrow> memstore \<Rightarrow> int \<Rightarrow> (int \<times> memstore) option" where
  "delShards [] s deleted = Some (deleted, s)"
| "delShards ((i, keys) # groups) s deleted = do {
     (deleted, s) \<leftarrow> delKeys i keys s deleted;
     delShards groups s deleted
   }"

definition Del ::
  "hash \<Rightarrow> (nat \<times> string list) order \<Rightarrow> string list \<Rightarrow> memstore \<Rightarrow> (int \<times> memstore) option"
where
  "Del H ord keys s = do {
     currentDatabase s;
     delShards (arrange ord (keysByShard H s keys)) s 0
   }"

fun existShards :: "int \<Rightarrow> (nat \<times> string list) list \<Rightarrow> shardedDatabase \<Rightarrow> int \<Rightarrow> int option" where
  "existShards now [] db cnt = Some cnt"
| "existShards now ((i, keys) # groups) db cnt = do {
     sh \<leftarrow> shardAt db i;
     existShards now groups db
       (cnt + int (length (filter (\<lambda>key. case map_of sh key of None \<Rightarrow> False | Some v \<Rightarrow> \<not> IsExpired now v) keys)))
   }"

definition Exists :: "hash \<Rightarrow> (nat \<times> string list) order \<Rightarrow> int \<Rightarrow> string list \<Rightarrow> memstore \<Rightarrow> int option" where
  "Exists H ord now keys s = do {
     db \<leftarrow> currentDatabase s;
     existShards now (arrange ord (keysByShard H s keys)) db 0
   }"

definition Expire :: "hash \<Rightarrow> int \<Rightarrow> string \<Rightarrow> int \<Rightarrow> memstore \<Rightarrow> (bool \<times> memstore) option" where
  "Expire H now key expiry s = do {
     db \<leftarrow> currentDatabase s;
     let i = keyHash H s key;
     sh \<leftarrow> shardAt db i;
     case map_of sh key of
       None \<Rightarrow> Some (False, s)
     | Some value \<Rightarrow>
         (if IsExpired now value then Some (False, s)
          else Some (True, putShard i (AList.update key (value\<lparr>valExpiry := Some expiry\<rparr>) sh) s))
   }"

section \<open>Expiry\<close>

definition Millisecond :: int where "Millisecond = 1000000"

definition Second :: int where "Second = 1000 * Millisecond"

text \<open>\<^verbatim>\<open>time.Until\<close>, a 64-bit number of nanoseconds that saturates.\<close>

definition Until :: "int \<Rightarrow> int \<Rightarrow> int" where
  "Until now t = max int64_min (min int64_max (t - now))"

definition ttlIn :: "int \<Rightarrow> hash \<Rightarrow> int \<Rightarrow> string \<Rightarrow> memstore \<Rightarrow> int option" where
  "ttlIn unit H now key s = do {
     db \<leftarrow> currentDatabase s;
     sh \<leftarrow> shardAt db (keyHash H s key);
     case map_of sh key of
       None \<Rightarrow> Some (-2 * unit)
     | Some value \<Rightarrow>
         (if IsExpired now value then Some (-2 * unit)
          else case valExpiry value of
              None \<Rightarrow> Some (-1 * unit)
            | Some expiry \<Rightarrow> Some (Until now expiry))
   }"

text \<open>\<^verbatim>\<open>TTL\<close> and \<^verbatim>\<open>PTTL\<close> differ only in the unit of their markers.\<close>

definition TTL :: "hash \<Rightarrow> int \<Rightarrow> string \<Rightarrow> memstore \<Rightarrow> int option" where
  "TTL = ttlIn Second"

definition PTTL :: "hash \<Rightarrow> int \<Rightarrow> string \<Rightarrow> memstore \<Rightarrow> int option" where
  "PTTL = ttlIn Millisecond"

section \<open>Keys\<close>

text \<open>What an iteration over shard \<open>i\<close> puts into the result of \<^verbatim>\<open>Keys\<close>.\<close>

definition shardKeys :: "MatchingConfig \<Rightarrow> int \<Rightarrow> string \<Rightarrow> string order \<Rightarrow> shard \<Rightarrow> string list" where
  "shardKeys cfg now pat ord sh =
     (if pat = [] \<or> pat = ''*'' then
        [key. (key, value) \<leftarrow> iterate ord sh, \<not> IsExpired now value]
      else [key. (key, value) \<leftarrow> iterate ord sh, \<not> IsExpired now value \<and> matchPattern cfg key pat])"

definition Keys ::
  "MatchingConfig \<Rightarrow> (nat \<Rightarrow> string order) \<Rightarrow> int \<Rightarrow> string \<Rightarrow> memstore \<Rightarrow> string list option"
where
  "Keys cfg ord now pat s = do {
     db \<leftarrow> currentDatabase s;
     shs \<leftarrow> allShards s db;
     Some (concat (map (\<lambda>(i, sh). shardKeys cfg now pat (ord i) sh) (enumerate 0 shs)))
   }"

definition KeyCount :: "memstore \<Rightarrow> int option" where
  "KeyCount s = do {
     db \<leftarrow> currentDatabase s;
     shs \<leftarrow> allShards s db;
     Some (sum_list (map (\<lambda>sh. int (length sh)) shs))
   }"

definition FlushAll :: "memstore \<Rightarrow> memstore option" where
  "FlushAll s =
     (if databases s = [] then Some s
      else do {
        fresh \<leftarrow> newShardedDatabase s;
        Some (s\<lparr>databases := map (\<lambda>(d, _). (d, fresh)) (databases s)\<rparr>)
      })"

definition Type :: "hash \<Rightarrow> int \<Rightarrow> string \<Rightarrow> memstore \<Rightarrow> ValueType option" where
  "Type H now key s = do {
     db \<leftarrow> currentDatabase s;
     sh \<leftarrow> shardAt db (keyHash H s key);
     case map_of sh key of
       None \<Rightarrow> Some ValueTypeString
     | Some value \<Rightarrow> Some (if IsExpired now value then ValueTypeString else valType value)
   }"

text \<open>\<open>Inl\<close> is the error "invalid database number", with the number.\<close>

definition SelectDB :: "int \<Rightarrow> memstore \<Rightarrow> ((int + unit) \<times> memstore) option" where
  "SelectDB d s =
     (if d < 0 \<or> d > 15 then Some (Inl d, s)
      else (case map_of (databases s) d of
          Some _ \<Rightarrow> Some (Inr (), s\<lparr>currentDB := d\<rparr>)
        | None \<Rightarrow> do {
            fresh \<leftarrow> newShardedDatabase s;
            Some (Inr (), s\<lparr>databases := AList.update d fresh (databases s), currentDB := d\<rparr>)
          }))"

definition CurrentDB :: "memstore \<Rightarrow> int" where
  "CurrentDB s = currentDB s"

section \<open>Scan\<close>

text \<open>
  The loop of \<^verbatim>\<open>Scan\<close> inside one shard. \<open>Inl\<close> is the early return with the next cursor and the keys
  (kept in order), \<open>Inr\<close> the values of \<open>i\<close> and \<open>keys\<close> at the end of the shard.
\<close>

fun scanShard ::
  "MatchingConfig \<Rightarrow> int \<Rightarrow> int \<Rightarrow> string \<Rightarrow> int \<Rightarrow> shard \<Rightarrow> int \<Rightarrow> string list
     \<Rightarrow> (int \<times> string list) + (int \<times> string list)"
where
  "scanShard cfg now cursor pat cnt [] i keys = Inr (i, keys)"
| "scanShard cfg now cursor pat cnt ((key, value) # entries) i keys =
     (if i < cursor then scanShard cfg now cursor pat cnt entries (i + 1) keys
      else if IsExpired now value then scanShard cfg now cursor pat cnt entries i keys
      else if pat \<noteq> [] \<and> \<not> matchPattern cfg key pat then scanShard cfg now cursor pat cnt entries i keys
      else let keys = keys @ [key] in
        if int (length keys) \<ge> cnt then Inl (i + 1, keys)
        else scanShard cfg now cursor pat cnt entries (i + 1) keys)"

fun scanShards ::
  "MatchingConfig \<Rightarrow> int \<Rightarrow> int \<Rightarrow> string \<Rightarrow> int \<Rightarrow> shard list \<Rightarrow> int \<Rightarrow> string list \<Rightarrow> int \<times> string list"
where
  "scanShards cfg now cursor pat cnt [] i keys = (0, keys)"
| "scanShards cfg now cursor pat cnt (entries # shs) i keys =
     (case scanShard cfg now cursor pat cnt entries i keys of
        Inl result \<Rightarrow> result
      | Inr (i, keys) \<Rightarrow> scanShards cfg now cursor pat cnt shs i keys)"

definition Scan ::
  "MatchingConfig \<Rightarrow> (nat \<Rightarrow> string order) \<Rightarrow> int \<Rightarrow> int \<Rightarrow> string \<Rightarrow> int \<Rightarrow> memstore \<Rightarrow> (int \<times> string list) option"
where
  "Scan cfg ord now cursor pat cnt s = do {
     db \<leftarrow> currentDatabase s;
     makeSlice 16 cnt;
     shs \<leftarrow> allShards s db;
     Some (scanShards cfg now cursor pat cnt (map (\<lambda>(i, sh). iterate (ord i) sh) (enumerate 0 shs)) 0 [])
   }"

section \<open>Administration\<close>

record storeInfo =
  infoKeys :: int
  infoMemoryUsage :: int
  infoMemoryLimit :: int
  infoCurrentDB :: int
  infoDatabases :: nat
  infoShards :: int

definition Info :: "memstore \<Rightarrow> storeInfo option" where
  "Info s = do {
     keys \<leftarrow> KeyCount s;
     usage \<leftarrow> MemoryUsage s;
     Some \<lparr>infoKeys = keys, infoMemoryUsage = usage, infoMemoryLimit = memoryLimit s,
       infoCurrentDB = currentDB s, infoDatabases = length (databases s), infoShards = shards s\<rparr>
   }"

text \<open>\<^verbatim>\<open>close\<close> of a closed channel panics.\<close>

definition Close :: "memstore \<Rightarrow> memstore option" where
  "Close s = (if closed s then None else Some (s\<lparr>closed := True\<rparr>))"

definition SetMemoryLimit :: "int \<Rightarrow> memstore \<Rightarrow> memstore" where
  "SetMemoryLimit limit s = s\<lparr>memoryLimit := limit\<rparr>"

definition GetMemoryLimit :: "memstore \<Rightarrow> int" where
  "GetMemoryLimit s = memoryLimit s"

definition AddObserver :: "nat \<Rightarrow> memstore \<Rightarrow> memstore" where
  "AddObserver ob s = s\<lparr>observers := observers s @ [ob]\<rparr>"

definition SetCleanupConfig :: "CleanupConfig \<Rightarrow> memstore \<Rightarrow> memstore" where
  "SetCleanupConfig config s = s\<lparr>cleanupConfig := config\<rparr>"

definition GetCleanupConfig :: "memstore \<Rightarrow> CleanupConfig" where
  "GetCleanupConfig s = cleanupConfig s"

end
