(* ===== verification/Store_Cleanup.thy ===== *)
theory Store_Cleanup
  imports Store_Ops
begin

text \<open>
  The background removal of expired keys (\<^verbatim>\<open>performCleanup\<close> and what it calls in
  \<^verbatim>\<open>src/storage/memory.go\<close>). Map orders and random numbers are arguments: \<open>dbord\<close> orders the databases,
  \<open>ord d i n\<close> and \<open>rng d i n\<close> belong to round \<open>n\<close> on shard \<open>i\<close> of database \<open>d\<close>.
\<close>

text \<open>Reservoir sampling; \<open>rng i\<close> is the random number \<^verbatim>\<open>IntN(i + 1)\<close> is made from.\<close>

fun reservoir :: "(nat \<Rightarrow> nat) \<Rightarrow> nat \<Rightarrow> nat \<Rightarrow> string list \<Rightarrow> string list \<Rightarrow> string list" where
  "reservoir rng sampleSize i [] sampledKeys = sampledKeys"
| "reservoir rng sampleSize i (key # keys) sampledKeys =
     reservoir rng sampleSize (i + 1) keys
       (if i < sampleSize then sampledKeys @ [key]
        else let j = rng i mod (i + 1) in if j < sampleSize then sampledKeys[j := key] else sampledKeys)"

definition sampleAndFindExpiredInShard ::
  "string order \<Rightarrow> (nat \<Rightarrow> nat) \<Rightarrow> int \<Rightarrow> int \<Rightarrow> shard \<Rightarrow> string list option"
where
  "sampleAndFindExpiredInShard ord rng now sampleSize sh =
     (if sh = [] then Some []
      else
        (let actual = (if int (length sh) < sampleSize then int (length sh) else sampleSize)
         in do {
           makeSlice 16 actual;
           let sampledKeys =
             (if int (length sh) \<le> actual then arrange ord (keysOf sh)
              else reservoir rng (nat actual) 0 (arrange ord (keysOf sh)) []);
           Some (filter (\<lambda>key. case map_of sh key of None \<Rightarrow> False | Some value \<Rightarrow> IsExpired now value) sampledKeys)
         }))"

fun deleteKeyBatchInShard :: "int \<Rightarrow> int \<Rightarrow> nat \<Rightarrow> string list \<Rightarrow> memstore \<Rightarrow> memstore option" where
  "deleteKeyBatchInShard now d i [] s = Some s"
| "deleteKeyBatchInShard now d i (key # keys) s = do {
     db \<leftarrow> map_of (databases s) d;
     sh \<leftarrow> shardAt db i;
     (case map_of sh key of
        None \<Rightarrow> deleteKeyBatchInShard now d i keys s
      | Some value \<Rightarrow>
          (if IsExpired now value
           then deleteKeyBatchInShard now d i keys
                  (notify (OnKeyExpired key) (putShardIn d i (AList.delete key sh) s))
           else deleteKeyBatchInShard now d i keys s))
   }"

text \<open>
  The batches from position \<open>pos\<close> on. A negative batch size makes the slice expression panic and a batch
  size of zero makes the loop run for ever; both are \<open>None\<close>.
\<close>

partial_function (option) deleteExpiredKeysInShardBatched ::
  "int \<Rightarrow> int \<Rightarrow> nat \<Rightarrow> string list \<Rightarrow> int \<Rightarrow> int \<Rightarrow> memstore \<Rightarrow> memstore option"
where
  "deleteExpiredKeysInShardBatched now d i expiredKeys batchSize pos s =
     (if pos < int (length expiredKeys) then
        (let stop = (if pos + batchSize > int (length expiredKeys) then int (length expiredKeys) else pos + batchSize)
         in if stop < pos then None
            else Option.bind
              (deleteKeyBatchInShard now d i (take (nat (stop - pos)) (drop (nat pos) expiredKeys)) s)
              (\<lambda>s'. deleteExpiredKeysInShardBatched now d i expiredKeys batchSize (pos + batchSize) s'))
      else Some s)"

text \<open>
  The rounds on one shard, \<open>n\<close> of them left. The share of expired keys is the quotient of two doubles.
\<close>

fun cleanupShard ::
  "(nat \<Rightarrow> string order) \<Rightarrow> (nat \<Rightarrow> nat \<Rightarrow> nat) \<Rightarrow> int \<Rightarrow> CleanupConfig \<Rightarrow> int \<Rightarrow> nat \<Rightarrow> nat \<Rightarrow> memstore \<Rightarrow> memstore option"
where
  "cleanupShard ord rng now config d i 0 s = Some s"
| "cleanupShard ord rng now config d i (Suc n) s = do {
     db \<leftarrow> map_of (databases s) d;
     sh \<leftarrow> shardAt db i;
     expiredKeys \<leftarrow> sampleAndFindExpiredInShard (ord n) (rng n) now (SampleSize config) sh;
     if expiredKeys = [] then Some s
     else do {
       s' \<leftarrow> deleteExpiredKeysInShardBatched now d i expiredKeys (BatchSize config) 0 s;
       if float64 (float64 (of_nat (length expiredKeys)) / float64 (of_int (SampleSize config))) < ExpiredThreshold config then Some s'
       else cleanupShard ord rng now config d i n s'
     }
   }"

fun cleanupShards ::
  "(nat \<Rightarrow> nat \<Rightarrow> string order) \<Rightarrow> (nat \<Rightarrow> nat \<Rightarrow> nat \<Rightarrow> nat) \<Rightarrow> int \<Rightarrow> CleanupConfig \<Rightarrow> int \<Rightarrow> nat list \<Rightarrow> memstore
     \<Rightarrow> memstore option"
where
  "cleanupShards ord rng now config d [] s = Some s"
| "cleanupShards ord rng now config d (i # is) s = do {
     s' \<leftarrow> cleanupShard (ord i) (rng i) now config d i (nat (MaxRounds config)) s;
     cleanupShards ord rng now config d is s'
   }"

definition cleanupDatabase ::
  "(nat \<Rightarrow> nat \<Rightarrow> string order) \<Rightarrow> (nat \<Rightarrow> nat \<Rightarrow> nat \<Rightarrow> nat) \<Rightarrow> int \<Rightarrow> CleanupConfig \<Rightarrow> int \<Rightarrow> memstore
     \<Rightarrow> memstore option"
where
  "cleanupDatabase ord rng now config d s = cleanupShards ord rng now config d [0..<nat (shards s)] s"

fun cleanupDatabases ::
  "(int \<Rightarrow> nat \<Rightarrow> nat \<Rightarrow> string order) \<Rightarrow> (int \<Rightarrow> nat \<Rightarrow> nat \<Rightarrow> nat \<Rightarrow> nat) \<Rightarrow> int \<Rightarrow> CleanupConfig \<Rightarrow> int list \<Rightarrow> memstore
     \<Rightarrow> memstore option"
where
  "cleanupDatabases ord rng now config [] s = Some s"
| "cleanupDatabases ord rng now config (d # ds) s = do {
     s' \<leftarrow> cleanupDatabase (ord d) (rng d) now config d s;
     cleanupDatabases ord rng now config ds s'
   }"

definition performCleanup ::
  "int order \<Rightarrow> (int \<Rightarrow> nat \<Rightarrow> nat \<Rightarrow> string order) \<Rightarrow> (int \<Rightarrow> nat \<Rightarrow> nat \<Rightarrow> nat \<Rightarrow> nat) \<Rightarrow> int \<Rightarrow> memstore \<Rightarrow> memstore option"
where
  "performCleanup dbord ord rng now s =
     cleanupDatabases ord rng now (GetCleanupConfig s) (arrange dbord (map fst (databases s))) s"

end
