(* ===== verification/Store_Invariant.thy ===== *)
theory Store_Invariant
  imports Store_Cleanup
begin

text \<open>
  The well-formedness invariant of the storage engine, the map of keys to values it stands for, and the
  laws of the two primitives every operation is made of: replacing a shard and telling the observers.
\<close>

section \<open>Invariant and abstraction\<close>

definition shard_ok :: "hash \<Rightarrow> memstore \<Rightarrow> nat \<Rightarrow> shard \<Rightarrow> bool" where
  "shard_ok H s i sh \<longleftrightarrow> distinct (keysOf sh) \<and> (\<forall>k \<in> set (keysOf sh). keyHash H s k = i)"

definition db_ok :: "hash \<Rightarrow> memstore \<Rightarrow> shardedDatabase \<Rightarrow> bool" where
  "db_ok H s db \<longleftrightarrow> length db = nat (shards s) \<and> (\<forall>i < length db. shard_ok H s i (db ! i))"

text \<open>
  The number of shards is a power of two the runtime can allocate, the mask belongs to it, every
  database has that many shards, every key is in the shard its hash selects and only once, and the
  current database exists.
\<close>

definition sizes_ok :: "memstore \<Rightarrow> bool" where
  "sizes_ok s \<longleftrightarrow> (\<exists>k \<le> 43. shards s = 2 ^ k \<and> shardMask s = mask k)"

definition store_inv :: "hash \<Rightarrow> memstore \<Rightarrow> bool" where
  "store_inv H s \<longleftrightarrow> sizes_ok s \<and> distinct (map fst (databases s)) \<and>
     currentDB s \<in> set (map fst (databases s)) \<and>
     (\<forall>(d, db) \<in> set (databases s). 0 \<le> d \<and> d \<le> 15 \<and> db_ok H s db)"

definition dbMap :: "shardedDatabase \<Rightarrow> string \<Rightarrow> svalue option" where
  "dbMap db = map_of (concat db)"

definition contents :: "memstore \<Rightarrow> int \<Rightarrow> string \<Rightarrow> svalue option" where
  "contents s d = (case map_of (databases s) d of None \<Rightarrow> Map.empty | Some db \<Rightarrow> dbMap db)"

text \<open>What a client can see at time \<open>now\<close>: the values that have not expired.\<close>

definition live :: "int \<Rightarrow> memstore \<Rightarrow> int \<Rightarrow> string \<Rightarrow> svalue option" where
  "live now s d k = (case contents s d k of None \<Rightarrow> None | Some v \<Rightarrow> if IsExpired now v then None else Some v)"

section \<open>The hash selects a shard\<close>

lemma keyHash_mod:
  assumes "sizes_ok s"
  shows "keyHash H s key = unat (H key) mod nat (shards s)"
proof -
  obtain k where "k \<le> 43" "shards s = 2 ^ k" "shardMask s = mask k"
    using assms by (auto simp: sizes_ok_def)
  then have "keyHash H s key = unat (take_bit k (H key))" by (simp add: keyHash_def take_bit_eq_mask)
  also have "\<dots> = take_bit k (unat (H key))" by (rule unsigned_take_bit_eq)
  also have "\<dots> = unat (H key) mod nat (shards s)"
    using \<open>shards s = 2 ^ k\<close> by (simp add: take_bit_eq_mod nat_power_eq)
  finally show ?thesis .
qed

lemma shards_pos: "sizes_ok s \<Longrightarrow> 0 < nat (shards s)"
  by (auto simp: sizes_ok_def)

lemma keyHash_less: "sizes_ok s \<Longrightarrow> keyHash H s key < nat (shards s)"
  using shards_pos [of s] by (simp only: keyHash_mod mod_less_divisor)

section \<open>Lookup in a database\<close>

lemma map_of_concat_one:
  "j < length db \<Longrightarrow> (\<And>i. i < length db \<Longrightarrow> i \<noteq> j \<Longrightarrow> k \<notin> set (keysOf (db ! i))) \<Longrightarrow>
     map_of (concat db) k = map_of (db ! j) k"
proof (induction db arbitrary: j)
  case (Cons sh db)
  show ?case
  proof (cases j)
    case 0
    have "k \<notin> fst ` set (concat db)"
    proof
      assume "k \<in> fst ` set (concat db)"
      then obtain i where "i < length db" "k \<in> fst ` set (db ! i)"
        by (metis (no_types, lifting) UN_E image_UN in_set_conv_nth set_concat)
      with Cons.prems(2) [of "Suc i"] 0 show False by (simp add: keysOf_def)
    qed
    then have "map_of (concat db) k = None" by (simp add: map_of_eq_None_iff)
    with 0 show ?thesis by (simp add: map_add_def split: option.split)
  next
    case (Suc j')
    have "map_of (concat db) k = map_of (db ! j') k"
    proof (rule Cons.IH)
      show "j' < length db" using Cons.prems(1) Suc by simp
      show "k \<notin> set (keysOf (db ! i))" if "i < length db" "i \<noteq> j'" for i
        using Cons.prems(2) [of "Suc i"] that Suc by simp
    qed
    moreover have "map_of sh k = None"
      using Cons.prems(2) [of 0] Suc by (simp add: map_of_eq_None_iff keysOf_def)
    ultimately show ?thesis using Suc by (simp add: map_add_def split: option.split)
  qed
qed simp

lemma dbMap_shard:
  assumes "sizes_ok s" and "db_ok H s db"
  shows "dbMap db k = map_of (db ! keyHash H s k) k"
  unfolding dbMap_def
proof (rule map_of_concat_one)
  show "keyHash H s k < length db" using assms keyHash_less by (simp add: db_ok_def)
  show "k \<notin> set (keysOf (db ! i))" if "i < length db" "i \<noteq> keyHash H s k" for i
    using assms(2) that by (auto simp: db_ok_def shard_ok_def)
qed

lemma store_inv_db:
  assumes "store_inv H s" and "map_of (databases s) d = Some db"
  shows "db_ok H s db" and "0 \<le> d" and "d \<le> 15"
  using assms map_of_SomeD [OF assms(2)] by (auto simp: store_inv_def)

lemma store_inv_current:
  assumes "store_inv H s"
  obtains db where "currentDatabase s = Some db" and "db_ok H s db" and "contents s (currentDB s) = dbMap db"
proof -
  have "map_of (databases s) (currentDB s) \<noteq> None"
    using assms by (auto simp: store_inv_def map_of_eq_None_iff)
  then obtain db where db: "map_of (databases s) (currentDB s) = Some db" by blast
  then have "db_ok H s db" by (rule store_inv_db [OF assms])
  with db that show ?thesis by (simp add: currentDatabase_def contents_def)
qed

lemma shardAt_ok:
  assumes "store_inv H s" and "db_ok H s db"
  shows "shardAt db (keyHash H s key) = Some (db ! keyHash H s key)"
    and "map_of (db ! keyHash H s key) key = dbMap db key"
  using assms keyHash_less [of s H key] dbMap_shard [of s H db key]
  by (auto simp: store_inv_def shardAt_def db_ok_def)

text \<open>The access path of every operation on one key, at once.\<close>

lemma access_key:
  assumes "store_inv H s"
  obtains db where "currentDatabase s = Some db" and "db_ok H s db"
    and "shardAt db (keyHash H s key) = Some (db ! keyHash H s key)"
    and "map_of (db ! keyHash H s key) key = contents s (currentDB s) key"
  using store_inv_current [OF assms] shardAt_ok [OF assms] by metis

section \<open>Replacing a shard\<close>

lemma notify_simps [simp]:
  "databases (notify e s) = databases s" "currentDB (notify e s) = currentDB s"
  "shards (notify e s) = shards s" "shardMask (notify e s) = shardMask s"
  "memoryLimit (notify e s) = memoryLimit s" "observers (notify e s) = observers s"
  "cleanupConfig (notify e s) = cleanupConfig s" "closed (notify e s) = closed s"
  by (simp_all add: notify_def)

lemma putShardIn_simps [simp]:
  "currentDB (putShardIn d i sh s) = currentDB s"
  "shards (putShardIn d i sh s) = shards s" "shardMask (putShardIn d i sh s) = shardMask s"
  "memoryLimit (putShardIn d i sh s) = memoryLimit s" "observers (putShardIn d i sh s) = observers s"
  "cleanupConfig (putShardIn d i sh s) = cleanupConfig s" "closed (putShardIn d i sh s) = closed s"
  "notified (putShardIn d i sh s) = notified s"
  "map fst (databases (putShardIn d i sh s)) = map fst (databases s)"
  by (simp_all add: putShardIn_def comp_def split_def)

lemma map_of_putShardIn:
  "map_of (databases (putShardIn d i sh s)) n =
     (if n = d then map_option (\<lambda>db. db[i := sh]) (map_of (databases s) n) else map_of (databases s) n)"
proof -
  have "map_of (map (\<lambda>(n, db). (n, if n = d then db[i := sh] else db)) dbs) n =
      (if n = d then map_option (\<lambda>db. db[i := sh]) (map_of dbs n) else map_of dbs n)" for dbs
    by (induction dbs) auto
  then show ?thesis by (simp add: putShardIn_def)
qed

lemma keyHash_cong [simp]:
  "keyHash H (notify e s) = keyHash H s" "keyHash H (putShardIn d i sh s) = keyHash H s"
  by (simp_all add: keyHash_def fun_eq_iff)

lemma contents_notify [simp]: "contents (notify e s) = contents s"
  by (simp add: contents_def fun_eq_iff)

lemma db_ok_cong:
  assumes "shards s' = shards s" and "shardMask s' = shardMask s"
  shows "db_ok H s' db = db_ok H s db"
  using assms by (simp add: db_ok_def shard_ok_def keyHash_def)

lemma db_ok_update: "db_ok H s db \<Longrightarrow> shard_ok H s i sh \<Longrightarrow> db_ok H s (db[i := sh])"
  unfolding db_ok_def by (metis length_list_update nth_list_update_eq nth_list_update_neq)

lemma store_inv_cong:
  assumes "databases s' = databases s" and "currentDB s' = currentDB s"
    and "shards s' = shards s" and "shardMask s' = shardMask s"
  shows "store_inv H s' = store_inv H s"
  using assms db_ok_cong [OF assms(3,4), of H] by (simp add: store_inv_def sizes_ok_def split_def)

lemma store_inv_notify [simp]: "store_inv H (notify e s) = store_inv H s"
  by (rule store_inv_cong) simp_all

lemma store_inv_putShardIn:
  assumes inv: "store_inv H s" and sh: "shard_ok H s i sh"
  shows "store_inv H (putShardIn d i sh s)"
proof -
  have "0 \<le> n \<and> n \<le> 15 \<and> db_ok H s db" if mem: "(n, db) \<in> set (databases (putShardIn d i sh s))" for n db
  proof -
    obtain db0 where db0: "(n, db0) \<in> set (databases s)" "db = (if n = d then db0[i := sh] else db0)"
      using mem unfolding putShardIn_def by (auto simp del: if_split)
    with inv have "0 \<le> n" "n \<le> 15" "db_ok H s db0" by (auto simp: store_inv_def)
    with db0 sh show ?thesis by (simp add: db_ok_update)
  qed
  then have all: "\<forall>(n, db) \<in> set (databases (putShardIn d i sh s)).
      0 \<le> n \<and> n \<le> 15 \<and> db_ok H (putShardIn d i sh s) db"
    by (auto simp: db_ok_cong [of "putShardIn d i sh s" s])
  show ?thesis
    using inv all putShardIn_simps(9) [of d i sh s]
    unfolding store_inv_def sizes_ok_def by simp
qed

text \<open>The keys of shard \<open>i\<close> of database \<open>d\<close> are taken from the new shard, all else stays.\<close>

lemma contents_putShardIn:
  assumes inv: "store_inv H s" and sh: "shard_ok H s i sh"
    and db: "map_of (databases s) d = Some db" and i: "i < length db"
  shows "contents (putShardIn d i sh s) n k =
    (if n = d \<and> keyHash H s k = i then map_of sh k else contents s n k)"
proof (cases "n = d")
  case True
  note db_ok = store_inv_db(1) [OF inv db]
  have sizes: "sizes_ok s" using inv by (simp add: store_inv_def)
  have "db_ok H s (db[i := sh])" by (rule db_ok_update [OF db_ok sh])
  then have "dbMap (db[i := sh]) k = map_of (db[i := sh] ! keyHash H s k) k"
    by (rule dbMap_shard [OF sizes])
  with True db i dbMap_shard [OF sizes db_ok, of k] show ?thesis
    by (simp add: contents_def map_of_putShardIn nth_list_update)
qed (simp add: contents_def map_of_putShardIn)

lemma shard_ok_nth: "db_ok H s db \<Longrightarrow> i < length db \<Longrightarrow> shard_ok H s i (db ! i)"
  by (simp add: db_ok_def)

lemma keysOf_update: "set (keysOf (AList.update k v sh)) = insert k (set (keysOf sh))"
  by (auto simp: keysOf_def dom_update)

lemma shard_ok_update: "shard_ok H s i sh \<Longrightarrow> keyHash H s k = i \<Longrightarrow> shard_ok H s i (AList.update k v sh)"
  using distinct_update [of sh k v] by (auto simp: shard_ok_def keysOf_update) (simp add: keysOf_def)

lemma keysOf_delete: "set (keysOf (AList.delete k sh)) = set (keysOf sh) - {k}"
  by (simp add: keysOf_def delete_keys)

lemma shard_ok_delete: "shard_ok H s i sh \<Longrightarrow> shard_ok H s i (AList.delete k sh)"
  using distinct_delete [of sh k] by (auto simp: shard_ok_def keysOf_delete) (simp add: keysOf_def)

text \<open>Storing and deleting one key of database \<open>d\<close>, in terms of the abstract map.\<close>

definition upd :: "int \<Rightarrow> string \<Rightarrow> svalue option \<Rightarrow> (int \<Rightarrow> string \<Rightarrow> svalue option) \<Rightarrow> int \<Rightarrow> string \<Rightarrow> svalue option" where
  "upd d k v m = m(d := (m d)(k := v))"

lemma upd_apply: "upd d k v m n j = (if n = d \<and> j = k then v else m n j)"
  by (simp add: upd_def)

lemma store_key:
  assumes inv: "store_inv H s" and db: "map_of (databases s) d = Some db" and i: "i = keyHash H s k"
  shows "store_inv H (putShardIn d i (AList.update k v (db ! i)) s)"
    and "contents (putShardIn d i (AList.update k v (db ! i)) s) = upd d k (Some v) (contents s)"
    and "store_inv H (putShardIn d i (AList.delete k (db ! i)) s)"
    and "contents (putShardIn d i (AList.delete k (db ! i)) s) = upd d k None (contents s)"
proof -
  note ok = store_inv_db(1) [OF inv db]
  have sizes: "sizes_ok s" using inv by (simp add: store_inv_def)
  have len: "i < length db" using keyHash_less [OF sizes] ok i by (simp add: db_ok_def)
  note sh = shard_ok_nth [OF ok len]
  note up = shard_ok_update [OF sh i [symmetric], of v] and del = shard_ok_delete [OF sh, of k]
  show "store_inv H (putShardIn d i (AList.update k v (db ! i)) s)"
    and "store_inv H (putShardIn d i (AList.delete k (db ! i)) s)"
    using store_inv_putShardIn [OF inv] up del by auto
  have old: "map_of (db ! i) j = contents s d j" if "keyHash H s j = i" for j
    using dbMap_shard [OF sizes ok, of j] that db by (simp add: contents_def)
  show "contents (putShardIn d i (AList.update k v (db ! i)) s) = upd d k (Some v) (contents s)"
    unfolding fun_eq_iff contents_putShardIn [OF inv up db len] upd_apply using old i by (auto simp: update_conv')
  show "contents (putShardIn d i (AList.delete k (db ! i)) s) = upd d k None (contents s)"
    unfolding fun_eq_iff contents_putShardIn [OF inv del db len] upd_apply using old i by (auto simp: delete_conv')
qed

end
