(* ===== verification/Store_Correct.thy ===== *)
theory Store_Correct
  imports Store_Invariant
begin

text \<open>
  Correctness of the storage operations. Each operation is described by what it returns and by the map
  \<open>contents\<close> afterwards; the invariant makes every one of them return (no panic).
\<close>

text \<open>What no data operation changes: the configuration and the set of databases.\<close>

definition same_setup :: "memstore \<Rightarrow> memstore \<Rightarrow> bool" where
  "same_setup s s' \<longleftrightarrow> currentDB s' = currentDB s \<and> shards s' = shards s \<and> shardMask s' = shardMask s \<and>
     memoryLimit s' = memoryLimit s \<and> observers s' = observers s \<and> cleanupConfig s' = cleanupConfig s \<and>
     closed s' = closed s \<and> map fst (databases s') = map fst (databases s)"

lemma same_setup_refl [simp]: "same_setup s s"
  by (simp add: same_setup_def)

lemma same_setup_trans: "same_setup s s' \<Longrightarrow> same_setup s' s'' \<Longrightarrow> same_setup s s''"
  by (simp add: same_setup_def)

lemma same_setup_step [simp]:
  "same_setup s (notify e (putShardIn d i sh s))" "same_setup s (putShardIn d i sh s)" "same_setup s (notify e s)"
  by (simp_all add: same_setup_def del: map_map)

lemma same_setup_keyHash: "same_setup s s' \<Longrightarrow> keyHash H s' = keyHash H s"
  by (simp add: same_setup_def keyHash_def fun_eq_iff)

lemma live_def2: "live now s d k = Option.bind (contents s d k) (\<lambda>v. if IsExpired now v then None else Some v)"
  by (simp add: live_def split: option.split)

lemma live_contents: "contents s' = contents s \<Longrightarrow> live now s' = live now s"
  by (simp add: live_def fun_eq_iff)

section \<open>One key\<close>

lemma deleteExpiredKey_spec:
  assumes "store_inv H s"
  shows "\<exists>s'. deleteExpiredKey H now key s = Some s' \<and> store_inv H s' \<and> same_setup s s' \<and>
    live now s' = live now s \<and> contents s' \<in> {contents s, upd (currentDB s) key None (contents s)}"
  using assms
proof (cases rule: access_key [where key = key])
  case (1 db)
  let ?i = "keyHash H s key"
  have db: "map_of (databases s) (currentDB s) = Some db" using 1 by (simp add: currentDatabase_def)
  note del = store_key(3,4) [OF assms db refl, of key]
  show ?thesis
  proof (cases "contents s (currentDB s) key")
    case None
    with 1 assms show ?thesis by (simp add: deleteExpiredKey_def)
  next
    case (Some v)
    show ?thesis
    proof (cases "IsExpired now v")
      case True
      let ?s' = "notify (OnKeyExpired key) (putShardIn (currentDB s) ?i (AList.delete key (db ! ?i)) s)"
      have "deleteExpiredKey H now key s = Some ?s'"
        using 1 Some True by (simp add: deleteExpiredKey_def putShard_def Let_def)
      moreover have "live now ?s' = live now s"
        using Some True del(2) by (auto simp: live_def upd_apply fun_eq_iff)
      ultimately show ?thesis using del by auto
    next
      case False
      with 1 Some assms show ?thesis by (simp add: deleteExpiredKey_def)
    qed
  qed
qed

text \<open>What \<^verbatim>\<open>Get\<close> hands out of a live value.\<close>

definition stringData :: "svalue \<Rightarrow> bytes option" where
  "stringData v = (if valType v = ValueTypeString
     then case valData v of StringValue data \<Rightarrow> Some data | _ \<Rightarrow> None else None)"

lemma Get_spec:
  assumes "store_inv H s"
  shows "\<exists>s'. Get H now key s = Some (Option.bind (live now s (currentDB s) key) stringData, s') \<and>
    store_inv H s' \<and> same_setup s s' \<and> live now s' = live now s"
  using assms
proof (cases rule: access_key [where key = key])
  case (1 db)
  show ?thesis
  proof (cases "contents s (currentDB s) key")
    case None
    with 1 assms show ?thesis by (auto simp: Get_def live_def)
  next
    case (Some v)
    with 1 assms deleteExpiredKey_spec [OF assms, of now key] show ?thesis
      by (auto simp: Get_def live_def stringData_def Let_def fun_eq_iff)
  qed
qed

text \<open>\<^verbatim>\<open>Set\<close> before the memory limit is looked at.\<close>

definition stored :: "int \<Rightarrow> bytes \<Rightarrow> int option \<Rightarrow> svalue" where
  "stored now value expiry =
     \<lparr>valType = ValueTypeString, valData = StringValue value, valExpiry = expiry, valVersion = now\<rparr>"

definition setStep :: "hash \<Rightarrow> int \<Rightarrow> string \<Rightarrow> bytes \<Rightarrow> int option \<Rightarrow> memstore \<Rightarrow> memstore" where
  "setStep H now key value expiry s =
     (let db = the (currentDatabase s); i = keyHash H s key
      in notify (OnKeySet key value)
           (putShardIn (currentDB s) i (AList.update key (stored now value expiry) (db ! i)) s))"

lemma setStep_spec:
  assumes "store_inv H s"
  shows "store_inv H (setStep H now key value expiry s)"
    and "same_setup s (setStep H now key value expiry s)"
    and "contents (setStep H now key value expiry s) =
      upd (currentDB s) key (Some (stored now value expiry)) (contents s)"
proof -
  obtain db where db: "currentDatabase s = Some db" using assms by (rule store_inv_current)
  then have "map_of (databases s) (currentDB s) = Some db" by (simp add: currentDatabase_def)
  from store_key(1,2) [OF assms this refl, of key] db show
    "store_inv H (setStep H now key value expiry s)"
    "same_setup s (setStep H now key value expiry s)"
    "contents (setStep H now key value expiry s) =
      upd (currentDB s) key (Some (stored now value expiry)) (contents s)"
    by (simp_all add: setStep_def Let_def)
qed

lemma Set_eq:
  assumes "store_inv H s"
  shows "Set H ord now key value expiry s =
    (let s1 = setStep H now key value expiry s
     in if memoryLimit s > 0 then do {
          memUsage \<leftarrow> MemoryUsage s1;
          if memUsage > memoryLimit s then do { (evicted, s) \<leftarrow> evictLRU ord 1 s1; Some s } else Some s1
        } else Some s1)"
  using assms
proof (cases rule: access_key [where key = key])
  case (1 db)
  then show ?thesis by (simp add: Set_def setStep_def Let_def putShard_def stored_def)
qed

lemma Set_unlimited:
  assumes "store_inv H s" and "memoryLimit s \<le> 0"
  shows "Set H ord now key value expiry s = Some (setStep H now key value expiry s)"
  using assms by (simp add: Set_eq Let_def)

lemma Expire_spec:
  assumes "store_inv H s"
  shows "\<exists>s'. Expire H now key expiry s = Some (live now s (currentDB s) key \<noteq> None, s') \<and>
    store_inv H s' \<and> same_setup s s' \<and>
    contents s' = (case live now s (currentDB s) key of
        None \<Rightarrow> contents s
      | Some v \<Rightarrow> upd (currentDB s) key (Some (v\<lparr>valExpiry := Some expiry\<rparr>)) (contents s))"
  using assms
proof (cases rule: access_key [where key = key])
  case (1 db)
  have db: "map_of (databases s) (currentDB s) = Some db" using 1 by (simp add: currentDatabase_def)
  note up = store_key(1,2) [OF assms db refl, of key]
  show ?thesis
  proof (cases "contents s (currentDB s) key")
    case None
    with 1 assms show ?thesis by (simp add: Expire_def live_def)
  next
    case (Some v)
    with 1 assms up [of "v\<lparr>valExpiry := Some expiry\<rparr>"] show ?thesis
      by (cases "IsExpired now v") (simp_all add: Expire_def live_def putShard_def Let_def)
  qed
qed

lemma ttlIn_spec:
  assumes "store_inv H s"
  shows "ttlIn unit H now key s = Some (case live now s (currentDB s) key of
      None \<Rightarrow> - 2 * unit
    | Some v \<Rightarrow> (case valExpiry v of None \<Rightarrow> - unit | Some e \<Rightarrow> Until now e))"
  using assms
proof (cases rule: access_key [where key = key])
  case (1 db)
  then show ?thesis
    by (cases "contents s (currentDB s) key") (auto simp: ttlIn_def live_def split: option.split)
qed

lemma Type_spec:
  assumes "store_inv H s"
  shows "Type H now key s = Some (case live now s (currentDB s) key of
      None \<Rightarrow> ValueTypeString | Some v \<Rightarrow> valType v)"
  using assms
proof (cases rule: access_key [where key = key])
  case (1 db)
  then show ?thesis
    by (cases "contents s (currentDB s) key") (auto simp: Type_def live_def)
qed

section \<open>Several keys\<close>

text \<open>The contents without the keys \<open>K\<close> of database \<open>d\<close>.\<close>

definition without :: "int \<Rightarrow> string set \<Rightarrow> (int \<Rightarrow> string \<Rightarrow> svalue option) \<Rightarrow> int \<Rightarrow> string \<Rightarrow> svalue option" where
  "without d K m = m(d := (m d) |` (- K))"

lemma without_apply: "without d K m n k = (if n = d \<and> k \<in> K then None else m n k)"
  by (simp add: without_def restrict_map_def)

lemma without_empty [simp]: "without d {} m = m"
  by (simp add: without_apply fun_eq_iff)

lemma without_without: "without d K (without d L m) = without d (K \<union> L) m"
  by (auto simp: without_apply fun_eq_iff)

lemma upd_None: "upd d k None m = without d {k} m"
  by (auto simp: upd_apply without_apply fun_eq_iff)

lemma dom_without: "dom (without d K m d) = dom (m d) - K"
  by (auto simp: without_apply dom_def)

text \<open>Deleting a key of the current database, the step shared by \<^verbatim>\<open>Del\<close> and the eviction.\<close>

lemma delete_step:
  assumes inv: "store_inv H s" and db: "currentDatabase s = Some db" and i: "i = keyHash H s k"
  shows "store_inv H (notify e (putShard i (AList.delete k (db ! i)) s))"
    and "contents (notify e (putShard i (AList.delete k (db ! i)) s)) = without (currentDB s) {k} (contents s)"
    and "same_setup s (notify e (putShard i (AList.delete k (db ! i)) s))"
proof -
  have "map_of (databases s) (currentDB s) = Some db" using db by (simp add: currentDatabase_def)
  from store_key(3,4) [OF inv this i] show
    "store_inv H (notify e (putShard i (AList.delete k (db ! i)) s))"
    "contents (notify e (putShard i (AList.delete k (db ! i)) s)) = without (currentDB s) {k} (contents s)"
    "same_setup s (notify e (putShard i (AList.delete k (db ! i)) s))"
    by (simp_all add: putShard_def upd_None)
qed

lemma delKeys_spec:
  "store_inv H s \<Longrightarrow> (\<And>k. k \<in> set keys \<Longrightarrow> keyHash H s k = i) \<Longrightarrow>
     \<exists>s'. delKeys i keys s n =
         Some (n + int (card (set keys \<inter> dom (contents s (currentDB s)))), s') \<and>
       store_inv H s' \<and> same_setup s s' \<and> contents s' = without (currentDB s) (set keys) (contents s)"
proof (induction keys arbitrary: s n)
  case (Cons k keys)
  have i: "i = keyHash H s k" using Cons.prems(2) [of k] by simp
  from Cons.prems(1) show ?case
  proof (cases rule: access_key [where key = k])
    case (1 db)
    show ?thesis
    proof (cases "contents s (currentDB s) k")
      case None
      then have dom: "set (k # keys) \<inter> dom (contents s (currentDB s)) = set keys \<inter> dom (contents s (currentDB s))"
        by auto
      have out: "without (currentDB s) (set (k # keys)) (contents s) = without (currentDB s) (set keys) (contents s)"
        using None by (auto simp: without_apply fun_eq_iff)
      have "delKeys i (k # keys) s n = delKeys i keys s n" using 1 None i by simp
      with Cons.IH [OF Cons.prems(1), of n] Cons.prems(2) show ?thesis unfolding dom out by simp
    next
      case (Some v)
      define s1 where "s1 = notify (OnKeyDeleted k) (putShard i (AList.delete k (db ! i)) s)"
      note step = delete_step [OF Cons.prems(1) 1(1) i, of "OnKeyDeleted k", folded s1_def]
      have hash: "keyHash H s1 = keyHash H s" by (rule same_setup_keyHash [OF step(3)])
      have cur: "currentDB s1 = currentDB s" using step(3) by (simp add: same_setup_def)
      have "\<And>k. k \<in> set keys \<Longrightarrow> keyHash H s1 k = i" using Cons.prems(2) hash by simp
      from Cons.IH [OF step(1) this, of "n + 1"] obtain s' where s':
        "delKeys i keys s1 (n + 1) = Some (n + 1 + int (card (set keys \<inter> dom (contents s1 (currentDB s)))), s')"
        "store_inv H s'" "same_setup s1 s'" "contents s' = without (currentDB s) (set keys) (contents s1)"
        unfolding cur by blast
      have "set (k # keys) \<inter> dom (contents s (currentDB s)) =
          insert k (set keys \<inter> dom (contents s1 (currentDB s)))"
        using Some by (auto simp: step(2) dom_without)
      moreover have "k \<notin> set keys \<inter> dom (contents s1 (currentDB s))" by (simp add: step(2) dom_without)
      ultimately have card: "int (card (set (k # keys) \<inter> dom (contents s (currentDB s)))) =
          1 + int (card (set keys \<inter> dom (contents s1 (currentDB s))))" by simp
      have "delKeys i (k # keys) s n = delKeys i keys s1 (n + 1)" using 1 Some i by (simp add: s1_def)
      with s'(1) card have "delKeys i (k # keys) s n =
          Some (n + int (card (set (k # keys) \<inter> dom (contents s (currentDB s)))), s')" by simp
      moreover have "contents s' = without (currentDB s) (set (k # keys)) (contents s)"
        using s'(4) step(2) by (simp add: without_without)
      ultimately show ?thesis using s'(2) same_setup_trans [OF step(3) s'(3)] by blast
    qed
  qed
qed simp

lemma delShards_spec:
  "store_inv H s \<Longrightarrow> (\<And>i ks k. (i, ks) \<in> set groups \<Longrightarrow> k \<in> set ks \<Longrightarrow> keyHash H s k = i) \<Longrightarrow>
     distinct (map fst groups) \<Longrightarrow>
     \<exists>s'. delShards groups s n =
         Some (n + int (card ((\<Union>g \<in> set groups. set (snd g)) \<inter> dom (contents s (currentDB s)))), s') \<and>
       store_inv H s' \<and> same_setup s s' \<and>
       contents s' = without (currentDB s) (\<Union>g \<in> set groups. set (snd g)) (contents s)"
proof (induction groups arbitrary: s n)
  case (Cons g groups)
  obtain i ks where g: "g = (i, ks)" by (cases g)
  let ?c = "currentDB s" and ?U = "\<Union>g \<in> set groups. set (snd g)"
  obtain s1 where s1: "delKeys i ks s n = Some (n + int (card (set ks \<inter> dom (contents s ?c))), s1)"
    "store_inv H s1" "same_setup s s1" "contents s1 = without ?c (set ks) (contents s)"
    using delKeys_spec [OF Cons.prems(1), of ks i n] Cons.prems(2) g by auto
  have hash: "keyHash H s1 = keyHash H s" by (rule same_setup_keyHash [OF s1(3)])
  have cur: "currentDB s1 = ?c" using s1(3) by (simp add: same_setup_def)
  obtain s' where s': "delShards groups s1 (n + int (card (set ks \<inter> dom (contents s ?c)))) =
      Some (n + int (card (set ks \<inter> dom (contents s ?c))) + int (card (?U \<inter> dom (contents s1 ?c))), s')"
    "store_inv H s'" "same_setup s1 s'" "contents s' = without ?c ?U (contents s1)"
    using Cons.IH [OF s1(2), of "n + int (card (set ks \<inter> dom (contents s ?c)))"] Cons.prems(2,3) hash cur by auto
  have fin: "finite (set ks \<inter> dom (contents s ?c))" "finite (?U \<inter> dom (contents s1 ?c))" by auto
  have "(\<Union>g \<in> set (g # groups). set (snd g)) \<inter> dom (contents s ?c) =
      (set ks \<inter> dom (contents s ?c)) \<union> (?U \<inter> dom (contents s1 ?c))"
    using g s1(4) by (auto simp: dom_without)
  moreover have "(set ks \<inter> dom (contents s ?c)) \<inter> (?U \<inter> dom (contents s1 ?c)) = {}"
    using s1(4) by (auto simp: dom_without)
  ultimately have "card ((\<Union>g \<in> set (g # groups). set (snd g)) \<inter> dom (contents s ?c)) =
      card (set ks \<inter> dom (contents s ?c)) + card (?U \<inter> dom (contents s1 ?c))"
    by (simp only: card_Un_disjoint [OF fin])
  moreover have "contents s' = without ?c (\<Union>g \<in> set (g # groups). set (snd g)) (contents s)"
    using s'(4) s1(4) g by (simp add: without_without Un_commute)
  ultimately show ?case using g s1(1) s' same_setup_trans [OF s1(3) s'(3)] by (auto simp: algebra_simps)
qed simp

lemma keysByShard_groups:
  "(i, ks) \<in> set (keysByShard H s keys) \<Longrightarrow> k \<in> set ks \<Longrightarrow> keyHash H s k = i"
  "distinct (map fst (keysByShard H s keys))"
  "(\<Union>g \<in> set (keysByShard H s keys). set (snd g)) = set keys"
  by (auto simp: keysByShard_def comp_def)

lemma Del_spec:
  assumes "store_inv H s"
  shows "\<exists>s'. Del H ord keys s = Some (int (card (set keys \<inter> dom (contents s (currentDB s)))), s') \<and>
    store_inv H s' \<and> same_setup s s' \<and> contents s' = without (currentDB s) (set keys) (contents s)"
proof -
  let ?g = "arrange ord (keysByShard H s keys)"
  have "mset (map fst ?g) = mset (map fst (keysByShard H s keys))" by simp
  then have "distinct (map fst ?g)"
    using keysByShard_groups(2) [of H s keys] mset_eq_imp_distinct_iff by blast
  with delShards_spec [OF assms, of ?g 0] obtain s' where
    "delShards ?g s 0 = Some (int (card (set keys \<inter> dom (contents s (currentDB s)))), s')"
    "store_inv H s'" "same_setup s s'" "contents s' = without (currentDB s) (set keys) (contents s)"
    using keysByShard_groups by (auto simp: keysByShard_groups(3))
  moreover obtain db where "currentDatabase s = Some db" using assms by (rule store_inv_current)
  ultimately show ?thesis by (simp add: Del_def)
qed

lemma existShards_sum:
  assumes "\<And>i ks. (i, ks) \<in> set groups \<Longrightarrow> shardAt db i = Some (sh i) \<and>
      filter (\<lambda>key. case map_of (sh i) key of None \<Rightarrow> False | Some v \<Rightarrow> \<not> IsExpired now v) ks = filter P ks"
  shows "existShards now groups db n = Some (n + sum_list (map (\<lambda>g. int (length (filter P (snd g)))) groups))"
  using assms
proof (induction groups arbitrary: n)
  case (Cons g groups)
  obtain i ks where g: "g = (i, ks)" by (cases g)
  with Cons.prems [of i ks] have "existShards now (g # groups) db n =
      existShards now groups db (n + int (length (filter P ks)))" by simp
  also have "\<dots> = Some (n + int (length (filter P ks)) + sum_list (map (\<lambda>g. int (length (filter P (snd g)))) groups))"
    by (rule Cons.IH, rule Cons.prems) simp
  finally show ?case using g by simp
qed simp

lemma group_sizes:
  "distinct is \<Longrightarrow> set (map h keys) \<subseteq> set is \<Longrightarrow>
     sum_list (map (\<lambda>i. int (length (filter P (filter (\<lambda>k. h k = i) keys)))) is) = int (length (filter P keys))"
proof (induction keys)
  case (Cons k keys)
  have "sum_list (map (\<lambda>i. int (length (filter P (filter (\<lambda>k. h k = i) (k # keys))))) is) =
      sum_list (map (\<lambda>i. (if i = h k \<and> P k then 1 else 0) + int (length (filter P (filter (\<lambda>k. h k = i) keys)))) is)"
    by (intro arg_cong [where f = sum_list] map_cong) auto
  also have "\<dots> = sum_list (map (\<lambda>i. if i = h k \<and> P k then 1 else 0) is) + int (length (filter P keys))"
    using Cons by (simp add: sum_list_addf)
  also have "sum_list (map (\<lambda>i. if i = h k \<and> P k then 1 else 0) is) = (if P k then 1 else (0::int))"
    using Cons.prems by (simp add: sum_list_distinct_conv_sum_set)
  finally show ?case by simp
qed simp

lemma sum_arrange: "sum_list (map f (arrange ord xs)) = sum_list (map (f :: 'a \<Rightarrow> int) xs)"
proof -
  have "sum_mset (mset (map f (arrange ord xs))) = sum_mset (mset (map f xs))" by simp
  then show ?thesis by (simp only: sum_mset_sum_list)
qed

lemma Exists_spec:
  assumes "store_inv H s"
  shows "Exists H ord now keys s =
    Some (int (length (filter (\<lambda>k. live now s (currentDB s) k \<noteq> None) keys)))"
proof -
  obtain db where db: "currentDatabase s = Some db" "db_ok H s db" "contents s (currentDB s) = dbMap db"
    using assms by (rule store_inv_current)
  let ?P = "\<lambda>k. live now s (currentDB s) k \<noteq> None" and ?g = "arrange ord (keysByShard H s keys)"
  have "shardAt db i = Some (db ! i) \<and>
      filter (\<lambda>key. case map_of (db ! i) key of None \<Rightarrow> False | Some v \<Rightarrow> \<not> IsExpired now v) ks = filter ?P ks"
    if mem: "(i, ks) \<in> set ?g" for i ks
  proof
    obtain k where "k \<in> set keys" "i = keyHash H s k"
      using mem by (auto simp: keysByShard_def)
    then show "shardAt db i = Some (db ! i)" using shardAt_ok(1) [OF assms db(2)] by simp
    have "map_of (db ! i) k = contents s (currentDB s) k" if "k \<in> set ks" for k
      using keysByShard_groups(1) [of i ks H s keys k] that mem shardAt_ok(2) [OF assms db(2), of k] db(3)
      by simp
    then show "filter (\<lambda>key. case map_of (db ! i) key of None \<Rightarrow> False | Some v \<Rightarrow> \<not> IsExpired now v) ks = filter ?P ks"
      by (intro filter_cong) (auto simp: live_def split: option.split)
  qed
  then have "existShards now ?g db 0 = Some (sum_list (map (\<lambda>g. int (length (filter ?P (snd g)))) ?g))"
    using existShards_sum [of ?g db "(!) db" now ?P 0] by simp
  also have "sum_list (map (\<lambda>g. int (length (filter ?P (snd g)))) ?g) =
      sum_list (map (\<lambda>g. int (length (filter ?P (snd g)))) (keysByShard H s keys))"
    by (rule sum_arrange)
  also have "\<dots> = int (length (filter ?P keys))"
    using group_sizes [of "remdups (map (keyHash H s) keys)" "keyHash H s" keys ?P]
    by (simp add: keysByShard_def comp_def)
  finally show ?thesis using db(1) by (simp add: Exists_def)
qed

section \<open>Whole databases\<close>

lemma iterate_props:
  assumes "distinct (keysOf sh)"
  shows "set (iterate ord sh) = set sh" and "keysOf (iterate ord sh) = arrange ord (keysOf sh)"
    and "distinct (keysOf (iterate ord sh))"
proof -
  have "set (iterate ord sh) = (\<lambda>k. (k, the (map_of sh k))) ` fst ` set sh"
    by (simp add: iterate_def keysOf_def)
  also have "\<dots> = set sh" using assms by (force simp: keysOf_def image_image)
  finally show "set (iterate ord sh) = set sh" .
  show keys: "keysOf (iterate ord sh) = arrange ord (keysOf sh)"
    by (simp add: iterate_def keysOf_def comp_def)
  show "distinct (keysOf (iterate ord sh))" using assms keys by simp
qed

lemma allShards_ok: "db_ok H s db \<Longrightarrow> allShards s db = Some db"
  by (simp add: allShards_def db_ok_def)

text \<open>The shards of a well-formed database together have every key once.\<close>

lemma db_ok_concat_distinct:
  assumes "db_ok H s db" shows "distinct (keysOf (concat db))"
proof -
  have "distinct (concat (map keysOf shs))"
    if "\<And>i. i < length shs \<Longrightarrow> shard_ok H s (n + i) (shs ! i)" for n shs
    using that
  proof (induction shs arbitrary: n)
    case (Cons sh shs)
    have "distinct (concat (map keysOf shs))"
      using Cons.prems [of "Suc i" for i] by (intro Cons.IH [of "Suc n"]) auto
    moreover have "keyHash H s k \<noteq> n" if mem: "k \<in> set (concat (map keysOf shs))" for k
    proof -
      obtain i where "i < length shs" "k \<in> set (keysOf (shs ! i))"
        using mem by (auto simp: set_conv_nth [of shs])
      with Cons.prems [of "Suc i"] show ?thesis by (auto simp: shard_ok_def)
    qed
    moreover have "shard_ok H s n sh" using Cons.prems [of 0] by simp
    ultimately show ?case by (auto simp: shard_ok_def)
  qed simp
  from this [of db 0] assms show ?thesis by (simp add: db_ok_def keysOf_def [abs_def] map_concat)
qed

lemma dbMap_iff:
  "db_ok H s db \<Longrightarrow> dbMap db k = Some v \<longleftrightarrow> (k, v) \<in> set (concat db)"
  using db_ok_concat_distinct [of H s db] by (simp add: dbMap_def keysOf_def)

lemma finite_contents: "finite (dom (contents s d))"
  by (simp add: contents_def dbMap_def finite_dom_map_of split: option.split)

lemma card_dbMap: "db_ok H s db \<Longrightarrow> card (dom (dbMap db)) = length (concat db)"
  using db_ok_concat_distinct [of H s db] distinct_card [of "map fst (concat db)"]
  by (simp add: dbMap_def dom_map_of_conv_image_fst keysOf_def)

lemma KeyCount_spec:
  assumes "store_inv H s"
  shows "KeyCount s = Some (int (card (dom (contents s (currentDB s)))))"
  using assms
proof (cases rule: store_inv_current)
  case (1 db)
  have "sum_list (map (\<lambda>sh. int (length sh)) db) = int (length (concat db))" for db :: shardedDatabase
    by (induction db) simp_all
  with 1 card_dbMap [OF 1(2)] show ?thesis by (simp add: KeyCount_def allShards_ok)
qed

text \<open>Membership in a list gathered shard by shard.\<close>

definition wanted :: "MatchingConfig \<Rightarrow> string \<Rightarrow> string \<Rightarrow> bool" where
  "wanted cfg pat k \<longleftrightarrow> pat = [] \<or> pat = ''*'' \<or> matchPattern cfg k pat"

lemma shardKeys_eq: "shardKeys cfg now pat ord sh =
    map fst (filter (\<lambda>(k, v). \<not> IsExpired now v \<and> wanted cfg pat k) (iterate ord sh))"
proof -
  have "concat (map (\<lambda>(k, v). if P k v then [k] else []) xs) = map fst (filter (\<lambda>(k, v). P k v) xs)"
    for P :: "string \<Rightarrow> svalue \<Rightarrow> bool" and xs
    by (induction xs) auto
  then show ?thesis by (simp add: shardKeys_def wanted_def)
qed

text \<open>The entries of all shards in the order of one walk over the database.\<close>

definition walk :: "(nat \<Rightarrow> string order) \<Rightarrow> nat \<Rightarrow> shardedDatabase \<Rightarrow> shard list" where
  "walk ord n db = map (\<lambda>(i, sh). iterate (ord i) sh) (enumerate n db)"

lemma walk_simps [simp]:
  "walk ord n [] = []" "walk ord n (sh # db) = iterate (ord n) sh # walk ord (Suc n) db"
  by (simp_all add: walk_def)

lemma walk_keys: "mset (keysOf (concat (walk ord n db))) = mset (keysOf (concat db))"
proof (induction db arbitrary: n)
  case (Cons sh db)
  have "mset (keysOf (iterate (ord n) sh)) = mset (keysOf sh)"
    by (simp add: iterate_def keysOf_def comp_def)
  with Cons show ?case by (simp add: keysOf_def)
qed simp

lemma walk_set: "(\<And>sh. sh \<in> set db \<Longrightarrow> distinct (keysOf sh)) \<Longrightarrow> set (concat (walk ord n db)) = set (concat db)"
  by (induction db arbitrary: n) (simp_all add: iterate_props(1))

lemma walk_ok:
  assumes "db_ok H s db"
  shows "distinct (keysOf (concat (walk ord n db)))" and "set (concat (walk ord n db)) = set (concat db)"
proof -
  show "distinct (keysOf (concat (walk ord n db)))"
    using db_ok_concat_distinct [OF assms] mset_eq_imp_distinct_iff [OF walk_keys] by blast
  show "set (concat (walk ord n db)) = set (concat db)"
    using assms by (intro walk_set) (auto simp: db_ok_def shard_ok_def in_set_conv_nth)
qed

lemma Keys_walk:
  "concat (map (\<lambda>(i, sh). shardKeys cfg now pat (ord i) sh) (enumerate n db)) =
     map fst (filter (\<lambda>(k, v). \<not> IsExpired now v \<and> wanted cfg pat k) (concat (walk ord n db)))"
  by (induction db arbitrary: n) (simp_all add: shardKeys_eq)

lemma Keys_spec:
  assumes "store_inv H s"
  shows "\<exists>ks. Keys cfg ord now pat s = Some ks \<and> distinct ks \<and>
    set ks = {k. live now s (currentDB s) k \<noteq> None \<and> wanted cfg pat k}"
  using assms
proof (cases rule: store_inv_current)
  case (1 db)
  define ks where "ks = map fst (filter (\<lambda>(k, v). \<not> IsExpired now v \<and> wanted cfg pat k) (concat (walk ord 0 db)))"
  have "Keys cfg ord now pat s = Some ks"
    using 1 by (simp add: Keys_def allShards_ok Keys_walk ks_def)
  moreover have "distinct ks"
    using walk_ok(1) [OF 1(2)] unfolding ks_def keysOf_def by (rule distinct_map_filter)
  moreover have "set ks = {k. live now s (currentDB s) k \<noteq> None \<and> wanted cfg pat k}"
  proof -
    have "k \<in> set ks \<longleftrightarrow> (\<exists>v. dbMap db k = Some v \<and> \<not> IsExpired now v) \<and> wanted cfg pat k" for k
      unfolding ks_def set_map set_filter walk_ok(2) [OF 1(2)] dbMap_iff [OF 1(2)] by (auto simp: image_iff)
    then show ?thesis unfolding set_eq_iff mem_Collect_eq live_def 1(3) by (simp split: option.split)
  qed
  ultimately show ?thesis by blast
qed

lemma newShardedDatabase_ok:
  assumes "sizes_ok s"
  shows "newShardedDatabase s = Some (replicate (nat (shards s)) [])"
    and "db_ok H s (replicate (nat (shards s)) [])" and "dbMap (replicate (nat (shards s)) []) = Map.empty"
proof -
  obtain k where k: "k \<le> 43" "shards s = 2 ^ k" using assms by (auto simp: sizes_ok_def)
  have "(2::int) ^ k \<le> 2 ^ 43" using k(1) by (intro power_increasing) auto
  with k(2) show "newShardedDatabase s = Some (replicate (nat (shards s)) [])"
    by (simp add: newShardedDatabase_def makeSlice_def maxAlloc_def)
  show "db_ok H s (replicate (nat (shards s)) [])" by (simp add: db_ok_def shard_ok_def keysOf_def)
  show "dbMap (replicate (nat (shards s)) []) = Map.empty" by (simp add: dbMap_def)
qed

lemma update_new: "k \<notin> fst ` set al \<Longrightarrow> AList.update k v al = al @ [(k, v)]"
  by (induction al) auto

lemma SelectDB_spec:
  assumes inv: "store_inv H s" and d: "0 \<le> d" "d \<le> 15"
  shows "\<exists>s'. SelectDB d s = Some (Inr (), s') \<and> store_inv H s' \<and> currentDB s' = d \<and>
    contents s' = contents s \<and> memoryLimit s' = memoryLimit s"
proof (cases "map_of (databases s) d")
  case (Some db)
  then have "d \<in> fst ` set (databases s)" using map_of_SomeD by force
  moreover have "db_ok H (s\<lparr>currentDB := d\<rparr>) = db_ok H s" by (intro ext db_ok_cong) simp_all
  ultimately have "store_inv H (s\<lparr>currentDB := d\<rparr>)" using inv by (simp add: store_inv_def sizes_ok_def)
  with Some d show ?thesis by (simp add: SelectDB_def contents_def fun_eq_iff)
next
  case None
  let ?s' = "s\<lparr>databases := AList.update d (replicate (nat (shards s)) []) (databases s), currentDB := d\<rparr>"
  have sizes: "sizes_ok s" using inv by (simp add: store_inv_def)
  note new = newShardedDatabase_ok [OF sizes]
  have ok: "db_ok H ?s' = db_ok H s" by (intro ext db_ok_cong) simp_all
  have "d \<notin> fst ` set (databases s)" using None by (simp add: map_of_eq_None_iff)
  note upd = update_new [OF this]
  have "store_inv H ?s'"
    using inv d new(2) [of H] \<open>d \<notin> _\<close> unfolding store_inv_def ok by (auto simp: sizes_ok_def upd)
  moreover have "contents ?s' = contents s"
    using None new(3) by (auto simp: contents_def fun_eq_iff update_conv')
  ultimately show ?thesis using None d new(1) by (simp add: SelectDB_def)
qed

lemma SelectDB_invalid: "d < 0 \<or> 15 < d \<Longrightarrow> SelectDB d s = Some (Inl d, s)"
  by (auto simp: SelectDB_def)

lemma FlushAll_spec:
  assumes inv: "store_inv H s"
  shows "\<exists>s'. FlushAll s = Some s' \<and> store_inv H s' \<and> same_setup s s' \<and> contents s' = (\<lambda>_. Map.empty)"
proof -
  have sizes: "sizes_ok s" using inv by (simp add: store_inv_def)
  note new = newShardedDatabase_ok [OF sizes]
  let ?f = "replicate (nat (shards s)) [] :: shardedDatabase"
  define s' where "s' = s\<lparr>databases := map (\<lambda>(d, _). (d, ?f)) (databases s)\<rparr>"
  have ok: "db_ok H s' = db_ok H s" by (intro ext db_ok_cong) (simp_all add: s'_def)
  have names: "map fst (databases s') = map fst (databases s)" by (simp add: s'_def comp_def split_def)
  have "databases s \<noteq> []" using inv by (auto simp: store_inv_def)
  then have "FlushAll s = Some s'" using new(1) by (simp add: FlushAll_def s'_def)
  moreover have "store_inv H s'"
  proof -
    have "\<forall>(d, db) \<in> set (databases s'). 0 \<le> d \<and> d \<le> 15 \<and> db_ok H s db"
      using inv new(2) [of H] by (auto simp: s'_def store_inv_def)
    moreover have "sizes_ok s'" using sizes by (simp add: s'_def sizes_ok_def)
    moreover have "currentDB s' = currentDB s" by (simp add: s'_def)
    ultimately show ?thesis using inv unfolding store_inv_def ok names by simp
  qed
  moreover have "same_setup s s'" using names by (simp add: same_setup_def s'_def)
  moreover have "contents s' = (\<lambda>_. Map.empty)"
  proof -
    have "map_of (map (\<lambda>(d, _). (d, ?f)) dbs) d \<in> {None, Some ?f}" for d and dbs :: "(int \<times> shardedDatabase) list"
      by (induction dbs) auto
    then have all: "map_of (databases s') d \<in> {None, Some ?f}" for d by (simp add: s'_def)
    have "contents s' d = Map.empty" for d using all [of d] new(3) by (auto simp: contents_def)
    then show ?thesis by (intro ext) simp
  qed
  ultimately show ?thesis by blast
qed

end
