(* ===== verification/Store_Evict.thy ===== *)
theory Store_Evict
  imports Store_Correct
begin

text \<open>
  Correctness of the eviction and of the background cleanup, for every order in which the runtime
  iterates over the maps and every outcome of the random generator.
\<close>

section \<open>Eviction\<close>

text \<open>\<open>removed H s s' K\<close>: the step from \<open>s\<close> to \<open>s'\<close> took exactly the keys \<open>K\<close> out of the current database.\<close>

definition removed :: "hash \<Rightarrow> memstore \<Rightarrow> memstore \<Rightarrow> string set \<Rightarrow> bool" where
  "removed H s s' K \<longleftrightarrow> store_inv H s' \<and> same_setup s s' \<and> K \<subseteq> dom (contents s (currentDB s)) \<and>
     contents s' = without (currentDB s) K (contents s)"

lemma removed_none: "store_inv H s \<Longrightarrow> removed H s s {}"
  by (simp add: removed_def)

lemma removed_finite: "removed H s s' K \<Longrightarrow> finite K"
  using finite_contents finite_subset by (fastforce simp: removed_def)

lemma removed_dom:
  assumes "removed H s s' K"
  shows "dom (contents s' (currentDB s')) = dom (contents s (currentDB s)) - K" and "currentDB s' = currentDB s"
  using assms by (auto simp: removed_def same_setup_def dom_without)

lemma removed_trans:
  assumes "removed H s s1 K" and "removed H s1 s2 L"
  shows "removed H s s2 (K \<union> L)" and "card (K \<union> L) = card K + card L"
proof -
  have L: "L \<subseteq> dom (contents s (currentDB s)) - K"
    using assms(2) removed_dom(1) [OF assms(1)] by (simp add: removed_def)
  then have "K \<inter> L = {}" by blast
  then show "card (K \<union> L) = card K + card L"
    using assms by (simp add: card_Un_disjoint removed_finite)
  show "removed H s s2 (K \<union> L)"
    using assms L same_setup_trans by (fastforce simp: removed_def same_setup_def without_without Un_commute)
qed

lemma removed_one:
  assumes "store_inv H s" and "currentDatabase s = Some db" and "k \<in> dom (contents s (currentDB s))"
  shows "removed H s (notify e (putShard (keyHash H s k) (AList.delete k (db ! keyHash H s k)) s)) {k}"
  using delete_step [OF assms(1,2) refl, of e k] assms(3) by (simp add: removed_def)

lemma iterate_first:
  assumes "iterate ord sh = (k, v) # rest" shows "k \<in> set (keysOf sh)"
proof -
  have "k \<in> fst ` set (iterate ord sh)" using assms by simp
  then show ?thesis by (simp add: iterate_def image_image)
qed

lemma iterate_empty: "iterate ord sh = [] \<longleftrightarrow> sh = []"
proof -
  have "length (iterate ord sh) = length sh" by (simp add: iterate_def keysOf_def)
  then show ?thesis by (metis length_0_conv)
qed

text \<open>One eviction from shard \<open>i\<close>.\<close>

lemma evict_first:
  assumes inv: "store_inv H s" and db: "currentDatabase s = Some db" "db_ok H s db" "contents s (currentDB s) = dbMap db"
    and i: "i < length db" and first: "iterate ord (db ! i) = (k, v) # rest"
  shows "removed H s (notify (OnKeyDeleted k) (putShard i (AList.delete k (db ! i)) s)) {k}"
proof -
  have sizes: "sizes_ok s" using inv by (simp add: store_inv_def)
  have k: "k \<in> set (keysOf (db ! i))" using iterate_first first by blast
  then have hash: "keyHash H s k = i" using shard_ok_nth [OF db(2) i] by (simp add: shard_ok_def)
  have "k \<in> dom (contents s (currentDB s))"
    using k hash dbMap_shard [OF sizes db(2), of k] db(3)
    by (auto simp: keysOf_def dom_map_of_conv_image_fst domIff map_of_eq_None_iff)
  from removed_one [OF inv db(1) this, of "OnKeyDeleted k"] show ?thesis by (simp add: hash)
qed

lemma evictShards_spec:
  "store_inv H s \<Longrightarrow> (\<And>i. i \<in> set is \<Longrightarrow> i < nat (shards s)) \<Longrightarrow>
     \<exists>s' K. evictShards ord cnt is s e r = Some (s', e + int (card K), r + int (card K)) \<and>
       removed H s s' K \<and> (e \<le> cnt \<longrightarrow> e + int (card K) \<le> cnt) \<and>
       (K = {} \<and> e < cnt \<longrightarrow> (\<forall>k \<in> dom (contents s (currentDB s)). keyHash H s k \<notin> set is))"
proof (induction "is" arbitrary: s e r)
  case Nil
  then show ?case using removed_none [of H s] by (intro exI [of _ s] exI [of _ "{}"]) simp
next
  case (Cons i "is")
  show ?case
  proof (cases "e < cnt")
    case False
    with Cons.prems(1) show ?thesis
      using removed_none [of H s] by (intro exI [of _ s] exI [of _ "{}"]) simp
  next
    case True
    obtain db where db: "currentDatabase s = Some db" "db_ok H s db" "contents s (currentDB s) = dbMap db"
      using Cons.prems(1) by (rule store_inv_current)
    have i: "i < length db" using Cons.prems(2) db(2) by (simp add: db_ok_def)
    show ?thesis
    proof (cases "iterate (ord i) (db ! i)")
      case Nil
      then have "keyHash H s k \<noteq> i" if "k \<in> dom (contents s (currentDB s))" for k
        using that dbMap_shard [OF _ db(2), of k] db(3) Cons.prems(1) by (auto simp: iterate_empty store_inv_def)
      moreover have "evictShards ord cnt (i # is) s e r = evictShards ord cnt is s e r"
        using True db(1) i Nil by (simp add: shardAt_def)
      ultimately show ?thesis using Cons.IH [OF Cons.prems(1), of e r] Cons.prems(2) by fastforce
    next
      case first: (Cons kv rest)
      obtain k v where kv: "kv = (k, v)" by (cases kv)
      define s1 where "s1 = notify (OnKeyDeleted k) (putShard i (AList.delete k (db ! i)) s)"
      have rem: "removed H s s1 {k}" unfolding s1_def using evict_first [OF Cons.prems(1) db i first [unfolded kv]] .
      then have "store_inv H s1" "shards s1 = shards s" by (simp_all add: removed_def same_setup_def)
      with Cons.IH [of s1 "e + 1" "r + 1"] Cons.prems(2) obtain s' K where s':
        "evictShards ord cnt is s1 (e + 1) (r + 1) = Some (s', e + 1 + int (card K), r + 1 + int (card K))"
        "removed H s1 s' K" "e + 1 \<le> cnt \<longrightarrow> e + 1 + int (card K) \<le> cnt" by auto
      have "evictShards ord cnt (i # is) s e r = evictShards ord cnt is s1 (e + 1) (r + 1)"
        using True db(1) i first kv by (simp add: shardAt_def s1_def Let_def)
      with s' removed_trans [OF rem s'(2)] True show ?thesis
        by (intro exI [of _ s'] exI [of _ "{k} \<union> K"]) (simp add: algebra_simps)
    qed
  qed
qed

lemma evictRounds_spec:
  "store_inv H s \<Longrightarrow> e \<le> cnt \<Longrightarrow>
     \<exists>s' K. evictRounds ord cnt n s e = Some (s', e + int (card K)) \<and> removed H s s' K \<and>
       int (card K) = min (cnt - e) (int (card (dom (contents s (currentDB s)))))"
proof (induction ord cnt n s e rule: evictRounds.induct)
  case (1 ord cnt n s e)
  show ?case
  proof (cases "e < cnt")
    case False
    with "1.prems" removed_none [OF "1.prems"(1)] show ?thesis
      by (intro exI [of _ s] exI [of _ "{}"]) (simp add: evictRounds.simps)
  next
    case True
    obtain s1 K where s1: "evictShards (ord n) cnt [0..<nat (shards s)] s e 0 = Some (s1, e + int (card K), int (card K))"
      "removed H s s1 K" "e + int (card K) \<le> cnt"
      "K = {} \<longrightarrow> (\<forall>k \<in> dom (contents s (currentDB s)). keyHash H s k \<notin> set [0..<nat (shards s)])"
      using evictShards_spec [OF "1.prems"(1), of "[0..<nat (shards s)]" "ord n" cnt e 0] True by auto
    show ?thesis
    proof (cases "K = {}")
      case True
      have "keyHash H s k < nat (shards s)" for k
        using keyHash_less "1.prems"(1) by (simp add: store_inv_def)
      with s1(4) True have "dom (contents s (currentDB s)) = {}" by auto
      with True s1 \<open>e < cnt\<close> show ?thesis
        by (intro exI [of _ s1] exI [of _ "{}"]) (subst evictRounds.simps, simp)
    next
      case False
      then have card: "int (card K) \<noteq> 0" using removed_finite [OF s1(2)] by simp
      have inv: "store_inv H s1" using s1(2) by (simp add: removed_def)
      from "1.IH" [OF True s1(1) refl refl card inv s1(3)] obtain s' L where s':
        "evictRounds ord cnt (n + 1) s1 (e + int (card K)) = Some (s', e + int (card K) + int (card L))"
        "removed H s1 s' L"
        "int (card L) = min (cnt - (e + int (card K))) (int (card (dom (contents s1 (currentDB s1)))))" by blast
      have "K \<subseteq> dom (contents s (currentDB s))" using s1(2) by (simp add: removed_def)
      then have "card (dom (contents s (currentDB s))) = card K + card (dom (contents s1 (currentDB s1)))"
        using removed_dom(1) [OF s1(2)] by (simp add: card_Diff_subset removed_finite [OF s1(2)] finite_contents card_mono)
      with s' s1 card True removed_trans [OF s1(2) s'(2)] show ?thesis
        by (intro exI [of _ s'] exI [of _ "K \<union> L"]) (subst evictRounds.simps, simp)
    qed
  qed
qed

lemma evictLRU_spec:
  assumes "store_inv H s"
  shows "\<exists>s' K. evictLRU ord cnt s = Some (int (card K), s') \<and> removed H s s' K \<and>
    int (card K) = max 0 (min cnt (int (card (dom (contents s (currentDB s))))))"
proof (cases "0 \<le> cnt")
  case True
  from evictRounds_spec [OF assms this, of ord 0] obtain s' K where
    "evictRounds ord cnt 0 s 0 = Some (s', int (card K))" "removed H s s' K"
    "int (card K) = min cnt (int (card (dom (contents s (currentDB s)))))" by auto
  with True show ?thesis by (intro exI [of _ s'] exI [of _ K]) (simp add: evictLRU_def)
next
  case False
  with removed_none [OF assms] show ?thesis
    by (intro exI [of _ s] exI [of _ "{}"]) (simp add: evictLRU_def evictRounds.simps)
qed

lemma MemoryUsage_defined:
  assumes "store_inv H s" shows "\<exists>u. MemoryUsage s = Some u"
proof -
  have "\<exists>u. databasesUsage s dbs = Some u" if "\<And>db. db \<in> set dbs \<Longrightarrow> db_ok H s db" for dbs
    using that
  proof (induction dbs)
    case (Cons db dbs)
    then obtain u where "databasesUsage s dbs = Some u" by auto
    with allShards_ok [OF Cons.prems, of db] show ?case by simp
  qed simp
  moreover have "\<And>db. db \<in> set (map snd (databases s)) \<Longrightarrow> db_ok H s db" using assms by (auto simp: store_inv_def)
  ultimately show ?thesis unfolding MemoryUsage_def by blast
qed

text \<open>\<^verbatim>\<open>Set\<close> with a memory limit: the value is stored and then at most one key of the database is dropped.\<close>

lemma Set_spec:
  assumes "store_inv H s"
  shows "\<exists>s' K. Set H ord now key value expiry s = Some s' \<and>
    removed H (setStep H now key value expiry s) s' K \<and> card K \<le> 1 \<and> same_setup s s' \<and>
    (memoryLimit s \<le> 0 \<longrightarrow> K = {})"
proof -
  let ?s1 = "setStep H now key value expiry s"
  note step = setStep_spec [OF assms, of now key "value" expiry]
  obtain u where u: "MemoryUsage ?s1 = Some u" using MemoryUsage_defined [OF step(1)] by blast
  obtain s2 K where s2: "evictLRU ord 1 ?s1 = Some (int (card K), s2)" "removed H ?s1 s2 K"
      "int (card K) = max 0 (min 1 (int (card (dom (contents ?s1 (currentDB ?s1))))))"
    using evictLRU_spec [OF step(1), of ord 1] by blast
  then have "card K \<le> 1" by linarith
  show ?thesis
  proof (cases "memoryLimit s > 0 \<and> u > memoryLimit s")
    case True
    with s2 \<open>card K \<le> 1\<close> u Set_eq [OF assms, of ord now key "value" expiry] same_setup_trans [OF step(2), of s2]
    show ?thesis by (intro exI [of _ s2] exI [of _ K]) (simp add: Let_def removed_def)
  next
    case False
    then have "Set H ord now key value expiry s = Some ?s1"
      using u Set_eq [OF assms, of ord now key "value" expiry] by (auto simp: Let_def)
    with step removed_none [OF step(1)] show ?thesis by (intro exI [of _ ?s1] exI [of _ "{}"]) simp
  qed
qed

section \<open>Cleanup\<close>

text \<open>The contents without those of the keys \<open>K\<close> of database \<open>d\<close> that have expired.\<close>

definition purge :: "int \<Rightarrow> int \<Rightarrow> string set \<Rightarrow> (int \<Rightarrow> string \<Rightarrow> svalue option) \<Rightarrow> int \<Rightarrow> string \<Rightarrow> svalue option" where
  "purge now d K m n k = (case m n k of None \<Rightarrow> None
     | Some v \<Rightarrow> if n = d \<and> k \<in> K \<and> IsExpired now v then None else Some v)"

lemma purge_purge: "purge now d K (purge now d L m) = purge now d (K \<union> L) m"
  by (auto simp: purge_def fun_eq_iff split: option.split)

lemma purge_empty [simp]: "purge now d {} m = m"
  by (auto simp: purge_def fun_eq_iff split: option.split)

text \<open>\<open>purged H now s s'\<close>: only expired keys went, and nothing else changed.\<close>

definition purged :: "hash \<Rightarrow> int \<Rightarrow> memstore \<Rightarrow> memstore \<Rightarrow> bool" where
  "purged H now s s' \<longleftrightarrow> store_inv H s' \<and> same_setup s s' \<and>
     (\<forall>n k. contents s' n k = contents s n k \<or>
        contents s' n k = None \<and> (\<exists>v. contents s n k = Some v \<and> IsExpired now v))"

lemma purged_refl: "store_inv H s \<Longrightarrow> purged H now s s"
  by (simp add: purged_def)

lemma purged_trans: "purged H now s s1 \<Longrightarrow> purged H now s1 s2 \<Longrightarrow> purged H now s s2"
proof -
  assume 1: "purged H now s s1" and 2: "purged H now s1 s2"
  have "contents s2 n k = contents s n k \<or> contents s2 n k = None \<and> (\<exists>v. contents s n k = Some v \<and> IsExpired now v)" for n k
  proof -
    have "contents s1 n k = contents s n k \<or> contents s1 n k = None \<and> (\<exists>v. contents s n k = Some v \<and> IsExpired now v)"
      "contents s2 n k = contents s1 n k \<or> contents s2 n k = None \<and> (\<exists>v. contents s1 n k = Some v \<and> IsExpired now v)"
      using 1 2 by (simp_all add: purged_def)
    then show ?thesis by (metis option.distinct(1))
  qed
  with 1 2 show ?thesis unfolding purged_def using same_setup_trans by blast
qed

lemma purged_live: "purged H now s s' \<Longrightarrow> live now s' = live now s"
proof (intro ext)
  fix n k
  assume "purged H now s s'"
  then have "contents s' n k = contents s n k \<or>
      contents s' n k = None \<and> (\<exists>v. contents s n k = Some v \<and> IsExpired now v)" by (simp add: purged_def)
  then show "live now s' n k = live now s n k" by (auto simp: live_def)
qed

lemma purged_purge:
  "store_inv H s' \<Longrightarrow> same_setup s s' \<Longrightarrow> contents s' = purge now d K (contents s) \<Longrightarrow> purged H now s s'"
  by (auto simp: purged_def purge_def split: option.split)

lemma purged_db:
  assumes "same_setup s s'" and "map_of (databases s) d = Some db"
  obtains db' where "map_of (databases s') d = Some db'"
proof -
  have "d \<in> fst ` set (databases s')"
    using assms map_of_SomeD [OF assms(2)] unfolding same_setup_def by (metis fst_conv image_eqI set_map)
  with that show ?thesis by (metis map_of_eq_None_iff not_None_eq)
qed

lemma deleteKeyBatchInShard_spec:
  "store_inv H s \<Longrightarrow> map_of (databases s) d \<noteq> None \<Longrightarrow> (\<And>k. k \<in> set keys \<Longrightarrow> keyHash H s k = i) \<Longrightarrow>
     \<exists>s'. deleteKeyBatchInShard now d i keys s = Some s' \<and> store_inv H s' \<and> same_setup s s' \<and>
       contents s' = purge now d (set keys) (contents s)"
proof (induction keys arbitrary: s)
  case (Cons k keys)
  obtain db where db: "map_of (databases s) d = Some db" using Cons.prems(2) by blast
  note ok = store_inv_db(1) [OF Cons.prems(1) db]
  have i: "i = keyHash H s k" using Cons.prems(3) [of k] by simp
  have sh: "shardAt db i = Some (db ! i)" "map_of (db ! i) k = contents s d k"
    using shardAt_ok [OF Cons.prems(1) ok, of k] db by (simp_all add: i contents_def)
  show ?case
  proof (cases "\<exists>v. contents s d k = Some v \<and> IsExpired now v")
    case True
    define s1 where "s1 = notify (OnKeyExpired k) (putShardIn d i (AList.delete k (db ! i)) s)"
    have s1: "store_inv H s1" "same_setup s s1" "contents s1 = purge now d {k} (contents s)"
      using store_key(3,4) [OF Cons.prems(1) db i] True
      by (auto simp: s1_def upd_apply purge_def fun_eq_iff split: option.split)
    have "map_of (databases s1) d \<noteq> None" using purged_db [OF s1(2) db] by auto
    moreover have "keyHash H s1 = keyHash H s" by (rule same_setup_keyHash [OF s1(2)])
    ultimately obtain s' where s': "deleteKeyBatchInShard now d i keys s1 = Some s'" "store_inv H s'" "same_setup s1 s'"
        "contents s' = purge now d (set keys) (contents s1)"
      using Cons.IH [OF s1(1)] Cons.prems(3) by auto
    moreover have "deleteKeyBatchInShard now d i (k # keys) s = deleteKeyBatchInShard now d i keys s1"
      using True db sh by (auto simp: s1_def)
    ultimately show ?thesis using s1 same_setup_trans [OF s1(2) s'(3)] by (simp add: purge_purge)
  next
    case False
    then have "deleteKeyBatchInShard now d i (k # keys) s = deleteKeyBatchInShard now d i keys s"
      using db sh by (simp split: option.split)
    moreover have "purge now d (set (k # keys)) (contents s) = purge now d (set keys) (contents s)"
      using False by (auto simp: purge_def fun_eq_iff split: option.split)
    ultimately show ?thesis using Cons.IH [OF Cons.prems(1,2)] Cons.prems(3) by simp
  qed
qed simp

lemma batched_spec:
  "store_inv H s \<Longrightarrow> map_of (databases s) d \<noteq> None \<Longrightarrow> (\<And>k. k \<in> set keys \<Longrightarrow> keyHash H s k = i) \<Longrightarrow>
     0 < batch \<Longrightarrow> 0 \<le> pos \<Longrightarrow>
     \<exists>s'. deleteExpiredKeysInShardBatched now d i keys batch pos s = Some s' \<and> store_inv H s' \<and> same_setup s s' \<and>
       contents s' = purge now d (set (drop (nat pos) keys)) (contents s)"
proof (induction "nat (int (length keys) - pos)" arbitrary: pos s rule: less_induct)
  case less
  show ?case
  proof (cases "pos < int (length keys)")
    case False
    with less.prems show ?thesis by (subst deleteExpiredKeysInShardBatched.simps) simp
  next
    case True
    define stop where "stop = (if pos + batch > int (length keys) then int (length keys) else pos + batch)"
    let ?batch = "take (nat (stop - pos)) (drop (nat pos) keys)"
    have "\<And>k. k \<in> set ?batch \<Longrightarrow> keyHash H s k = i" using less.prems(3) by (meson in_set_dropD in_set_takeD)
    then obtain s1 where s1: "deleteKeyBatchInShard now d i ?batch s = Some s1" "store_inv H s1" "same_setup s s1"
        "contents s1 = purge now d (set ?batch) (contents s)"
      using deleteKeyBatchInShard_spec [OF less.prems(1,2)] by blast
    obtain db where db: "map_of (databases s) d = Some db" using less.prems(2) by blast
    have db1: "map_of (databases s1) d \<noteq> None" using purged_db [OF s1(3) db] by auto
    have "keyHash H s1 = keyHash H s" by (rule same_setup_keyHash [OF s1(3)])
    with less.hyps [of "pos + batch" s1] less.prems True s1(2) db1 obtain s' where s':
      "deleteExpiredKeysInShardBatched now d i keys batch (pos + batch) s1 = Some s'" "store_inv H s'" "same_setup s1 s'"
      "contents s' = purge now d (set (drop (nat (pos + batch)) keys)) (contents s1)"
      by auto
    have "deleteExpiredKeysInShardBatched now d i keys batch pos s = Some s'"
      using True less.prems(4) s1(1) s'(1)
      by (subst deleteExpiredKeysInShardBatched.simps) (simp add: stop_def [symmetric], simp add: stop_def)
    moreover have "set (drop (nat (pos + batch)) keys) \<union> set ?batch = set (drop (nat pos) keys)"
    proof -
      have "drop (nat pos) keys = ?batch @ drop (nat (stop - pos)) (drop (nat pos) keys)"
        by (rule append_take_drop_id [symmetric])
      moreover have "drop (nat (stop - pos)) (drop (nat pos) keys) = drop (nat (pos + batch)) keys"
        using less.prems(4,5) True by (simp add: stop_def nat_add_distrib add.commute)
      ultimately show ?thesis by (metis Un_commute set_append)
    qed
    ultimately show ?thesis using s' s1(4) same_setup_trans [OF s1(3) s'(3)] by (simp add: purge_purge)
  qed
qed

lemma reservoir_subset: "set (reservoir rng n i keys acc) \<subseteq> set keys \<union> set acc"
proof (induction rng n i keys acc rule: reservoir.induct)
  case (2 rng n i key keys acc)
  let ?acc = "if i < n then acc @ [key] else let j = rng i mod (i + 1) in if j < n then acc[j := key] else acc"
  have "set ?acc \<subseteq> insert key (set acc)" 
    using set_update_subset_insert [of acc "rng i mod (i + 1)" key] by (auto simp: Let_def)
  with 2 show ?case by auto
qed simp

text \<open>Settings under which the cleanup returns.\<close>

definition config_ok :: "CleanupConfig \<Rightarrow> bool" where
  "config_ok c \<longleftrightarrow> 0 \<le> SampleSize c \<and> SampleSize c \<le> 2 ^ 44 \<and> 0 < BatchSize c"

lemma sample_spec:
  assumes "0 \<le> n" and "n \<le> 2 ^ 44"
  shows "\<exists>ks. sampleAndFindExpiredInShard ord rng now n sh = Some ks \<and>
    (\<forall>k \<in> set ks. \<exists>v. map_of sh k = Some v \<and> IsExpired now v) \<and>
    (int (length sh) \<le> n \<longrightarrow> (\<forall>k v. map_of sh k = Some v \<and> IsExpired now v \<longrightarrow> k \<in> set ks))"
proof (cases "sh = []")
  case True
  then show ?thesis by (simp add: sampleAndFindExpiredInShard_def)
next
  case False
  define actual where "actual = (if int (length sh) < n then int (length sh) else n)"
  define sampled where "sampled = (if int (length sh) \<le> actual then arrange ord (keysOf sh)
      else reservoir rng (nat actual) 0 (arrange ord (keysOf sh)) [])"
  define ks where "ks = filter (\<lambda>key. case map_of sh key of None \<Rightarrow> False | Some value \<Rightarrow> IsExpired now value) sampled"
  have "makeSlice 16 actual = Some ()" using assms by (auto simp: makeSlice_def maxAlloc_def actual_def)
  then have "sampleAndFindExpiredInShard ord rng now n sh = Some ks"
    using False by (simp add: sampleAndFindExpiredInShard_def actual_def [symmetric] sampled_def ks_def Let_def)
  moreover have "\<exists>v. map_of sh k = Some v \<and> IsExpired now v" if "k \<in> set ks" for k
    using that by (auto simp: ks_def split: option.splits)
  moreover have "k \<in> set ks" if "int (length sh) \<le> n" "map_of sh k = Some v" "IsExpired now v" for k v
  proof -
    have "sampled = arrange ord (keysOf sh)" using that(1) by (simp add: sampled_def actual_def)
    moreover have "k \<in> set (keysOf sh)" using that(2) by (force simp: keysOf_def dest: map_of_SomeD)
    ultimately show ?thesis using that by (simp add: ks_def)
  qed
  ultimately show ?thesis by blast
qed

text \<open>One round: the sampled expired keys are deleted, all of them when the shard fits into the sample.\<close>

lemma cleanup_round:
  assumes inv: "store_inv H s" and db: "map_of (databases s) d = Some db" and i: "i < length db" and c: "config_ok c"
  obtains ks s' where "sampleAndFindExpiredInShard ord rng now (SampleSize c) (db ! i) = Some ks"
    and "deleteExpiredKeysInShardBatched now d i ks (BatchSize c) 0 s = Some s'" and "purged H now s s'"
    and "\<forall>k v. int (length (db ! i)) \<le> SampleSize c \<and> contents s' d k = Some v \<and> keyHash H s k = i \<longrightarrow> \<not> IsExpired now v"
    and "ks = [] \<longrightarrow> contents s' = contents s"
proof -
  note ok = store_inv_db(1) [OF inv db]
  have sizes: "sizes_ok s" using inv by (simp add: store_inv_def)
  have look: "contents s d k = map_of (db ! i) k" if "keyHash H s k = i" for k
    using dbMap_shard [OF sizes ok, of k] that db by (simp add: contents_def)
  obtain ks where ks: "sampleAndFindExpiredInShard ord rng now (SampleSize c) (db ! i) = Some ks"
      "\<And>k. k \<in> set ks \<Longrightarrow> \<exists>v. map_of (db ! i) k = Some v \<and> IsExpired now v"
      "int (length (db ! i)) \<le> SampleSize c \<longrightarrow> (\<forall>k v. map_of (db ! i) k = Some v \<and> IsExpired now v \<longrightarrow> k \<in> set ks)"
    using sample_spec [of "SampleSize c" ord rng now "db ! i"] c unfolding config_ok_def by blast
  have hash: "keyHash H s k = i" if "k \<in> set ks" for k
    using ks(2) [OF that] shard_ok_nth [OF ok i] map_of_SomeD by (fastforce simp: shard_ok_def keysOf_def)
  obtain s' where s': "deleteExpiredKeysInShardBatched now d i ks (BatchSize c) 0 s = Some s'" "store_inv H s'"
      "same_setup s s'" "contents s' = purge now d (set ks) (contents s)"
    using batched_spec [OF inv _ hash, of d ks "BatchSize c" 0] db c by (auto simp: config_ok_def)
  show ?thesis
  proof (rule that [OF ks(1) s'(1) purged_purge [OF s'(2-4)]])
    show "\<forall>k v. int (length (db ! i)) \<le> SampleSize c \<and> contents s' d k = Some v \<and> keyHash H s k = i \<longrightarrow> \<not> IsExpired now v"
      using ks(3) look s'(4) by (auto simp: purge_def split: option.splits if_splits)
  qed (use s'(4) in simp)
qed

text \<open>After the cleanup of a shard that fits into one sample no expired key of the shard is left.\<close>

lemma cleanupShard_spec:
  "store_inv H s \<Longrightarrow> map_of (databases s) d = Some db \<Longrightarrow> i < length db \<Longrightarrow> config_ok c \<Longrightarrow>
     \<exists>s'. cleanupShard ord rng now c d i n s = Some s' \<and> purged H now s s' \<and>
       (0 < n \<and> int (length (db ! i)) \<le> SampleSize c \<longrightarrow>
          (\<forall>k v. contents s' d k = Some v \<and> keyHash H s k = i \<longrightarrow> \<not> IsExpired now v))"
proof (induction n arbitrary: s db)
  case 0
  then show ?case by (simp add: purged_refl)
next
  case (Suc n)
  note db = Suc.prems(2)
  obtain ks s1 where ks: "sampleAndFindExpiredInShard (ord n) (rng n) now (SampleSize c) (db ! i) = Some ks"
    and s1: "deleteExpiredKeysInShardBatched now d i ks (BatchSize c) 0 s = Some s1" and pur: "purged H now s s1"
    and clean: "\<forall>k v. int (length (db ! i)) \<le> SampleSize c \<and> contents s1 d k = Some v \<and> keyHash H s k = i \<longrightarrow> \<not> IsExpired now v"
    and none: "ks = [] \<longrightarrow> contents s1 = contents s"
    by (rule cleanup_round [OF Suc.prems, where ord = "ord n" and rng = "rng n" and now = now])
  have step: "cleanupShard ord rng now c d i (Suc n) s =
      (if ks = [] then Some s
       else if float64 (float64 (of_nat (length ks)) / float64 (of_int (SampleSize c))) < ExpiredThreshold c then Some s1 else cleanupShard ord rng now c d i n s1)"
    using db ks Suc.prems(3) s1 by (simp add: shardAt_def)
  show ?case
  proof (cases "ks = []")
    case True
    with none step clean Suc.prems(1) show ?thesis by (auto simp: purged_refl)
  next
    case False
    have inv1: "store_inv H s1" and same: "same_setup s s1" using pur by (simp_all add: purged_def)
    obtain db1 where db1: "map_of (databases s1) d = Some db1" using purged_db [OF same db] .
    then have "i < length db1"
      using store_inv_db(1) [OF inv1 db1] store_inv_db(1) [OF Suc.prems(1) db] Suc.prems(3) same by (simp add: db_ok_def same_setup_def)
    then obtain s2 where s2: "cleanupShard ord rng now c d i n s1 = Some s2" "purged H now s1 s2"
      using Suc.IH [OF inv1 db1 _ Suc.prems(4)] by blast
    have "contents s2 d k = Some v \<Longrightarrow> contents s1 d k = Some v" for k v
      using s2(2) unfolding purged_def by (metis option.distinct(1))
    with False step s2(1) pur purged_trans [OF pur s2(2)] clean show ?thesis
      by (cases "float64 (float64 (of_nat (length ks)) / float64 (of_int (SampleSize c))) < ExpiredThreshold c") auto
  qed
qed

text \<open>The number of keys of database \<open>d\<close> in shard \<open>i\<close>.\<close>

definition shardSize :: "hash \<Rightarrow> memstore \<Rightarrow> int \<Rightarrow> nat \<Rightarrow> nat" where
  "shardSize H s d i = card {k \<in> dom (contents s d). keyHash H s k = i}"

lemma shardSize_length:
  assumes "store_inv H s" and "map_of (databases s) d = Some db" and "i < length db"
  shows "shardSize H s d i = length (db ! i)"
proof -
  note ok = store_inv_db(1) [OF assms(1,2)]
  have sizes: "sizes_ok s" using assms(1) by (simp add: store_inv_def)
  have sh: "shard_ok H s i (db ! i)" by (rule shard_ok_nth [OF ok assms(3)])
  have "{k \<in> dom (contents s d). keyHash H s k = i} = set (keysOf (db ! i))"
    using sh dbMap_shard [OF sizes ok] assms(2)
    by (auto simp: contents_def shard_ok_def keysOf_def domIff map_of_eq_None_iff)
  then show ?thesis using sh distinct_card [of "keysOf (db ! i)"] by (simp add: shardSize_def shard_ok_def keysOf_def)
qed

lemma purged_mono:
  assumes "purged H now s s'"
  shows "contents s' n k = Some v \<Longrightarrow> contents s n k = Some v" and "shardSize H s' d i \<le> shardSize H s d i"
proof -
  show mono: "contents s n k = Some v" if "contents s' n k = Some v" for n k v
    using assms that unfolding purged_def by (metis option.distinct(1))
  have hash: "keyHash H s' = keyHash H s" using assms same_setup_keyHash by (simp add: purged_def)
  have "{k \<in> dom (contents s' d). keyHash H s k = i} \<subseteq> {k \<in> dom (contents s d). keyHash H s k = i}"
    using mono by blast
  then show "shardSize H s' d i \<le> shardSize H s d i"
    unfolding shardSize_def hash by (intro card_mono) (simp_all add: finite_contents)
qed

text \<open>No expired key of database \<open>d\<close> is left in the shards \<open>I\<close>.\<close>

definition fresh_in :: "hash \<Rightarrow> int \<Rightarrow> memstore \<Rightarrow> int \<Rightarrow> nat set \<Rightarrow> bool" where
  "fresh_in H now s d I \<longleftrightarrow> (\<forall>k v. contents s d k = Some v \<and> keyHash H s k \<in> I \<longrightarrow> \<not> IsExpired now v)"

lemma purged_fresh: "purged H now s s' \<Longrightarrow> fresh_in H now s d I \<Longrightarrow> fresh_in H now s' d I"
proof -
  assume 1: "purged H now s s'" and "fresh_in H now s d I"
  moreover have "keyHash H s' = keyHash H s" using 1 by (simp add: purged_def same_setup_keyHash)
  ultimately show ?thesis using purged_mono(1) [OF 1] unfolding fresh_in_def by (simp, blast)
qed

lemma cleanupShards_spec:
  "store_inv H s \<Longrightarrow> map_of (databases s) d \<noteq> None \<Longrightarrow> config_ok c \<Longrightarrow>
     (\<And>i. i \<in> set is \<Longrightarrow> i < nat (shards s)) \<Longrightarrow>
     \<exists>s'. cleanupShards ord rng now c d is s = Some s' \<and> purged H now s s' \<and>
       (0 < MaxRounds c \<and> (\<forall>i \<in> set is. int (shardSize H s d i) \<le> SampleSize c) \<longrightarrow> fresh_in H now s' d (set is))"
proof (induction "is" arbitrary: s)
  case Nil
  then show ?case by (simp add: purged_refl fresh_in_def)
next
  case (Cons i "is")
  obtain db where db: "map_of (databases s) d = Some db" using Cons.prems(2) by blast
  have i: "i < length db" using store_inv_db(1) [OF Cons.prems(1) db] Cons.prems(4) by (simp add: db_ok_def)
  obtain s1 where cl: "cleanupShard (ord i) (rng i) now c d i (nat (MaxRounds c)) s = Some s1" "purged H now s s1"
      "0 < nat (MaxRounds c) \<and> int (length (db ! i)) \<le> SampleSize c \<longrightarrow>
         (\<forall>k v. contents s1 d k = Some v \<and> keyHash H s k = i \<longrightarrow> \<not> IsExpired now v)"
    using cleanupShard_spec [OF Cons.prems(1) db i Cons.prems(3), of "ord i" "rng i" now "nat (MaxRounds c)"]
    by blast
  have inv: "store_inv H s1" and same: "same_setup s s1" using cl(2) by (simp_all add: purged_def)
  have fresh: "0 < MaxRounds c \<and> int (shardSize H s d i) \<le> SampleSize c \<longrightarrow> fresh_in H now s1 d {i}"
    using cl(3) shardSize_length [OF Cons.prems(1) db i] same_setup_keyHash [OF same, of H]
    by (simp add: fresh_in_def)
  note s1 = cl(1,2) fresh
  have db1: "map_of (databases s1) d \<noteq> None" using purged_db [OF same db] by auto
  have "\<And>i. i \<in> set is \<Longrightarrow> i < nat (shards s1)" using same Cons.prems(4) by (simp add: same_setup_def)
  from Cons.IH [OF inv db1 Cons.prems(3) this] obtain s2 where s2:
    "cleanupShards ord rng now c d is s1 = Some s2" "purged H now s1 s2"
    "0 < MaxRounds c \<and> (\<forall>i \<in> set is. int (shardSize H s1 d i) \<le> SampleSize c) \<longrightarrow> fresh_in H now s2 d (set is)"
    by blast
  have clean: "fresh_in H now s2 d (set (i # is))"
    if "0 < MaxRounds c" and small: "\<forall>i \<in> set (i # is). int (shardSize H s d i) \<le> SampleSize c"
  proof -
    have "fresh_in H now s2 d {i}" using s1(3) that purged_fresh [OF s2(2)] by simp
    moreover have "int (shardSize H s1 d j) \<le> SampleSize c" if "j \<in> set is" for j
    proof -
      have "shardSize H s1 d j \<le> shardSize H s d j" by (rule purged_mono(2) [OF s1(2)])
      moreover have "int (shardSize H s d j) \<le> SampleSize c" using small that by simp
      ultimately show ?thesis by linarith
    qed
    then have "fresh_in H now s2 d (set is)" using s2(3) \<open>0 < MaxRounds c\<close> by simp
    ultimately show ?thesis by (auto simp: fresh_in_def)
  qed
  have "cleanupShards ord rng now c d (i # is) s = Some s2" using s1(1) s2(1) by simp
  with purged_trans [OF s1(2) s2(2)] clean show ?case by blast
qed

lemma cleanupDatabases_spec:
  "store_inv H s \<Longrightarrow> config_ok c \<Longrightarrow> (\<And>d. d \<in> set ds \<Longrightarrow> map_of (databases s) d \<noteq> None) \<Longrightarrow>
     \<exists>s'. cleanupDatabases ord rng now c ds s = Some s' \<and> purged H now s s' \<and>
       (0 < MaxRounds c \<and> (\<forall>d i. int (shardSize H s d i) \<le> SampleSize c) \<longrightarrow> (\<forall>d \<in> set ds. fresh_in H now s' d UNIV))"
proof (induction ds arbitrary: s)
  case Nil
  then show ?case by (simp add: purged_refl)
next
  case (Cons d ds)
  have bound: "keyHash H s' k < nat (shards s')" if "store_inv H s'" for s' k
    using keyHash_less that by (simp add: store_inv_def)
  obtain s1 where s1: "cleanupDatabase (ord d) (rng d) now c d s = Some s1" "purged H now s s1"
    "0 < MaxRounds c \<and> (\<forall>i. int (shardSize H s d i) \<le> SampleSize c) \<longrightarrow> fresh_in H now s1 d {0..<nat (shards s)}"
    using cleanupShards_spec [OF Cons.prems(1) _ Cons.prems(2), of d "[0..<nat (shards s)]" "ord d" "rng d" now]
      Cons.prems(3) by (auto simp: cleanupDatabase_def)
  have inv: "store_inv H s1" and same: "same_setup s s1" using s1(2) by (simp_all add: purged_def)
  have "shards s1 = shards s" using same by (simp add: same_setup_def)
  then have univ: "fresh_in H now s1 d {0..<nat (shards s)} \<longleftrightarrow> fresh_in H now s1 d UNIV"
    using bound [OF inv] by (simp add: fresh_in_def)
  have "\<And>d. d \<in> set ds \<Longrightarrow> map_of (databases s1) d \<noteq> None"
    using purged_db [OF same] Cons.prems(3) by (metis list.set_intros(2) option.collapse option.distinct(1))
  from Cons.IH [OF inv Cons.prems(2) this] obtain s2 where s2:
    "cleanupDatabases ord rng now c ds s1 = Some s2" "purged H now s1 s2"
    "0 < MaxRounds c \<and> (\<forall>d i. int (shardSize H s1 d i) \<le> SampleSize c) \<longrightarrow> (\<forall>d \<in> set ds. fresh_in H now s2 d UNIV)"
    by blast
  have "\<forall>d' \<in> set (d # ds). fresh_in H now s2 d' UNIV"
    if "0 < MaxRounds c" "\<forall>d i. int (shardSize H s d i) \<le> SampleSize c"
  proof -
    have "\<forall>d i. int (shardSize H s1 d i) \<le> SampleSize c"
      using that(2) purged_mono(2) [OF s1(2)] by (meson of_nat_mono order_trans)
    with that s1(3) s2(3) univ purged_fresh [OF s2(2)] show ?thesis by simp
  qed
  with s1(1) s2(1) purged_trans [OF s1(2) s2(2)] show ?case by auto
qed

lemma performCleanup_spec:
  assumes "store_inv H s" and "config_ok (cleanupConfig s)"
  shows "\<exists>s'. performCleanup dbord ord rng now s = Some s' \<and> purged H now s s' \<and>
    (0 < MaxRounds (cleanupConfig s) \<and> (\<forall>d i. int (shardSize H s d i) \<le> SampleSize (cleanupConfig s)) \<longrightarrow>
       (\<forall>d k v. contents s' d k = Some v \<longrightarrow> \<not> IsExpired now v))"
proof -
  let ?ds = "arrange dbord (map fst (databases s))"
  have "\<And>d. d \<in> set ?ds \<Longrightarrow> map_of (databases s) d \<noteq> None" by (simp add: map_of_eq_None_iff)
  from cleanupDatabases_spec [OF assms this, of ?ds ord rng now] obtain s' where s':
    "performCleanup dbord ord rng now s = Some s'" "purged H now s s'"
    "0 < MaxRounds (cleanupConfig s) \<and> (\<forall>d i. int (shardSize H s d i) \<le> SampleSize (cleanupConfig s)) \<longrightarrow>
       (\<forall>d \<in> fst ` set (databases s). fresh_in H now s' d UNIV)"
    by (auto simp: performCleanup_def GetCleanupConfig_def)
  have "d \<in> fst ` set (databases s)" if "contents s' d k = Some v" for d k v
    using purged_mono(1) [OF s'(2) that] by (auto simp: contents_def split: option.splits dest: map_of_SomeD)
      (metis fst_conv image_eqI map_of_SomeD)
  then show ?thesis using s' unfolding fresh_in_def by (metis UNIV_I)
qed

end
