(* ===== verification/Store_Safety.thy ===== *)
theory Store_Safety
  imports Store_Evict
begin

text \<open>
  The storage engine as a state machine: the stores a program can reach from \<^verbatim>\<open>NewMemory\<close> by any sequence
  of operations and cleanup ticks satisfy the invariant, and on them no operation panics.
\<close>

section \<open>Construction\<close>

lemma sizes_ok_WithShardCount:
  assumes "sizes_ok s" and "n \<le> 2 ^ 43"
  shows "sizes_ok (WithShardCount n s)"
proof (cases "n > 0")
  case True
  have "n \<le> 2 ^ 62" using assms(2) by simp
  with True obtain k where k: "nextPowerOf2 n = 2 ^ k" "\<forall>j. n \<le> 2 ^ j \<longrightarrow> k \<le> j"
    using nextPowerOf2_power [of n] by auto
  with assms(2) have "k \<le> 43" by blast
  moreover have "word_of_int (2 ^ k - 1) = (mask k :: 64 word)" by (simp add: mask_eq_exp_minus_1)
  ultimately show ?thesis using True k(1) by (auto simp: sizes_ok_def WithShardCount_def)
qed (use assms in \<open>simp add: WithShardCount_def\<close>)

lemma fold_WithShardCount:
  assumes "\<forall>n \<in> set counts. n \<le> 2 ^ 43" and "sizes_ok s" and "databases s = []" and "currentDB s = 0"
  shows "sizes_ok (fold (\<lambda>opt s. opt s) (map WithShardCount counts) s) \<and>
    databases (fold (\<lambda>opt s. opt s) (map WithShardCount counts) s) = [] \<and>
    currentDB (fold (\<lambda>opt s. opt s) (map WithShardCount counts) s) = 0"
  using assms
proof (induction counts arbitrary: s)
  case (Cons n counts)
  then show ?case using sizes_ok_WithShardCount [of s n] by (simp add: WithShardCount_def)
qed simp

lemma NewMemory_spec:
  assumes "\<forall>n \<in> set counts. n \<le> 2 ^ 43"
  shows "\<exists>s. NewMemory (map WithShardCount counts) = Some s \<and> store_inv H s \<and> contents s = (\<lambda>_. Map.empty)"
proof -
  let ?s = "fold (\<lambda>opt s. opt s) (map WithShardCount counts) emptyMemory"
  have "sizes_ok emptyMemory"
    by (auto simp: sizes_ok_def emptyMemory_def mask_eq_exp_minus_1 intro!: exI [of _ 6])
  then have s: "sizes_ok ?s" "databases ?s = []" "currentDB ?s = 0"
    using fold_WithShardCount [OF assms, of emptyMemory] by (simp_all add: emptyMemory_def)
  note new = newShardedDatabase_ok [OF s(1)]
  define t where "t = ?s\<lparr>databases := [(0, replicate (nat (shards ?s)) [])]\<rparr>"
  have "NewMemory (map WithShardCount counts) = Some t"
    using new(1) s(2) by (simp add: NewMemory_def t_def Let_def)
  moreover have "db_ok H t = db_ok H ?s" by (intro ext db_ok_cong) (simp_all add: t_def)
  then have "store_inv H t" using s new(2) [of H] by (simp add: store_inv_def sizes_ok_def t_def)
  moreover have "contents t = (\<lambda>_. Map.empty)" using new(3) by (auto simp: contents_def t_def fun_eq_iff)
  ultimately show ?thesis by blast
qed

section \<open>Reachable stores\<close>

text \<open>One operation, with any arguments, any map order and any clock reading, or one cleanup tick.\<close>

inductive store_step :: "hash \<Rightarrow> memstore \<Rightarrow> memstore \<Rightarrow> bool" for H where
  get: "Get H now key s = Some (r, s') \<Longrightarrow> store_step H s s'"
| set: "Set H ord now key value expiry s = Some s' \<Longrightarrow> store_step H s s'"
| del: "Del H dord keys s = Some (n, s') \<Longrightarrow> store_step H s s'"
| expire: "Expire H now key expiry' s = Some (b, s') \<Longrightarrow> store_step H s s'"
| flush: "FlushAll s = Some s' \<Longrightarrow> store_step H s s'"
| select: "SelectDB d s = Some (res, s') \<Longrightarrow> store_step H s s'"
| evict: "EvictLRU ord cnt s = Some (n, s') \<Longrightarrow> store_step H s s'"
| close: "Close s = Some s' \<Longrightarrow> store_step H s s'"
| limit: "store_step H s (SetMemoryLimit limit s)"
| observe: "store_step H s (AddObserver ob s)"
| configure: "store_step H s (SetCleanupConfig config s)"
| tick: "performCleanup dbord cord rng now s = Some s' \<Longrightarrow> store_step H s s'"

inductive store_reachable :: "hash \<Rightarrow> memstore \<Rightarrow> bool" for H where
  new: "\<forall>n \<in> set counts. n \<le> 2 ^ 43 \<Longrightarrow> NewMemory (map WithShardCount counts) = Some s \<Longrightarrow> store_reachable H s"
| step: "store_reachable H s \<Longrightarrow> store_step H s s' \<Longrightarrow> store_reachable H s'"

text \<open>
  The invariant survives a cleanup whatever its configuration: the batches it completes only delete
  keys, and a cleanup that panics or hangs produces no state.
\<close>

lemma batched_returns:
  assumes "deleteExpiredKeysInShardBatched now d i keys batch pos s = Some s'"
  shows "0 \<le> pos \<and> pos < int (length keys) \<longrightarrow> 0 < batch"
proof (rule deleteExpiredKeysInShardBatched.raw_induct
    [where P = "\<lambda>now d i keys batch pos s y. 0 \<le> pos \<and> pos < int (length keys) \<longrightarrow> 0 < batch", OF _ assms], rule impI)
  fix f and now d batch pos :: int and i and keys :: "string list" and s s'
  assume IH: "\<And>now d i keys batch pos s y. f now d i keys batch pos s = Some y \<Longrightarrow>
      0 \<le> pos \<and> pos < int (length keys) \<longrightarrow> 0 < batch"
    and body: "(if pos < int (length keys) then
        let stop = if pos + batch > int (length keys) then int (length keys) else pos + batch
        in if stop < pos then None
           else Option.bind (deleteKeyBatchInShard now d i (take (nat (stop - pos)) (drop (nat pos) keys)) s)
             (f now d i keys batch (pos + batch))
      else Some s) = Some s'"
    and pos: "0 \<le> pos \<and> pos < int (length keys)"
  have "\<not> batch < 0" using body pos by (auto simp: Let_def split: if_splits)
  moreover have "batch \<noteq> 0"
  proof
    assume "batch = 0"
    with body pos obtain s1 where "f now d i keys batch (pos + batch) s1 = Some s'"
      by (auto simp: Let_def split: bind_splits)
    from IH [OF this] pos \<open>batch = 0\<close> show False by simp
  qed
  ultimately show "0 < batch" by simp
qed

lemma sampled_expired:
  assumes "sampleAndFindExpiredInShard ord rng now n sh = Some ks" and "k \<in> set ks"
  shows "\<exists>v. map_of sh k = Some v \<and> IsExpired now v"
  using assms
  by (auto simp: sampleAndFindExpiredInShard_def Let_def split: if_splits bind_splits option.splits)

lemma cleanupShard_purged:
  "store_inv H s \<Longrightarrow> cleanupShard ord rng now c d i n s = Some s' \<Longrightarrow> purged H now s s'"
proof (induction n arbitrary: s)
  case 0
  then show ?case by (simp add: purged_refl)
next
  case (Suc n)
  from Suc.prems(2) obtain db sh ks where db: "map_of (databases s) d = Some db" "shardAt db i = Some sh"
      "sampleAndFindExpiredInShard (ord n) (rng n) now (SampleSize c) sh = Some ks"
    by (auto split: bind_splits)
  have i: "i < length db" "sh = db ! i" using db(2) by (auto simp: shardAt_def split: if_splits)
  have hash: "keyHash H s k = i" if "k \<in> set ks" for k
    using sampled_expired [OF db(3) that] shard_ok_nth [OF store_inv_db(1) [OF Suc.prems(1) db(1)] i(1)] map_of_SomeD
    by (fastforce simp: shard_ok_def keysOf_def i(2))
  show ?case
  proof (cases "ks = []")
    case True
    with Suc.prems db show ?thesis by (simp add: purged_refl)
  next
    case False
    with Suc.prems(2) db obtain s1 where
      del: "deleteExpiredKeysInShardBatched now d i ks (BatchSize c) 0 s = Some s1" and
      rest: "(if float64 (float64 (of_nat (length ks)) / float64 (of_int (SampleSize c))) < ExpiredThreshold c then Some s1
              else cleanupShard ord rng now c d i n s1) = Some s'"
      by (auto split: bind_splits)
    have "0 < BatchSize c" using batched_returns [OF del] False by simp
    then obtain s1' where "deleteExpiredKeysInShardBatched now d i ks (BatchSize c) 0 s = Some s1'"
        "purged H now s s1'"
      using batched_spec [OF Suc.prems(1) _ hash, of d ks "BatchSize c" 0 now] db(1) purged_purge by force
    with del have pur: "purged H now s s1" by simp
    then have "store_inv H s1" by (simp add: purged_def)
    with rest Suc.IH [of s1] pur purged_trans [OF pur] show ?thesis by (auto split: if_splits)
  qed
qed

lemma cleanupShards_purged:
  "store_inv H s \<Longrightarrow> cleanupShards ord rng now c d is s = Some s' \<Longrightarrow> purged H now s s'"
proof (induction "is" arbitrary: s)
  case (Cons i "is")
  then obtain s1 where "cleanupShard (ord i) (rng i) now c d i (nat (MaxRounds c)) s = Some s1"
      "cleanupShards ord rng now c d is s1 = Some s'" by (auto split: bind_splits)
  with Cons show ?case using cleanupShard_purged purged_trans by (metis purged_def)
qed (simp add: purged_refl)

lemma cleanupDatabases_purged:
  "store_inv H s \<Longrightarrow> cleanupDatabases ord rng now c ds s = Some s' \<Longrightarrow> purged H now s s'"
proof (induction ds arbitrary: s)
  case (Cons d ds)
  then obtain s1 where "cleanupDatabase (ord d) (rng d) now c d s = Some s1"
      "cleanupDatabases ord rng now c ds s1 = Some s'" by (auto split: bind_splits)
  with Cons show ?case
    using cleanupShards_purged purged_trans unfolding cleanupDatabase_def by (metis purged_def)
qed (simp add: purged_refl)

lemma store_step_inv:
  assumes "store_step H s s'" and inv: "store_inv H s"
  shows "store_inv H s'"
  using assms(1)
proof cases
  case (get now key r)
  with Get_spec [OF inv, of now key] show ?thesis by auto
next
  case (set ord now key "value" expiry)
  with Set_spec [OF inv, of ord now key "value" expiry] show ?thesis by (auto simp: removed_def)
next
  case (del dord keys n)
  with Del_spec [OF inv, of dord keys] show ?thesis by auto
next
  case (expire now key expiry' b)
  with Expire_spec [OF inv, of now key expiry'] show ?thesis by auto
next
  case flush
  with FlushAll_spec [OF inv] show ?thesis by auto
next
  case (select d res)
  with SelectDB_spec [OF inv, of d] SelectDB_invalid [of d s] inv show ?thesis
    by (cases "0 \<le> d \<and> d \<le> 15") auto
next
  case (evict ord cnt n)
  with evictLRU_spec [OF inv, of ord cnt] show ?thesis by (auto simp: EvictLRU_def removed_def)
next
  case close
  then show ?thesis using inv store_inv_cong [of s' s H] by (auto simp: Close_def split: if_splits)
next
  case (limit limit)
  then show ?thesis using inv store_inv_cong [of s' s H] by (simp add: SetMemoryLimit_def)
next
  case (observe ob)
  then show ?thesis using inv store_inv_cong [of s' s H] by (simp add: AddObserver_def)
next
  case (configure config)
  then show ?thesis using inv store_inv_cong [of s' s H] by (simp add: SetCleanupConfig_def)
next
  case (tick dbord cord rng now)
  with cleanupDatabases_purged [OF inv] show ?thesis by (auto simp: performCleanup_def purged_def)
qed

lemma reachable_inv: "store_reachable H s \<Longrightarrow> store_inv H s"
proof (induction rule: store_reachable.induct)
  case (new counts s)
  then show ?case using NewMemory_spec [of counts H] by auto
qed (rule store_step_inv)

end
