(* ===== verification/Store_Scan.thy ===== *)
theory Store_Scan
  imports Store_Safety
begin

text \<open>
  Cursor iteration with \<^verbatim>\<open>Scan\<close>. One call returns a page of the walk over the shards; a client calls it again
  with the cursor it got until that is 0.
\<close>

text \<open>An entry \<^verbatim>\<open>Scan\<close> may return.\<close>

definition hits :: "MatchingConfig \<Rightarrow> int \<Rightarrow> string \<Rightarrow> string \<times> svalue \<Rightarrow> bool" where
  "hits cfg now pat e \<longleftrightarrow> \<not> IsExpired now (snd e) \<and> (pat = [] \<or> matchPattern cfg (fst e) pat)"

definition page :: "MatchingConfig \<Rightarrow> int \<Rightarrow> nat \<Rightarrow> string \<Rightarrow> nat \<Rightarrow> shard \<Rightarrow> int \<times> string list" where
  "page cfg now c pat n E =
     (let A = map fst (filter (hits cfg now pat) (drop c E))
      in if n \<le> length A then (int (c + n), take n A) else (0, A))"

lemma scanShards_flat:
  "scanShards cfg now c pat n shs i keys =
     (case scanShard cfg now c pat n (concat shs) i keys of Inl r \<Rightarrow> r | Inr (i, keys) \<Rightarrow> (0, keys))"
proof -
  have app: "scanShard cfg now c pat n (xs @ ys) i keys =
      (case scanShard cfg now c pat n xs i keys of Inl r \<Rightarrow> Inl r
       | Inr (i, keys) \<Rightarrow> scanShard cfg now c pat n ys i keys)" for xs ys i keys
    by (induction cfg now c pat n xs i keys rule: scanShard.induct) (auto simp: Let_def)
  show ?thesis
    by (induction shs arbitrary: i keys) (auto simp: app split: sum.split)
qed

lemma scanShard_skip:
  "int (length xs) + i \<le> c \<Longrightarrow> scanShard cfg now c pat n (xs @ ys) i keys =
     scanShard cfg now c pat n ys (i + int (length xs)) keys"
  by (induction xs arbitrary: i) (auto simp: algebra_simps)

lemma scanShard_collect:
  assumes "c \<le> i" and "length keys < n"
  shows "scanShard cfg now c pat (int n) E i keys =
    (let A = map fst (filter (hits cfg now pat) E); m = n - length keys
     in if m \<le> length A then Inl (i + int m, keys @ take m A) else Inr (i + int (length A), keys @ A))"
  using assms
proof (induction E arbitrary: i keys)
  case (Cons e E)
  obtain k v where e: "e = (k, v)" by (cases e)
  show ?case
  proof (cases "hits cfg now pat e")
    case False
    with Cons show ?thesis by (auto simp: e hits_def)
  next
    case True
    show ?thesis
    proof (cases "Suc (length keys) = n")
      case True
      with \<open>hits cfg now pat e\<close> Cons.prems show ?thesis
        by (auto simp: e hits_def Let_def Suc_diff_le)
    next
      case False
      with Cons.prems have len: "length (keys @ [k]) < n" "\<not> int n \<le> int (length keys) + 1" by auto
      have "scanShard cfg now c pat (int n) (e # E) i keys = scanShard cfg now c pat (int n) E (i + 1) (keys @ [k])"
        using True Cons.prems(1) len(2) by (auto simp: e hits_def)
      also have "\<dots> = (let A = map fst (filter (hits cfg now pat) E); m = n - length (keys @ [k])
          in if m \<le> length A then Inl (i + 1 + int m, (keys @ [k]) @ take m A)
             else Inr (i + 1 + int (length A), (keys @ [k]) @ A))"
        using Cons.prems(1) len(1) by (intro Cons.IH) simp_all
      also have "\<dots> = (let A = map fst (filter (hits cfg now pat) (e # E)); m = n - length keys
          in if m \<le> length A then Inl (i + int m, keys @ take m A) else Inr (i + int (length A), keys @ A))"
      proof -
        obtain m where m: "n - length keys = Suc m" "n - length (keys @ [k]) = m"
          using len(1) by (cases "n - length keys") auto
        show ?thesis unfolding m Let_def using True e by simp
      qed
      finally show ?thesis .
    qed
  qed
qed simp

lemma scan_page:
  assumes "0 < n"
  shows "scanShards cfg now (int c) pat (int n) shs 0 [] = page cfg now c pat n (concat shs)"
proof -
  let ?E = "concat shs"
  have "scanShard cfg now (int c) pat (int n) ?E 0 [] =
      (let A = map fst (filter (hits cfg now pat) (drop c ?E))
       in if n \<le> length A then Inl (int (c + n), take n A) else Inr (int (min c (length ?E)) + int (length A), A))"
  proof (cases "c \<le> length ?E")
    case True
    then have "scanShard cfg now (int c) pat (int n) (take c ?E @ drop c ?E) 0 [] =
        scanShard cfg now (int c) pat (int n) (drop c ?E) (int c) []"
      using scanShard_skip [of "take c ?E" 0 "int c" cfg now pat "int n" "drop c ?E" "[]"] by simp
    with scanShard_collect [of "int c" "int c" "[]" n cfg now pat "drop c ?E"] assms True show ?thesis
      by (simp add: Let_def)
  next
    case False
    then show ?thesis
      using scanShard_skip [of ?E 0 "int c" cfg now pat "int n" "[]" "[]"] assms by (simp add: Let_def)
  qed
  then show ?thesis by (simp add: scanShards_flat page_def Let_def)
qed

text \<open>A client's loop over the pages, with a bound on the number of calls.\<close>

fun scanAll :: "(int \<Rightarrow> (int \<times> string list) option) \<Rightarrow> nat \<Rightarrow> int \<Rightarrow> string list option" where
  "scanAll scan 0 cursor = None"
| "scanAll scan (Suc fuel) cursor = (case scan cursor of
     None \<Rightarrow> None
   | Some (next, keys) \<Rightarrow>
       (if next = 0 then Some keys else map_option (\<lambda>ks. keys @ ks) (scanAll scan fuel next)))"

text \<open>What the page does not show, the rest of the walk does.\<close>

lemma page_covers:
  assumes "n \<le> length (filter P (drop c E))"
  shows "set (filter P (drop c E)) \<subseteq> set (take n (filter P (drop c E))) \<union> set (filter P (drop (c + n) E))"
proof -
  have "drop c E = take n (drop c E) @ drop (c + n) E"
    by (metis add.commute append_take_drop_id drop_drop)
  then have split: "filter P (drop c E) = filter P (take n (drop c E)) @ filter P (drop (c + n) E)"
    by (metis filter_append)
  have "length (filter P (take n (drop c E))) \<le> n"
    by (metis length_filter_le length_take min.bounded_iff)
  with split have "set (filter P (take n (drop c E))) \<subseteq> set (take n (filter P (drop c E)))"
    by (metis set_append take_all take_append Un_upper1)
  with split show ?thesis by auto
qed

lemma scanAll_pages:
  assumes "0 < n" and scan: "\<And>c. scan (int c) = Some (page cfg now c pat n E)"
  shows "length E - c < fuel \<Longrightarrow>
    \<exists>ks. scanAll scan fuel (int c) = Some ks \<and> set ks = fst ` set (filter (hits cfg now pat) (drop c E)) \<and>
      ((\<forall>e \<in> set E. hits cfg now pat e) \<longrightarrow> ks = map fst (drop c E))"
proof (induction fuel arbitrary: c)
  case (Suc fuel)
  let ?A = "filter (hits cfg now pat) (drop c E)"
  have all: "?A = drop c E" if "\<forall>e \<in> set E. hits cfg now pat e"
    using that by (intro filter_True) (meson in_set_dropD)
  show ?case
  proof (cases "n \<le> length ?A")
    case False
    then show ?thesis using all by (auto simp: scan page_def Let_def)
  next
    case True
    have "c < length E"
    proof (rule ccontr)
      assume "\<not> c < length E"
      then have "?A = []" by simp
      with True assms(1) show False by simp
    qed
    with Suc.prems assms(1) have "length E - (c + n) < fuel" by simp
    then obtain ks where ks: "scanAll scan fuel (int (c + n)) = Some ks"
        "set ks = fst ` set (filter (hits cfg now pat) (drop (c + n) E))"
        "(\<forall>e \<in> set E. hits cfg now pat e) \<longrightarrow> ks = map fst (drop (c + n) E)"
      using Suc.IH by blast
    have page: "scan (int c) = Some (int (c + n), map fst (take n ?A))"
      using True by (simp add: scan page_def Let_def take_map)
    have "set (filter (hits cfg now pat) (drop (c + n) E)) \<subseteq> set ?A"
      using set_drop_subset_set_drop [of c "c + n" E] by auto
    then have "set (take n ?A) \<union> set (filter (hits cfg now pat) (drop (c + n) E)) = set ?A"
      using page_covers [OF True] set_take_subset [of n ?A] by blast
    then have "set (map fst (take n ?A) @ ks) = fst ` set ?A"
      unfolding set_append set_map ks(2) image_Un [symmetric] by simp
    moreover have "map fst (take n ?A) @ ks = map fst (drop c E)" if "\<forall>e \<in> set E. hits cfg now pat e"
    proof -
      have "take n (drop c E) @ drop (c + n) E = drop c E"
        using append_take_drop_id [of n "drop c E"] by (simp add: add.commute)
      with that all ks(3) show ?thesis by (simp only: map_append [symmetric])
    qed
    moreover have "scanAll scan (Suc fuel) (int c) = Some (map fst (take n ?A) @ ks)"
      using page ks(1) assms(1) by simp
    ultimately show ?thesis by blast
  qed
qed simp

text \<open>One call of \<^verbatim>\<open>Scan\<close> on a well-formed store.\<close>

lemma Scan_spec:
  assumes "store_inv H s" and "0 < n" and "n \<le> 2 ^ 44"
  shows "\<exists>db. currentDatabase s = Some db \<and> db_ok H s db \<and>
    (\<forall>c. Scan cfg ord now (int c) pat (int n) s = Some (page cfg now c pat n (concat (walk ord 0 db))))"
  using assms(1)
proof (cases rule: store_inv_current)
  case (1 db)
  have "makeSlice 16 (int n) = Some ()" using assms(3) by (simp add: makeSlice_def maxAlloc_def)
  with 1 scan_page [OF assms(2), of cfg now _ pat "walk ord 0 db"] show ?thesis
    by (simp add: Scan_def allShards_ok walk_def)
qed

lemma scan_iteration:
  assumes inv: "store_inv H s" and n: "0 < n" "n \<le> 2 ^ 44"
    and fuel: "card (dom (contents s (currentDB s))) < fuel"
  shows "\<exists>ks. scanAll (\<lambda>cursor. Scan cfg ord now cursor pat (int n) s) fuel 0 = Some ks \<and>
    set ks = {k. live now s (currentDB s) k \<noteq> None \<and> (pat = [] \<or> matchPattern cfg k pat)} \<and>
    (pat = [] \<and> live now s (currentDB s) = contents s (currentDB s) \<longrightarrow> distinct ks)"
proof -
  obtain db where db: "currentDatabase s = Some db" "db_ok H s db" and
    scan: "\<And>c. Scan cfg ord now (int c) pat (int n) s = Some (page cfg now c pat n (concat (walk ord 0 db)))"
    using Scan_spec [OF inv n, of cfg ord now pat] by blast
  define E where "E = concat (walk ord 0 db)"
  have cont: "contents s (currentDB s) = dbMap db"
    using db(1) by (simp add: contents_def currentDatabase_def)
  have E: "distinct (keysOf E)" "set E = set (concat db)" using walk_ok [OF db(2)] by (simp_all add: E_def)
  have "length E = length (concat db)"
    using mset_eq_length [OF walk_keys [of ord 0 db]] by (simp add: E_def keysOf_def)
  then have "length E - 0 < fuel" using fuel card_dbMap [OF db(2)] cont by simp
  from scanAll_pages [OF n(1) scan [folded E_def] this] obtain ks where ks:
    "scanAll (\<lambda>cursor. Scan cfg ord now cursor pat (int n) s) fuel (int 0) = Some ks"
    "set ks = fst ` set (filter (hits cfg now pat) (drop 0 E))"
    "(\<forall>e \<in> set E. hits cfg now pat e) \<longrightarrow> ks = map fst (drop 0 E)"
    by blast
  have mem: "(k, v) \<in> set E \<longleftrightarrow> contents s (currentDB s) k = Some v" for k v
    by (simp only: E(2) dbMap_iff [OF db(2), symmetric] cont)
  have "set ks = {k. live now s (currentDB s) k \<noteq> None \<and> (pat = [] \<or> matchPattern cfg k pat)}"
  proof -
    have "k \<in> set ks \<longleftrightarrow> (\<exists>v. contents s (currentDB s) k = Some v \<and> hits cfg now pat (k, v))" for k
      unfolding ks(2) mem [symmetric] by force
    then show ?thesis by (auto simp: live_def hits_def split: option.splits if_splits)
  qed
  moreover have "distinct ks" if "pat = []" "live now s (currentDB s) = contents s (currentDB s)"
  proof -
    have "hits cfg now pat e" if "e \<in> set E" for e
      using \<open>live _ _ _ = _\<close> mem [of "fst e" "snd e"] that \<open>pat = []\<close>
      by (auto simp: hits_def live_def fun_eq_iff split: option.splits if_splits dest: spec [of _ "fst e"])
    with ks(3) E(1) show ?thesis by (simp add: keysOf_def)
  qed
  ultimately show ?thesis using ks(1) by auto
qed

end
