(* ===== verification/Store_Properties.thy ===== *)
theory Store_Properties
  imports Store_Scan
begin

text \<open>
  The properties of the storage engine, each with an instance on a small store. They hold for every hash
  function, every map order and every outcome of the random generator.
\<close>

section \<open>A small store for the instances\<close>

text \<open>One shard with two keys; \<open>b\<close> expires at time 5. With mask 0 every hash selects shard 0.\<close>

definition demo :: memstore where
  "demo = \<lparr>databases = [(0, [[(''a'', stored 0 ''1'' None), (''b'', stored 0 ''2'' (Some 5))]])],
     currentDB = 0, shards = 1, shardMask = 0, memoryLimit = 0, observers = [],
     cleanupConfig = CleanupConfigDefault, closed = False, notified = []\<rparr>"

lemma demo_inv: "store_inv H demo"
  by (auto simp: store_inv_def sizes_ok_def demo_def db_ok_def shard_ok_def keysOf_def keyHash_def
      intro!: exI [of _ 0])

lemma demo_contents:
  "contents demo 0 = [''a'' \<mapsto> stored 0 ''1'' None, ''b'' \<mapsto> stored 0 ''2'' (Some 5)]"
  by (auto simp: contents_def demo_def dbMap_def fun_eq_iff)

lemma demo_setup [simp]: "currentDB demo = 0" "memoryLimit demo = 0" "cleanupConfig demo = CleanupConfigDefault"
  by (simp_all add: demo_def)

section \<open>Safety\<close>



section \<open>Reading and writing\<close>

text \<open>
  Claim C4: without a memory limit, \<^verbatim>\<open>Set\<close> stores the value so that \<^verbatim>\<open>Get\<close> returns it at every time up to
  the expiry and nothing after it, and no other key of any database changes.
\<close>

theorem Set_then_Get:
  assumes "store_inv H s" and "memoryLimit s \<le> 0"
  shows "\<exists>s'. Set H ord now key value expiry s = Some s' \<and> store_inv H s' \<and>
    map_option fst (Get H later key s') =
      Some (if (case expiry of None \<Rightarrow> True | Some e \<Rightarrow> later \<le> e) then Some value else None) \<and>
    (\<forall>d k. (d, k) \<noteq> (currentDB s, key) \<longrightarrow> live later s' d k = live later s d k)"
proof -
  let ?s' = "setStep H now key value expiry s"
  note step = setStep_spec [OF assms(1), of now key "value" expiry]
  have "currentDB ?s' = currentDB s" using step(2) by (simp add: same_setup_def)
  then have "Option.bind (live later ?s' (currentDB ?s') key) stringData =
      (if (case expiry of None \<Rightarrow> True | Some e \<Rightarrow> later \<le> e) then Some value else None)"
    unfolding live_def step(3)
    by (auto simp: upd_apply stored_def stringData_def IsExpired_def split: option.splits)
  moreover have "\<forall>d k. (d, k) \<noteq> (currentDB s, key) \<longrightarrow> live later ?s' d k = live later s d k"
    unfolding live_def step(3) by (auto simp: upd_apply)
  ultimately show ?thesis
    using Set_unlimited [OF assms] step(1) Get_spec [OF step(1), of later key] by (intro exI [of _ ?s']) auto
qed

theorem Set_then_Get_witness:
  "\<exists>s'. Set (\<lambda>_. 0) (\<lambda>_ _. id) 1 ''c'' ''3'' (Some 9) demo = Some s' \<and>
     map_option fst (Get (\<lambda>_. 0) 9 ''c'' s') = Some (Some ''3'')"
  using Set_then_Get [OF demo_inv, of "\<lambda>_. 0" "\<lambda>_ _. id" 1 "''c''" "''3''" "Some 9" 9] by auto

text \<open>
  With a memory limit, \<^verbatim>\<open>Set\<close> still stores the value and then drops at most one key of the
  current database, and only when the accounted memory exceeds the limit.
\<close>

theorem Set_limited:
  assumes "store_inv H s"
  shows "\<exists>s' K. Set H ord now key value expiry s = Some s' \<and> store_inv H s' \<and> card K \<le> 1 \<and>
    contents s' = without (currentDB s) K (upd (currentDB s) key (Some (stored now value expiry)) (contents s))"
proof -
  note step = setStep_spec [OF assms, of now key "value" expiry]
  have "currentDB (setStep H now key value expiry s) = currentDB s" using step(2) by (simp add: same_setup_def)
  with Set_spec [OF assms, of ord now key "value" expiry] step(3) show ?thesis by (auto simp: removed_def)
qed

theorem Set_limited_witness:
  "\<exists>s' K. Set (\<lambda>_. 0) (\<lambda>_ _. id) 1 ''c'' ''3'' None demo = Some s' \<and> card (K :: string set) \<le> 1"
  using Set_limited [OF demo_inv, of "\<lambda>_. 0" "\<lambda>_ _. id" 1 "''c''" "''3''" None] by blast

text \<open>
  The key dropped may be the one just written: the eviction takes the first key of a shard in
  map order, not the least recently used one. Here a store with room for one key loses the new key while
  the old one stays.
\<close>

theorem Set_may_evict_the_new_key:
  "case Set (\<lambda>_. 0) (\<lambda>_ _. rev) 7 ''new'' ''v'' None
        (SetMemoryLimit 80 (demo\<lparr>databases := [(0, [[(''old'', stored 0 ''1'' None)]])]\<rparr>)) of
     None \<Rightarrow> False
   | Some s' \<Rightarrow> map_option fst (Get (\<lambda>_. 0) 7 ''new'' s') = Some None \<and>
       map_option fst (Get (\<lambda>_. 0) 7 ''old'' s') = Some (Some ''1'')"
  by code_simp

text \<open>
  Claim C22: \<^verbatim>\<open>Del\<close> removes exactly the keys named and returns how many different ones were there (expired
  but not yet removed keys count), whatever order the shards are visited in.
\<close>

theorem Del_exact:
  assumes "store_inv H s"
  shows "\<exists>s'. Del H ord keys s = Some (int (card (set keys \<inter> dom (contents s (currentDB s)))), s') \<and>
    store_inv H s' \<and>
    (\<forall>d k. contents s' d k = (if d = currentDB s \<and> k \<in> set keys then None else contents s d k))"
  using Del_spec [OF assms, of ord keys] by (auto simp: without_apply)

theorem Del_exact_witness:
  "\<exists>s'. Del (\<lambda>_. 0) id [''a'', ''x'', ''a''] demo = Some (1, s') \<and> contents s' 0 ''a'' = None"
  using Del_exact [OF demo_inv, of "\<lambda>_. 0" id "[''a'', ''x'', ''a'']"]
  by (auto simp: demo_contents insert_commute Int_insert_left)

text \<open>
  \<^verbatim>\<open>Exists\<close> counts the arguments that name a live key, with repetition.
\<close>

theorem Exists_counts:
  assumes "store_inv H s"
  shows "Exists H ord now keys s =
    Some (int (length (filter (\<lambda>k. live now s (currentDB s) k \<noteq> None) keys)))"
  by (rule Exists_spec [OF assms])

theorem Exists_counts_witness: "Exists (\<lambda>_. 0) id 6 [''a'', ''b'', ''a''] demo = Some 2"
  using Exists_counts [OF demo_inv, of "\<lambda>_. 0" id 6 "[''a'', ''b'', ''a'']"]
  by (simp add: live_def demo_contents stored_def IsExpired_def)

text \<open>
  Claim C23: \<^verbatim>\<open>Keys\<close> lists every live key that matches the pattern, each once.
\<close>

theorem Keys_complete:
  assumes "store_inv H s"
  shows "\<exists>ks. Keys cfg ord now pat s = Some ks \<and> distinct ks \<and>
    set ks = {k. live now s (currentDB s) k \<noteq> None \<and> (pat = [] \<or> pat = ''*'' \<or> matchPattern cfg k pat)}"
  using Keys_spec [OF assms, of cfg ord now pat] by (simp add: wanted_def)

theorem Keys_complete_witness:
  "\<exists>ks. Keys globalMatchingConfig (\<lambda>_. rev) 6 ''*'' demo = Some ks \<and> set ks = {''a''}"
proof -
  have "{k. live 6 demo 0 k \<noteq> None} = {''a''}"
    by (auto simp: live_def demo_contents stored_def IsExpired_def split: option.splits if_splits)
  with Keys_complete [OF demo_inv, of globalMatchingConfig "\<lambda>_. rev" 6 "''*''"] show ?thesis by auto
qed

section \<open>Expiry\<close>

text \<open>
  Claim C29: \<^verbatim>\<open>Expire\<close> on a live key succeeds; from then on \<^verbatim>\<open>TTL\<close> and \<^verbatim>\<open>PTTL\<close> report the time left up to the
  deadline and the key is gone for every reader after it, the other keys being untouched.
\<close>

theorem Expire_sets_deadline:
  assumes "store_inv H s" and "live now s (currentDB s) key \<noteq> None"
  shows "\<exists>s'. Expire H now key e s = Some (True, s') \<and> store_inv H s' \<and>
    (later \<le> e \<longrightarrow> TTL H later key s' = Some (Until later e) \<and> PTTL H later key s' = Some (Until later e)) \<and>
    (e < later \<longrightarrow> map_option fst (Get H later key s') = Some None \<and> TTL H later key s' = Some (- 2 * Second)) \<and>
    (\<forall>d k. (d, k) \<noteq> (currentDB s, key) \<longrightarrow> contents s' d k = contents s d k)"
proof -
  obtain v where v: "live now s (currentDB s) key = Some v" using assms(2) by blast
  with Expire_spec [OF assms(1), of now key e] obtain s' where s': "Expire H now key e s = Some (True, s')"
    "store_inv H s'" "same_setup s s'" "contents s' = upd (currentDB s) key (Some (v\<lparr>valExpiry := Some e\<rparr>)) (contents s)"
    by auto
  have live: "live later s' (currentDB s') key = (if e < later then None else Some (v\<lparr>valExpiry := Some e\<rparr>))"
    using s'(3,4) by (simp add: live_def upd_apply same_setup_def IsExpired_def)
  then have "later \<le> e \<longrightarrow> TTL H later key s' = Some (Until later e) \<and> PTTL H later key s' = Some (Until later e)"
    by (simp add: TTL_def PTTL_def ttlIn_spec [OF s'(2)])
  moreover have "e < later \<longrightarrow> map_option fst (Get H later key s') = Some None \<and> TTL H later key s' = Some (- 2 * Second)"
    using live Get_spec [OF s'(2), of later key] by (auto simp: TTL_def ttlIn_spec [OF s'(2)])
  ultimately show ?thesis using s' by (auto simp: upd_apply)
qed

theorem Expire_sets_deadline_witness:
  "\<exists>s'. Expire (\<lambda>_. 0) 1 ''a'' 4 demo = Some (True, s') \<and> TTL (\<lambda>_. 0) 3 ''a'' s' = Some (Until 3 4)"
  using Expire_sets_deadline [OF demo_inv, of 1 "''a''" "\<lambda>_. 0" 4 3]
  by (auto simp: live_def demo_contents stored_def IsExpired_def)

text \<open>
  Claim C26: the background cleanup returns under every configuration with a positive batch size and a
  sample size between 0 and 2^44; it removes expired keys only, so that no reader sees a difference, and
  when every shard fits into one sample it leaves no expired key behind.
\<close>

theorem cleanup_invisible_and_thorough:
  assumes "store_inv H s" and "config_ok (cleanupConfig s)"
  shows "\<exists>s'. performCleanup dbord ord rng now s = Some s' \<and> store_inv H s' \<and> live now s' = live now s \<and>
    (0 < MaxRounds (cleanupConfig s) \<and> (\<forall>d i. int (shardSize H s d i) \<le> SampleSize (cleanupConfig s)) \<longrightarrow>
       (\<forall>d k v. contents s' d k = Some v \<longrightarrow> \<not> IsExpired now v))"
  using performCleanup_spec [OF assms, of dbord ord rng now] purged_live by (auto simp: purged_def)

theorem cleanup_invisible_and_thorough_witness:
  "\<exists>s'. performCleanup id (\<lambda>_ _ _. id) (\<lambda>_ _ _ _. 0) 6 demo = Some s' \<and> live 6 s' = live 6 demo"
  using cleanup_invisible_and_thorough [OF demo_inv [of "\<lambda>_. 0"], of id "\<lambda>_ _ _. id" "\<lambda>_ _ _ _. 0" 6]
  by (auto simp: config_ok_def CleanupConfigDefault_def)

text \<open>
  \<^verbatim>\<open>SetCleanupConfig\<close> accepts any configuration, and with a batch size of zero or less the deletion
  of a non-empty list of expired keys never returns.
\<close>

theorem cleanup_hangs_without_batches:
  assumes "batch \<le> 0" and "keys \<noteq> []"
  shows "deleteExpiredKeysInShardBatched now d i keys batch 0 s = None"
proof (cases "deleteExpiredKeysInShardBatched now d i keys batch 0 s")
  case (Some s')
  from batched_returns [OF this] assms show ?thesis by simp
qed

theorem cleanup_hangs_without_batches_witness:
  "deleteExpiredKeysInShardBatched 6 0 0 [''b''] (BatchSize (CleanupConfigDefault\<lparr>BatchSize := 0\<rparr>)) 0 demo = None"
  by (rule cleanup_hangs_without_batches) simp_all

section \<open>Eviction and iteration\<close>

text \<open>
  Claim C27: \<^verbatim>\<open>EvictLRU\<close> evicts exactly as many keys of the current database as asked for, or all of them
  when there are fewer, and returns that number; the loop over rounds always ends.
\<close>

theorem EvictLRU_exact:
  assumes "store_inv H s"
  shows "\<exists>s' K. EvictLRU ord cnt s = Some (int (card K), s') \<and> store_inv H s' \<and>
    K \<subseteq> dom (contents s (currentDB s)) \<and>
    int (card K) = max 0 (min cnt (int (card (dom (contents s (currentDB s)))))) \<and>
    (\<forall>d k. contents s' d k = (if d = currentDB s \<and> k \<in> K then None else contents s d k))"
proof -
  obtain s' K where "evictLRU ord cnt s = Some (int (card K), s')" "removed H s s' K"
    "int (card K) = max 0 (min cnt (int (card (dom (contents s (currentDB s))))))"
    using evictLRU_spec [OF assms, of ord cnt] by blast
  then show ?thesis
    by (intro exI [of _ s'] exI [of _ K]) (simp add: EvictLRU_def removed_def without_apply)
qed

theorem EvictLRU_exact_witness:
  "\<exists>s'. EvictLRU (\<lambda>_ _. rev) 5 demo = Some (2, s')"
proof -
  have "card (dom (contents demo 0)) = 2" by (simp add: demo_contents card_insert_if)
  with EvictLRU_exact [OF demo_inv [of "\<lambda>_. 0"], of "\<lambda>_ _. rev" 5] show ?thesis by force
qed



text \<open>
  Go changes the order from one iteration to the next, and then a key that is there all the
  time can be missed: with two keys and pages of one, key \<open>b\<close> is on none of the pages.
\<close>

theorem scan_misses_a_key:
  "Scan globalMatchingConfig (\<lambda>_. id) 1 0 [] 1 demo = Some (1, [''a'']) \<and>
   Scan globalMatchingConfig (\<lambda>_. rev) 1 1 [] 1 demo = Some (2, [''a'']) \<and>
   Scan globalMatchingConfig (\<lambda>_. id) 1 2 [] 1 demo = Some (0, []) \<and>
   live 1 demo 0 ''b'' \<noteq> None"
  by code_simp

text \<open>
  The count a client sends with \<^verbatim>\<open>SCAN\<close> is used as the capacity of the result, so a negative count or
  one above 2^44 makes the call panic.
\<close>

theorem Scan_count_panics:
  assumes "store_inv H s" and "n < 0 \<or> 2 ^ 44 < n"
  shows "Scan cfg ord now cursor pat n s = None"
proof -
  have "makeSlice 16 n = None" using assms(2) by (auto simp: makeSlice_def maxAlloc_def)
  moreover obtain db where "currentDatabase s = Some db" using assms(1) by (rule store_inv_current)
  ultimately show ?thesis by (simp add: Scan_def)
qed

theorem Scan_count_panics_witness:
  "Scan globalMatchingConfig (\<lambda>_. id) 1 0 [] (10 ^ 18) demo = None"
  by (rule Scan_count_panics [OF demo_inv]) simp

end
