(* ===== verification/Store_Info.thy ===== *)
theory Store_Info
  imports Store_Properties
begin

text \<open>
  \<^verbatim>\<open>MemoryStorage.DatabaseInfo\<close> (\<^verbatim>\<open>src/storage/memory.go\<close>): for every database with keys, how many there are and how many
  of them have expired, the latter estimated from a sample in large shards.
\<close>

section \<open>The operation\<close>

definition expiredCount :: "int \<Rightarrow> shard \<Rightarrow> int" where
  "expiredCount now sh = int (length (filter (\<lambda>(_, v). IsExpired now v) sh))"

text \<open>
  The estimate of one shard; \<open>ord\<close> is the order in which the sample of 50 keys is taken from the map. The
  sampled keys are looked up again, which finds them.
\<close>

definition expiredEstimate :: "int \<Rightarrow> string order \<Rightarrow> shard \<Rightarrow> int" where
  "expiredEstimate now ord sh =
     (let shardKeyCount = int (length sh) in
      if shardKeyCount > 100 then
        (let sampleSize = (if shardKeyCount < 50 then nat shardKeyCount else 50);
             keys = take sampleSize (arrange ord (keysOf sh));
             expiredSample = length (filter (\<lambda>k. case map_of sh k of None \<Rightarrow> False | Some v \<Rightarrow> IsExpired now v) keys);
             sampled = length keys in
         if sampled > 0 then
           (let expiredRatio = float64 (of_nat expiredSample / of_nat sampled) in
            truncate64 (float64 (expiredRatio * float64 (of_int shardKeyCount))))
         else 0)
      else expiredCount now sh)"

record DBInfo =
  dbiKeys :: int
  dbiExpires :: int

definition databaseCounts :: "int \<Rightarrow> (nat \<Rightarrow> string order) \<Rightarrow> shard list \<Rightarrow> DBInfo" where
  "databaseCounts now ord shs =
     \<lparr>dbiKeys = sum_list (map (\<lambda>sh. int (length sh)) shs),
      dbiExpires = sum_list (map (\<lambda>(i, sh). expiredEstimate now (ord i) sh) (enumerate 0 shs))\<rparr>"

fun databaseInfos ::
  "int \<Rightarrow> (int \<Rightarrow> nat \<Rightarrow> string order) \<Rightarrow> memstore \<Rightarrow> (int \<times> shardedDatabase) list \<Rightarrow> (int \<times> DBInfo) list option"
where
  "databaseInfos now ord s [] = Some []"
| "databaseInfos now ord s ((d, db) # dbs) = do {
     shs \<leftarrow> allShards s db;
     rest \<leftarrow> databaseInfos now ord s dbs;
     let info = databaseCounts now (ord d) shs;
     Some (if dbiKeys info = 0 then rest else (d, info) # rest)
   }"

definition DatabaseInfo :: "int \<Rightarrow> (int \<Rightarrow> nat \<Rightarrow> string order) \<Rightarrow> memstore \<Rightarrow> (int \<times> DBInfo) list option" where
  "DatabaseInfo now ord s = databaseInfos now ord s (databases s)"

section \<open>What it reports\<close>

lemma expiredCount_le: "0 \<le> expiredCount now sh \<and> expiredCount now sh \<le> int (length sh)"
  by (simp add: expiredCount_def)

lemma expiredEstimate_le:
  assumes "length sh \<le> 2 ^ 53"
  shows "0 \<le> expiredEstimate now ord sh \<and> expiredEstimate now ord sh \<le> int (length sh)"
proof -
  have "0 \<le> truncate64 (float64 (float64 (of_nat a / of_nat b) * float64 (of_int n))) \<and>
      truncate64 (float64 (float64 (of_nat a / of_nat b) * float64 (of_int n))) \<le> n"
    if "a \<le> b" "0 \<le> n" "n \<le> 2 ^ 53" for a b :: nat and n :: int
  proof -
    let ?r = "float64 (of_nat a / of_nat b)"
    have "of_nat a / of_nat b \<le> (of_int 1 :: rat)" using that(1) by (cases "b = 0") (simp_all add: divide_le_eq_1)
    then have r: "0 \<le> ?r" "?r \<le> 1" using float64_le_int [of "of_nat a / of_nat b" 1] float64_nonneg by auto
    have n: "float64 (of_int n) = of_int n" using that by simp
    have "?r * of_int n \<le> of_int n" using r that(2) by (simp add: mult_left_le_one_le)
    then show ?thesis
      using truncate64_le [of "float64 (?r * of_int n)" n] float64_le_int [of "?r * of_int n" n] float64_nonneg
        r that n by simp
  qed
  note bound = this
  define keys where "keys = take (if int (length sh) < 50 then nat (int (length sh)) else 50) (arrange ord (keysOf sh))"
  define a where "a = length (filter (\<lambda>k. case map_of sh k of None \<Rightarrow> False | Some v \<Rightarrow> IsExpired now v) keys)"
  let ?est = "truncate64 (float64 (float64 (of_nat a / of_nat (length keys)) * float64 (of_int (int (length sh)))))"
  have "expiredEstimate now ord sh = (if int (length sh) > 100 then if length keys > 0 then ?est else 0 else expiredCount now sh)"
    unfolding expiredEstimate_def Let_def keys_def a_def ..
  moreover have "0 \<le> ?est \<and> ?est \<le> int (length sh)"
  proof (rule bound)
    show "a \<le> length keys" by (simp add: a_def)
    show "int (length sh) \<le> 2 ^ 53" using assms by (metis of_nat_le_iff of_nat_numeral of_nat_power)
  qed simp
  ultimately show ?thesis using expiredCount_le [of now sh] by presburger
qed

lemma databaseCounts_keys: "dbiKeys (databaseCounts now ord shs) = int (length (concat shs))"
  by (induction shs) (simp_all add: databaseCounts_def)

lemma databaseCounts_expires:
  assumes "\<And>i sh. i < length shs \<Longrightarrow> sh = shs ! i \<Longrightarrow> lo sh \<le> expiredEstimate now (ord i) sh \<and> expiredEstimate now (ord i) sh \<le> hi sh"
  shows "sum_list (map lo shs) \<le> dbiExpires (databaseCounts now ord shs) \<and>
    dbiExpires (databaseCounts now ord shs) \<le> sum_list (map hi shs)"
proof -
  have lists: "map (\<lambda>(i, sh). f sh) (enumerate 0 shs) = map f shs" for f :: "shard \<Rightarrow> int"
    by (simp add: list_eq_iff_nth_eq nth_enumerate_eq)
  have "sum_list (map (\<lambda>(i, sh). lo sh) (enumerate 0 shs)) \<le> sum_list (map (\<lambda>(i, sh). expiredEstimate now (ord i) sh) (enumerate 0 shs))"
    "sum_list (map (\<lambda>(i, sh). expiredEstimate now (ord i) sh) (enumerate 0 shs)) \<le> sum_list (map (\<lambda>(i, sh). hi sh) (enumerate 0 shs))"
    using assms by (intro sum_list_mono; force simp: in_set_enumerate_eq)+
  then show ?thesis by (simp add: databaseCounts_def lists)
qed

lemma databaseInfos_spec:
  assumes "\<And>d db. (d, db) \<in> set dbs \<Longrightarrow> allShards s db = Some db"
  shows "databaseInfos now ord s dbs =
    Some (filter (\<lambda>(d, info). dbiKeys info \<noteq> 0) (map (\<lambda>(d, db). (d, databaseCounts now (ord d) db)) dbs))"
  using assms
proof (induction dbs)
  case (Cons x dbs)
  obtain d db where x: "x = (d, db)" by (cases x)
  then have "allShards s db = Some db" using Cons.prems [of d db] by simp
  moreover have "databaseInfos now ord s dbs =
      Some (filter (\<lambda>(d, info). dbiKeys info \<noteq> 0) (map (\<lambda>(d, db). (d, databaseCounts now (ord d) db)) dbs))"
    by (rule Cons.IH) (use Cons.prems in auto)
  ultimately show ?case by (simp add: x Let_def)
qed simp

text \<open>
  Claim C40: \<^verbatim>\<open>DatabaseInfo\<close> lists exactly the databases with keys, each with the number of its keys; the number of
  expired keys it reports is between 0 and that, and exact when no shard of the database has more than 100
  keys, whatever sample the runtime takes and despite the floating-point arithmetic of the estimate.
\<close>

theorem DatabaseInfo_correct:
  assumes "store_inv H s"
  shows "\<exists>info. DatabaseInfo now ord s = Some info \<and>
    (\<forall>d. map_of info d \<noteq> None \<longleftrightarrow> contents s d \<noteq> Map.empty) \<and>
    (\<forall>d i. map_of info d = Some i \<longrightarrow> dbiKeys i = int (card (dom (contents s d))) \<and>
      (\<exists>db. map_of (databases s) d = Some db \<and>
        (list_all (\<lambda>sh. length sh \<le> 2 ^ 53) db \<longrightarrow> 0 \<le> dbiExpires i \<and> dbiExpires i \<le> dbiKeys i) \<and>
        (list_all (\<lambda>sh. length sh \<le> 100) db \<longrightarrow> dbiExpires i = sum_list (map (expiredCount now) db))))"
proof -
  let ?f = "\<lambda>d db. databaseCounts now (ord d) db"
  let ?info = "filter (\<lambda>(d, info). dbiKeys info \<noteq> 0) (map (\<lambda>(d, db). (d, ?f d db)) (databases s))"
  have "DatabaseInfo now ord s = Some ?info"
    using assms unfolding DatabaseInfo_def by (intro databaseInfos_spec) (auto simp: store_inv_def intro!: allShards_ok)
  moreover have look: "map_of ?info d = (case map_of (databases s) d of None \<Rightarrow> None
      | Some db \<Rightarrow> if concat db = [] then None else Some (?f d db))" for d
  proof -
    have "distinct (map fst dbs) \<Longrightarrow> map_of (filter (\<lambda>(d, info). dbiKeys info \<noteq> 0) (map (\<lambda>(d, db). (d, ?f d db)) dbs)) d =
        (case map_of dbs d of None \<Rightarrow> None | Some db \<Rightarrow> if concat db = [] then None else Some (?f d db))" for dbs
    proof (induction dbs)
      case (Cons x dbs)
      then show ?case
        by (cases x) (force simp: databaseCounts_keys split: option.splits dest: map_of_SomeD simp del: concat_eq_Nil_conv)
    qed simp
    then show ?thesis using assms by (simp add: store_inv_def)
  qed
  moreover have "dbiKeys i = int (card (dom (contents s d))) \<and>
      (\<exists>db. map_of (databases s) d = Some db \<and>
        (list_all (\<lambda>sh. length sh \<le> 2 ^ 53) db \<longrightarrow> 0 \<le> dbiExpires i \<and> dbiExpires i \<le> dbiKeys i) \<and>
        (list_all (\<lambda>sh. length sh \<le> 100) db \<longrightarrow> dbiExpires i = sum_list (map (expiredCount now) db)))"
    if mem: "map_of ?info d = Some i" for d i
  proof -
    obtain db where db: "map_of (databases s) d = Some db" "i = ?f d db"
      using mem look [of d] by (auto split: option.splits if_splits)
    have "dbiKeys i = int (card (dom (contents s d)))"
      using store_inv_db(1) [OF assms db(1)] by (simp add: db databaseCounts_keys contents_def card_dbMap)
    moreover have "0 \<le> dbiExpires i \<and> dbiExpires i \<le> dbiKeys i" if "list_all (\<lambda>sh. length sh \<le> 2 ^ 53) db"
      using databaseCounts_expires [of db "\<lambda>_. 0" now "ord d" "\<lambda>sh. int (length sh)"] expiredEstimate_le that
      by (simp add: db(2) list_all_length databaseCounts_def)
    moreover have "dbiExpires i = sum_list (map (expiredCount now) db)" if "list_all (\<lambda>sh. length sh \<le> 100) db"
      using databaseCounts_expires [of db "expiredCount now" now "ord d" "expiredCount now"] that
      by (force simp: db(2) list_all_length expiredEstimate_def Let_def)
    ultimately show ?thesis using db(1) by blast
  qed
  moreover have "map_of ?info d \<noteq> None \<longleftrightarrow> contents s d \<noteq> Map.empty" for d
    by (auto simp: look contents_def dbMap_def map_of_eq_empty_iff split: option.splits)
  ultimately show ?thesis by blast
qed

theorem DatabaseInfo_correct_witness:
  "\<exists>info i. DatabaseInfo 10 (\<lambda>_ _. id) demo = Some info \<and> map_of info 0 = Some i \<and> dbiKeys i = 2 \<and> dbiExpires i = 1"
proof -
  obtain info where info: "DatabaseInfo 10 (\<lambda>_ _. id) demo = Some info"
      "map_of info 0 \<noteq> None \<longleftrightarrow> contents demo 0 \<noteq> Map.empty"
      "\<And>i. map_of info 0 = Some i \<Longrightarrow> dbiKeys i = int (card (dom (contents demo 0))) \<and>
        (\<exists>db. map_of (databases demo) 0 = Some db \<and>
          (list_all (\<lambda>sh. length sh \<le> 100) db \<longrightarrow> dbiExpires i = sum_list (map (expiredCount 10) db)))"
    using DatabaseInfo_correct [OF demo_inv, of 10 "\<lambda>_ _. id"] by blast
  have "contents demo 0 \<noteq> Map.empty" unfolding demo_contents by simp
  with info(2) obtain i where i: "map_of info 0 = Some i" by auto
  have db: "map_of (databases demo) 0 = Some [[(''a'', stored 0 ''1'' None), (''b'', stored 0 ''2'' (Some 5))]]"
    by (simp add: demo_def)
  have "dbiKeys i = 2" using info(3) [OF i] by (simp add: demo_contents)
  moreover have "dbiExpires i = 1"
    using info(3) [OF i] by (simp add: db expiredCount_def IsExpired_def stored_def)
  ultimately show ?thesis using info(1) i by blast
qed

end
