(* ===== verification/Storage_Interface.thy ===== *)
theory Storage_Interface
  imports Store_Info Decimal
begin

text \<open>
  The interface \<^verbatim>\<open>storage.Storage\<close> (\<^verbatim>\<open>src/storage/storage.go\<close>) through which replication, server and scripts use
  the storage engine: a record of the operations, the laws a client may rely on as two locales (reading, and
  reading and writing), and the in-memory engine as an instance. An error result is its text.
\<close>

record 's Storage =
  stGet :: "int \<Rightarrow> string \<Rightarrow> 's \<Rightarrow> (bytes option \<times> 's) option"
  stSet :: "int \<Rightarrow> string \<Rightarrow> bytes \<Rightarrow> int option \<Rightarrow> 's \<Rightarrow> (string option \<times> 's) option"
  stDel :: "string list \<Rightarrow> 's \<Rightarrow> (int \<times> 's) option"
  stExists :: "int \<Rightarrow> string list \<Rightarrow> 's \<Rightarrow> int option"
  stTTL :: "int \<Rightarrow> string \<Rightarrow> 's \<Rightarrow> int option"
  stPTTL :: "int \<Rightarrow> string \<Rightarrow> 's \<Rightarrow> int option"
  stKeys :: "int \<Rightarrow> string \<Rightarrow> 's \<Rightarrow> string list option"
  stKeyCount :: "'s \<Rightarrow> int option"
  stType :: "int \<Rightarrow> string \<Rightarrow> 's \<Rightarrow> ValueType option"
  stMemoryUsage :: "'s \<Rightarrow> int option"
  stDatabaseInfo :: "int \<Rightarrow> 's \<Rightarrow> (int \<times> DBInfo) list option"
  stSelectDB :: "int \<Rightarrow> 's \<Rightarrow> (string option \<times> 's) option"
  stCurrentDB :: "'s \<Rightarrow> int"
  stScan :: "int \<Rightarrow> int \<Rightarrow> string \<Rightarrow> int \<Rightarrow> 's \<Rightarrow> (int \<times> string list) option"

definition selectError :: "int \<Rightarrow> string" where
  "selectError d = ''invalid database number: '' @ FormatInt d"

text \<open>The engine behind the interface; the map orders are those of all its iterations.\<close>

record mapOrders =
  evictOrder :: "nat \<Rightarrow> nat \<Rightarrow> string order"
  groupOrder :: "(nat \<times> string list) order"
  walkOrder :: "nat \<Rightarrow> string order"
  sampleOrder :: "int \<Rightarrow> nat \<Rightarrow> string order"

definition memoryStorage :: "hash \<Rightarrow> mapOrders \<Rightarrow> MatchingConfig \<Rightarrow> memstore Storage" where
  "memoryStorage H ords cfg = \<lparr>
     stGet = Get H,
     stSet = (\<lambda>now key value expiry s. map_option (\<lambda>s'. (None, s')) (Set H (evictOrder ords) now key value expiry s)),
     stDel = Del H (groupOrder ords),
     stExists = Exists H (groupOrder ords),
     stTTL = TTL H,
     stPTTL = PTTL H,
     stKeys = Keys cfg (walkOrder ords),
     stKeyCount = KeyCount,
     stType = Type H,
     stMemoryUsage = MemoryUsage,
     stDatabaseInfo = (\<lambda>now. DatabaseInfo now (sampleOrder ords)),
     stSelectDB = (\<lambda>d s. map_option (\<lambda>(r, s'). (case r of Inl n \<Rightarrow> Some (selectError n) | Inr _ \<Rightarrow> None, s')) (SelectDB d s)),
     stCurrentDB = CurrentDB,
     stScan = Scan cfg (walkOrder ords)\<rparr>"

definition plainOrders :: mapOrders where
  "plainOrders = \<lparr>evictOrder = \<lambda>_ _. id, groupOrder = id, walkOrder = \<lambda>_. id, sampleOrder = \<lambda>_ _. id\<rparr>"

section \<open>What a client can see\<close>

text \<open>The values of a map that have not expired at time \<open>now\<close>.\<close>

type_synonym dbmap = "int \<Rightarrow> string \<Rightarrow> svalue option"

definition unexpired :: "int \<Rightarrow> dbmap \<Rightarrow> dbmap" where
  "unexpired now m d k = (case m d k of None \<Rightarrow> None | Some v \<Rightarrow> if IsExpired now v then None else Some v)"

lemma live_unexpired: "live now s = unexpired now (contents s)"
  by (simp add: fun_eq_iff live_def unexpired_def)

text \<open>Two maps that look the same at one time look the same later.\<close>

lemma IsExpired_later: "IsExpired now v \<Longrightarrow> now \<le> later \<Longrightarrow> IsExpired later v"
  by (cases "valExpiry v") (simp_all add: IsExpired_def)

lemma unexpired_twice:
  "now \<le> later \<Longrightarrow> unexpired later m d k = (case unexpired now m d k of None \<Rightarrow> None
     | Some v \<Rightarrow> if IsExpired later v then None else Some v)"
  using IsExpired_later [of now _ later] by (cases "m d k") (auto simp: unexpired_def)

lemma unexpired_later: "unexpired now m = unexpired now m' \<Longrightarrow> now \<le> later \<Longrightarrow> unexpired later m = unexpired later m'"
  by (intro ext) (simp add: unexpired_twice [of now later])

section \<open>What a client may rely on\<close>

text \<open>\<open>inv\<close> is the engine's invariant and \<open>view\<close> the map it stands for.\<close>

locale storage_reads =
  fixes st :: "'s Storage" and inv :: "'s \<Rightarrow> bool" and view :: "'s \<Rightarrow> dbmap"
  assumes get_law: "inv s \<Longrightarrow> \<exists>s'. stGet st now k s = Some (Option.bind (unexpired now (view s) (stCurrentDB st s) k) stringData, s') \<and>
      inv s' \<and> stCurrentDB st s' = stCurrentDB st s \<and> unexpired now (view s') = unexpired now (view s)"
    and exists_law: "inv s \<Longrightarrow> stExists st now ks s =
      Some (int (length (filter (\<lambda>k. unexpired now (view s) (stCurrentDB st s) k \<noteq> None) ks)))"
    and type_law: "inv s \<Longrightarrow> stType st now k s =
      Some (case unexpired now (view s) (stCurrentDB st s) k of None \<Rightarrow> ValueTypeString | Some v \<Rightarrow> valType v)"
    and ttl_law: "inv s \<Longrightarrow> stTTL st now k s = Some (case unexpired now (view s) (stCurrentDB st s) k of None \<Rightarrow> - 2 * Second
      | Some v \<Rightarrow> case valExpiry v of None \<Rightarrow> - Second | Some t \<Rightarrow> Until now t)"
    and pttl_law: "inv s \<Longrightarrow> stPTTL st now k s = Some (case unexpired now (view s) (stCurrentDB st s) k of None \<Rightarrow> - 2 * Millisecond
      | Some v \<Rightarrow> case valExpiry v of None \<Rightarrow> - Millisecond | Some t \<Rightarrow> Until now t)"
    and keys_law: "inv s \<Longrightarrow> \<exists>ks. stKeys st now pat s = Some ks \<and> distinct ks \<and>
      set ks \<subseteq> dom (unexpired now (view s) (stCurrentDB st s))"
    and count_law: "inv s \<Longrightarrow> stKeyCount st s = Some (int (card (dom (view s (stCurrentDB st s)))))"
    and usage_law: "inv s \<Longrightarrow> stMemoryUsage st s \<noteq> None"
    and info_law: "inv s \<Longrightarrow> stDatabaseInfo st now s \<noteq> None"
    and scan_law: "inv s \<Longrightarrow> 0 \<le> n \<Longrightarrow> n \<le> 2 ^ 44 \<Longrightarrow> stScan st now cursor pat n s \<noteq> None"
    and select_law: "inv s \<Longrightarrow> 0 \<le> d \<Longrightarrow> d \<le> 15 \<Longrightarrow> \<exists>s'. stSelectDB st d s = Some (None, s') \<and> inv s' \<and>
      stCurrentDB st s' = d \<and> view s' = view s"
    and select_bad: "d < 0 \<or> 15 < d \<Longrightarrow> stSelectDB st d s = Some (Some (selectError d), s)"
begin

lemma select_total: "inv s \<Longrightarrow> \<exists>e s'. stSelectDB st d s = Some (e, s') \<and> inv s' \<and> view s' = view s"
  using select_law [of s d] select_bad [of d s] by (cases "0 \<le> d \<and> d \<le> 15") auto

end

text \<open>
  \<open>roomy\<close> says that no memory limit is set. With a limit a write may drop another key, so only the laws of a
  roomy store speak about every key.
\<close>

locale storage_laws = storage_reads st inv view
  for st :: "'s Storage" and inv :: "'s \<Rightarrow> bool" and view :: "'s \<Rightarrow> dbmap" +
  fixes roomy :: "'s \<Rightarrow> bool"
  assumes set_safe: "inv s \<Longrightarrow> \<exists>e s'. stSet st now k v x s = Some (e, s') \<and> inv s' \<and> stCurrentDB st s' = stCurrentDB st s"
    and set_law: "inv s \<Longrightarrow> roomy s \<Longrightarrow> \<exists>s'. stSet st now k v e s = Some (None, s') \<and> inv s' \<and> roomy s' \<and>
      stCurrentDB st s' = stCurrentDB st s \<and> view s' = upd (stCurrentDB st s) k (Some (stored now v e)) (view s)"
    and del_law: "inv s \<Longrightarrow> \<exists>s'. stDel st ks s = Some (int (card (set ks \<inter> dom (view s (stCurrentDB st s)))), s') \<and>
      inv s' \<and> (roomy s \<longrightarrow> roomy s') \<and> stCurrentDB st s' = stCurrentDB st s \<and>
      view s' = without (stCurrentDB st s) (set ks) (view s)"
    and select_roomy: "roomy s \<Longrightarrow> stSelectDB st d s = Some (err, s') \<Longrightarrow> roomy s'"
begin

lemma select_valid: "inv s \<Longrightarrow> 0 \<le> d \<Longrightarrow> d \<le> 15 \<Longrightarrow> \<exists>s'. stSelectDB st d s = Some (None, s') \<and> inv s' \<and>
    (roomy s \<longrightarrow> roomy s') \<and> stCurrentDB st s' = d \<and> view s' = view s"
  using select_law [of s d] select_roomy by blast

end

section \<open>The in-memory engine\<close>

lemma mem_currentDB [simp]: "stCurrentDB (memoryStorage H ords cfg) s = currentDB s"
  by (simp add: memoryStorage_def CurrentDB_def)

lemma SelectDB_roomy: "SelectDB d s = Some (r, s') \<Longrightarrow> memoryLimit s' = memoryLimit s"
  by (auto simp: SelectDB_def split: if_splits option.splits bind_splits)

lemma Scan_total: "store_inv H s \<Longrightarrow> 0 \<le> n \<Longrightarrow> n \<le> 2 ^ 44 \<Longrightarrow> Scan cfg ord now cursor pat n s \<noteq> None"
  by (erule store_inv_current) (simp add: Scan_def allShards_ok makeSlice_def maxAlloc_def)

lemma DatabaseInfo_total:
  assumes "store_inv H s" shows "DatabaseInfo now ord s \<noteq> None"
proof -
  have "databaseInfos now ord s (databases s) \<noteq> None"
    using assms by (subst databaseInfos_spec) (auto simp: store_inv_def intro!: allShards_ok)
  then show ?thesis by (simp add: DatabaseInfo_def)
qed

lemmas mem_defs = memoryStorage_def live_unexpired [symmetric]

text \<open>The laws of the interface for the in-memory engine.\<close>

lemma mem_get:
  assumes "store_inv H s"
  shows "\<exists>s'. stGet (memoryStorage H ords cfg) now k s = Some (Option.bind (unexpired now (contents s) (currentDB s) k) stringData, s') \<and>
    store_inv H s' \<and> currentDB s' = currentDB s \<and> unexpired now (contents s') = unexpired now (contents s)"
  using Get_spec [OF assms, of now k] by (auto simp: mem_defs same_setup_def)

lemma mem_ttl:
  assumes "store_inv H s"
  shows "stTTL (memoryStorage H ords cfg) now k s = Some (case unexpired now (contents s) (currentDB s) k of None \<Rightarrow> - 2 * Second
      | Some v \<Rightarrow> case valExpiry v of None \<Rightarrow> - Second | Some t \<Rightarrow> Until now t)"
    and "stPTTL (memoryStorage H ords cfg) now k s = Some (case unexpired now (contents s) (currentDB s) k of None \<Rightarrow> - 2 * Millisecond
      | Some v \<Rightarrow> case valExpiry v of None \<Rightarrow> - Millisecond | Some t \<Rightarrow> Until now t)"
  using ttlIn_spec [OF assms] by (simp_all add: mem_defs TTL_def PTTL_def)

lemma mem_counts:
  assumes "store_inv H s"
  shows "stExists (memoryStorage H ords cfg) now ks s = Some (int (length (filter (\<lambda>k. unexpired now (contents s) (currentDB s) k \<noteq> None) ks)))"
    and "stType (memoryStorage H ords cfg) now k s = Some (case unexpired now (contents s) (currentDB s) k of None \<Rightarrow> ValueTypeString | Some v \<Rightarrow> valType v)"
    and "\<exists>ks. stKeys (memoryStorage H ords cfg) now pat s = Some ks \<and> distinct ks \<and> set ks \<subseteq> dom (unexpired now (contents s) (currentDB s))"
    and "stKeyCount (memoryStorage H ords cfg) s = Some (int (card (dom (contents s (currentDB s)))))"
  using Exists_spec [OF assms] Type_spec [OF assms] Keys_spec [OF assms, of cfg "walkOrder ords" now pat] KeyCount_spec [OF assms]
  by (simp_all add: mem_defs) auto

lemma mem_total:
  assumes "store_inv H s"
  shows "stMemoryUsage (memoryStorage H ords cfg) s \<noteq> None" and "stDatabaseInfo (memoryStorage H ords cfg) now s \<noteq> None"
    and "0 \<le> n \<Longrightarrow> n \<le> 2 ^ 44 \<Longrightarrow> stScan (memoryStorage H ords cfg) now cursor pat n s \<noteq> None"
  using MemoryUsage_defined [OF assms] DatabaseInfo_total [OF assms] Scan_total [OF assms] by (simp_all add: memoryStorage_def)

lemma mem_select:
  "store_inv H s \<Longrightarrow> 0 \<le> d \<Longrightarrow> d \<le> 15 \<Longrightarrow>
     \<exists>s'. stSelectDB (memoryStorage H ords cfg) d s = Some (None, s') \<and> store_inv H s' \<and> currentDB s' = d \<and> contents s' = contents s"
  "d < 0 \<or> 15 < d \<Longrightarrow> stSelectDB (memoryStorage H ords cfg) d s = Some (Some (selectError d), s)"
  using SelectDB_spec [of H s d] by (auto simp: memoryStorage_def SelectDB_invalid)

interpretation mem_reads: storage_reads "memoryStorage H ords cfg" "store_inv H" contents for H ords cfg
  by unfold_locales (simp_all only: mem_currentDB mem_get mem_ttl mem_counts mem_total mem_select not_False_eq_True)

interpretation mem: storage_laws "memoryStorage H ords cfg" "store_inv H" contents "\<lambda>s. memoryLimit s \<le> 0"
  for H ords cfg
proof
  fix s :: memstore and now k v e
  assume inv: "store_inv H s"
  show "\<exists>e s'. stSet (memoryStorage H ords cfg) now k v x s = Some (e, s') \<and> store_inv H s' \<and>
      stCurrentDB (memoryStorage H ords cfg) s' = stCurrentDB (memoryStorage H ords cfg) s" for x
    using Set_spec [OF inv, of "evictOrder ords" now k v x] unfolding mem_currentDB
    by (auto simp: memoryStorage_def same_setup_def removed_def)
  assume room: "memoryLimit s \<le> 0"
  let ?s' = "setStep H now k v e s"
  show "\<exists>s'. stSet (memoryStorage H ords cfg) now k v e s = Some (None, s') \<and> store_inv H s' \<and> memoryLimit s' \<le> 0 \<and>
      stCurrentDB (memoryStorage H ords cfg) s' = stCurrentDB (memoryStorage H ords cfg) s \<and>
      contents s' = upd (stCurrentDB (memoryStorage H ords cfg) s) k (Some (stored now v e)) (contents s)"
    using Set_unlimited [OF inv room] setStep_spec [OF inv, of now k v e] room unfolding mem_currentDB
    by (intro exI [of _ ?s']) (simp add: memoryStorage_def same_setup_def)
next
  fix s :: memstore and ks
  assume inv: "store_inv H s"
  show "\<exists>s'. stDel (memoryStorage H ords cfg) ks s =
      Some (int (card (set ks \<inter> dom (contents s (stCurrentDB (memoryStorage H ords cfg) s)))), s') \<and>
      store_inv H s' \<and> (memoryLimit s \<le> 0 \<longrightarrow> memoryLimit s' \<le> 0) \<and>
      stCurrentDB (memoryStorage H ords cfg) s' = stCurrentDB (memoryStorage H ords cfg) s \<and>
      contents s' = without (stCurrentDB (memoryStorage H ords cfg) s) (set ks) (contents s)"
    using Del_spec [OF inv, of "groupOrder ords" ks] unfolding mem_currentDB by (auto simp: memoryStorage_def same_setup_def)
next
  fix s :: memstore and d e s'
  assume "memoryLimit s \<le> 0" and "stSelectDB (memoryStorage H ords cfg) d s = Some (e, s')"
  then show "memoryLimit s' \<le> 0" using SelectDB_roomy by (auto simp: memoryStorage_def)
qed

end
