(* ===== verification/Sha1.thy ===== *)
theory Sha1
  imports Prelude "HOL-Library.Word"
begin

unbundle bit_operations_syntax

text \<open>
  SHA-1 of a byte string and its lower-case hexadecimal form, \<^verbatim>\<open>fmt.Sprintf("%x", sha1.Sum(data))\<close>: the names
  under which the script cache keeps its scripts (\<^verbatim>\<open>src/lua/engine.go\<close>).
\<close>

definition rotl :: "nat \<Rightarrow> 32 word \<Rightarrow> 32 word" where
  "rotl n w = push_bit n w OR drop_bit (32 - n) w"

text \<open>The bytes of a number, most significant first.\<close>

definition bigEndian :: "nat \<Rightarrow> nat \<Rightarrow> nat list" where
  "bigEndian n x = map (\<lambda>i. x div 256 ^ (n - 1 - i) mod 256) [0..<n]"

definition shaPad :: "bytes \<Rightarrow> nat list" where
  "shaPad d = (let n = length d in
     map byte_val d @ [128] @ replicate ((119 - n mod 64) mod 64) 0 @ bigEndian 8 (8 * n))"

fun wordOf :: "nat list \<Rightarrow> 32 word" where
  "wordOf bs = fold (\<lambda>b w. push_bit 8 w OR of_nat b) bs 0"

text \<open>The message schedule is kept with its newest word first.\<close>

fun schedule :: "nat \<Rightarrow> 32 word list \<Rightarrow> 32 word list" where
  "schedule 0 ws = ws"
| "schedule (Suc n) ws = schedule n (rotl 1 (ws ! 2 XOR ws ! 7 XOR ws ! 13 XOR ws ! 15) # ws)"

type_synonym shaState = "32 word \<times> 32 word \<times> 32 word \<times> 32 word \<times> 32 word"

definition shaRound :: "nat \<times> 32 word \<Rightarrow> shaState \<Rightarrow> shaState" where
  "shaRound = (\<lambda>(i, w) (a, b, c, d, e).
     let (f, k) =
       (if i < 20 then ((b AND c) OR (NOT b AND d), 0x5A827999)
        else if i < 40 then (b XOR c XOR d, 0x6ED9EBA1)
        else if i < 60 then ((b AND c) OR (b AND d) OR (c AND d), 0x8F1BBCDC)
        else (b XOR c XOR d, 0xCA62C1D6))
     in (rotl 5 a + f + e + k + w, a, rotl 30 b, c, d))"

definition shaBlock :: "nat list \<Rightarrow> shaState \<Rightarrow> shaState" where
  "shaBlock block h =
     (let ws = rev (schedule 64 (rev (map (\<lambda>i. wordOf (take 4 (drop (4 * i) block))) [0..<16]))) in
      case (h, fold shaRound (enumerate 0 ws) h) of
        ((a, b, c, d, e), (a', b', c', d', e')) \<Rightarrow> (a + a', b + b', c + c', d + d', e + e'))"

definition sha1Sum :: "bytes \<Rightarrow> nat list" where
  "sha1Sum msg =
     (let padded = shaPad msg;
          blocks = map (\<lambda>i. take 64 (drop (64 * i) padded)) [0..<length padded div 64] in
      case fold shaBlock blocks (0x67452301, 0xEFCDAB89, 0x98BADCFE, 0x10325476, 0xC3D2E1F0) of
        (a, b, c, d, e) \<Rightarrow> concat (map (bigEndian 4 \<circ> unat) [a, b, c, d, e]))"

definition hexDigit :: "nat \<Rightarrow> char" where
  "hexDigit n = (if n < 10 then char_of (48 + n) else char_of (87 + n))"

definition sha1Hex :: "bytes \<Rightarrow> string" where
  "sha1Hex msg = concat (map (\<lambda>b. [hexDigit (b div 16), hexDigit (b mod 16)]) (sha1Sum msg))"

section \<open>The form of a name\<close>

lemma sha1Sum_words: "\<exists>hs :: 32 word list. sha1Sum msg = concat (map (bigEndian 4 \<circ> unat) hs) \<and> length hs = 5"
proof -
  define h where "h = fold shaBlock (map (\<lambda>i. take 64 (drop (64 * i) (shaPad msg))) [0..<length (shaPad msg) div 64])
      (0x67452301, 0xEFCDAB89, 0x98BADCFE, 0x10325476, 0xC3D2E1F0)"
  obtain a b c d e where "h = (a, b, c, d, e)" by (cases h)
  then have "sha1Sum msg = concat (map (bigEndian 4 \<circ> unat) [a, b, c, d, e])"
    unfolding sha1Sum_def Let_def h_def by (simp only: prod.case)
  then show ?thesis by (intro exI [of _ "[a, b, c, d, e]"]) simp
qed

lemma length_concat_const: "(\<And>x. x \<in> set xs \<Longrightarrow> length (f x) = n) \<Longrightarrow> length (concat (map f xs)) = n * length xs"
  by (induction xs) simp_all

lemma length_sha1Hex: "length (sha1Hex msg) = 40"
proof -
  obtain hs :: "32 word list" where "sha1Sum msg = concat (map (bigEndian 4 \<circ> unat) hs)" "length hs = 5" using sha1Sum_words by blast
  then have "length (sha1Sum msg) = 20"
    using length_concat_const [of hs "bigEndian 4 \<circ> unat" 4] by (simp add: bigEndian_def)
  then show ?thesis unfolding sha1Hex_def by (subst length_concat_const [of _ _ 2]) simp_all
qed

lemma sha1Sum_byte: "b \<in> set (sha1Sum msg) \<Longrightarrow> b < 256"
proof -
  assume b: "b \<in> set (sha1Sum msg)"
  obtain hs :: "32 word list" where "sha1Sum msg = concat (map (bigEndian 4 \<circ> unat) hs)" using sha1Sum_words by blast
  with b show ?thesis by (auto simp: bigEndian_def)
qed

lemma hexDigit_plain: "n < 16 \<Longrightarrow> byte_val (hexDigit n) \<in> {48..57} \<union> {97..102}"
  by (auto simp: hexDigit_def of_char_of)

lemma sha1Hex_plain: "c \<in> set (sha1Hex msg) \<Longrightarrow> byte_val c \<in> {48..57} \<union> {97..102}"
proof -
  assume "c \<in> set (sha1Hex msg)"
  then obtain b where "b \<in> set (sha1Sum msg)" "c = hexDigit (b div 16) \<or> c = hexDigit (b mod 16)"
    by (auto simp: sha1Hex_def)
  moreover from this have "b div 16 < 16" "b mod 16 < 16" using sha1Sum_byte by fastforce+
  ultimately show ?thesis using hexDigit_plain by metis
qed

end
