(* ===== verification/Lua_Engine.thy ===== *)
theory Lua_Engine
  imports Storage_Interface Sha1
begin

text \<open>
  The script engine (\<^verbatim>\<open>src/lua/engine.go\<close>): the script cache with its least-recently-used list, the commands a
  script may call, and the conversions between Lua and Go values. The Lua interpreter itself is the package
  gopher-lua; it is the parameter \<open>vm\<close>. Its states are pooled and used again. A run is a tree: it ends with a value or an error, or it calls
  \<^verbatim>\<open>redis.call\<close> or \<^verbatim>\<open>redis.pcall\<close> and goes on with what the call gives back.
\<close>

section \<open>Values\<close>

text \<open>A double: a finite one is the rational it stands for.\<close>

datatype lnum = Finite rat | PosInf | NegInf | NaN

text \<open>Values of the Go type \<^verbatim>\<open>interface{}\<close> that occur.\<close>

datatype goval =
    GNil | GBool bool | GString bytes | GBytes bytes | GInt int | GFloat lnum
  | GSlice "goval list" | GMap "(string \<times> goval) list"

text \<open>
  Lua values. A table is what its methods tell about it: \<^verbatim>\<open>Len\<close> and the pairs \<^verbatim>\<open>ForEach\<close> visits, in order.
  \<open>LOther\<close> is any other kind, with its \<^verbatim>\<open>String()\<close>.
\<close>

datatype lvalue =
    LNil | LBool bool | LString bytes | LNumber lnum
  | LTable nat "(lvalue \<times> lvalue) list" | LOther string

text \<open>What the engine sees of an interpreter state: its globals, \<open>LNil\<close> where none is set.\<close>

type_synonym luaGlobals = "string \<Rightarrow> lvalue"

text \<open>A run ends with a value or an error, and leaves the globals as the script has set them.\<close>

datatype luaRun = Return lvalue luaGlobals | Raise string luaGlobals | Call bool "lvalue list" "string + lvalue \<Rightarrow> luaRun"

text \<open>
  \<open>vmNew\<close> are the globals of \<^verbatim>\<open>lua.NewState()\<close>; \<open>vmRun n g script\<close> is \<^verbatim>\<open>DoString\<close> in evaluation number \<open>n\<close>,
  in a state with the globals \<open>g\<close> (the number stands for all else a run may depend on); \<open>vmFunction\<close>
  is the value of a Go function as \<^verbatim>\<open>SetFuncs\<close> installs it; \<open>vmPick n\<close> says which pooled state \<^verbatim>\<open>sync.Pool\<close> hands out at
  evaluation number \<open>n\<close>, if any; \<open>vmToString\<close> is \<^verbatim>\<open>LState.ToString\<close>, \<open>vmString\<close> is
  \<^verbatim>\<open>LValue.String\<close>, and \<open>fmtV\<close> is \<^verbatim>\<open>fmt.Sprintf("%v")\<close>.
\<close>

record luaVM =
  vmNew :: luaGlobals
  vmRun :: "nat \<Rightarrow> luaGlobals \<Rightarrow> string \<Rightarrow> luaRun"
  vmFunction :: "string \<Rightarrow> lvalue"
  vmPick :: "nat \<Rightarrow> nat option"
  vmToString :: "lvalue \<Rightarrow> string"
  vmString :: "lvalue \<Rightarrow> string"
  fmtV :: "goval \<Rightarrow> string"

text \<open>The conversion \<^verbatim>\<open>int64(f)\<close>; out of range it gives the smallest integer, as on amd64.\<close>

definition int64Of :: "lnum \<Rightarrow> int" where
  "int64Of f = (case f of Finite x \<Rightarrow> if in_int64 (truncate64 x) then truncate64 x else int64_min | _ \<Rightarrow> int64_min)"

fun convertToLuaValue :: "luaVM \<Rightarrow> goval \<Rightarrow> lvalue" where
  "convertToLuaValue vm GNil = LBool False"
| "convertToLuaValue vm (GString v) = LString v"
| "convertToLuaValue vm (GInt v) = LNumber (Finite (float64 (of_int v)))"
| "convertToLuaValue vm (GFloat v) = LNumber v"
| "convertToLuaValue vm (GBool v) = LBool v"
| "convertToLuaValue vm (GSlice vs) =
     LTable (length vs) (zip (map (\<lambda>i. LNumber (Finite (of_nat i))) [1..<length vs + 1]) (map (convertToLuaValue vm) vs))"
| "convertToLuaValue vm v = LString (fmtV vm v)"

definition isArrayIndex :: "nat \<Rightarrow> lvalue \<Rightarrow> bool" where
  "isArrayIndex n k = (case k of
      LNumber f \<Rightarrow> (let idx = int64Of f in \<not> (Finite (float64 (of_int idx)) \<noteq> f \<or> idx < 1 \<or> idx > int n))
    | _ \<Rightarrow> False)"

definition isArrayLikeTable :: "nat \<Rightarrow> (lvalue \<times> lvalue) list \<Rightarrow> bool" where
  "isArrayLikeTable n es =
     (if n = 0 then True
      else if \<exists>i \<in> {1..n}. (case map_of es (LNumber (Finite (of_nat i))) of None \<Rightarrow> True | Some v \<Rightarrow> v = LNil) then False
      else \<forall>(k, v) \<in> set es. isArrayIndex n k)"

function convertLuaValue :: "luaVM \<Rightarrow> lvalue \<Rightarrow> goval" where
  "convertLuaValue vm (LBool v) = GBool v"
| "convertLuaValue vm (LString v) = GString v"
| "convertLuaValue vm (LNumber f) = (if f = Finite (float64 (of_int (int64Of f))) then GInt (int64Of f) else GFloat f)"
| "convertLuaValue vm LNil = GNil"
| "convertLuaValue vm (LTable n es) =
     (if isArrayLikeTable n es then GSlice (map (\<lambda>e. convertLuaValue vm (snd e)) es)
      else GMap (fold (\<lambda>e m. AList.update (vmString vm (fst e)) (convertLuaValue vm (snd e)) m) es []))"
| "convertLuaValue vm (LOther s) = GString s"
  by pat_completeness auto
termination
proof (relation "measure (\<lambda>(vm, v). size v)", simp)
  fix n and es :: "(lvalue \<times> lvalue) list" and e
  assume mem: "e \<in> set es"
  have "size (snd e) \<le> size_list (size_prod size size) es"
    by (rule size_list_estimation' [OF mem]) (cases e; simp)
  then show "((vm, snd e), vm, LTable n es) \<in> measure (\<lambda>(vm, v). size v)"
    and "((vm, snd e), vm, LTable n es) \<in> measure (\<lambda>(vm, v). size v)" for vm :: luaVM
    by simp_all
qed

section \<open>Commands of a script\<close>

definition wrongArgs :: "string \<Rightarrow> string" where
  "wrongArgs cmd = ''wrong number of arguments for '' @ [CHR 0x27] @ cmd @ [CHR 0x27] @ '' command''"

definition executeLuaCommand ::
  "'s Storage \<Rightarrow> int \<Rightarrow> string \<Rightarrow> string list \<Rightarrow> 's \<Rightarrow> ((string + goval) \<times> 's) option"
where
  "executeLuaCommand st now cmd args s =
     (if cmd = ''GET'' then
        (if length args \<noteq> 1 then Some (Inl (wrongArgs ''get''), s)
         else map_option (\<lambda>(v, s'). (Inr (case v of None \<Rightarrow> GNil | Some d \<Rightarrow> GString d), s')) (stGet st now (args ! 0) s))
      else if cmd = ''SET'' then
        (if length args < 2 then Some (Inl (wrongArgs ''set''), s)
         else map_option (\<lambda>(err, s'). (case err of Some e \<Rightarrow> Inl e | None \<Rightarrow> Inr (GString ''OK''), s'))
           (stSet st now (args ! 0) (args ! 1) None s))
      else if cmd = ''DEL'' then
        (if args = [] then Some (Inl (wrongArgs ''del''), s)
         else map_option (\<lambda>(deleted, s'). (Inr (GInt deleted), s')) (stDel st args s))
      else if cmd = ''EXISTS'' then
        (if args = [] then Some (Inl (wrongArgs ''exists''), s)
         else map_option (\<lambda>n. (Inr (GInt n), s)) (stExists st now args s))
      else if cmd = ''TYPE'' then
        (if length args \<noteq> 1 then Some (Inl (wrongArgs ''type''), s)
         else map_option (\<lambda>t. (Inr (GString (ValueType_String t)), s)) (stType st now (args ! 0) s))
      else Some (Inl (''unknown or unsupported command: '' @ cmd), s))"

definition executeRedisCommand ::
  "luaVM \<Rightarrow> 's Storage \<Rightarrow> int \<Rightarrow> lvalue list \<Rightarrow> 's \<Rightarrow> ((string + goval) \<times> 's) option"
where
  "executeRedisCommand vm st now argv s =
     (case argv of
        [] \<Rightarrow> Some (Inl ''wrong number of arguments for redis command'', s)
      | name # args \<Rightarrow>
          (let cmdName = vmToString vm name in
           if cmdName = [] then Some (Inl ''command name must be a string'', s)
           else executeLuaCommand st now cmdName (map (vmToString vm) args) s))"

text \<open>
  \<^verbatim>\<open>redis.call\<close> raises an error, which the script may catch with the \<^verbatim>\<open>pcall\<close> of Lua; \<^verbatim>\<open>redis.pcall\<close> gives it back as a
  table. The first argument says which of the two.
\<close>

definition redisCall ::
  "bool \<Rightarrow> luaVM \<Rightarrow> 's Storage \<Rightarrow> int \<Rightarrow> lvalue list \<Rightarrow> 's \<Rightarrow> ((string + lvalue) \<times> 's) option"
where
  "redisCall protected vm st now argv s =
     (case executeRedisCommand vm st now argv s of
        None \<Rightarrow> None
      | Some (Inl err, s') \<Rightarrow> Some (if protected then Inr (LTable 0 [(LString ''err'', LString err)]) else Inl err, s')
      | Some (Inr v, s') \<Rightarrow> Some (Inr (convertToLuaValue vm v), s'))"

text \<open>Running a script; \<open>clock i\<close> is the time of its call number \<open>i\<close>.\<close>

primrec runLua ::
  "luaRun \<Rightarrow> luaVM \<Rightarrow> 's Storage \<Rightarrow> (nat \<Rightarrow> int) \<Rightarrow> nat \<Rightarrow> 's \<Rightarrow> ((string + lvalue) \<times> luaGlobals \<times> 's) option"
where
  "runLua (Return v g) = (\<lambda>vm st clock i s. Some (Inr v, g, s))"
| "runLua (Raise m g) = (\<lambda>vm st clock i s. Some (Inl m, g, s))"
| "runLua (Call protected argv k) = (\<lambda>vm st clock i s.
     (case redisCall protected vm st (clock i) argv s of
        None \<Rightarrow> None
      | Some (r, s') \<Rightarrow> runLua (k r) vm st clock (i + 1) s'))"

section \<open>Engine\<close>

text \<open>
  The list has the most recently used name first; \<open>statePool\<close> are the interpreter states that were given back, and
  \<open>evals\<close> numbers the evaluations.
\<close>

record engine =
  scripts :: "(string \<times> string) list"
  lruList :: "string list"
  maxScripts :: int
  cacheHits :: "64 word"
  cacheMisses :: "64 word"
  statePool :: "luaGlobals list"
  evals :: nat

definition DefaultMaxScripts :: int where "DefaultMaxScripts = 1000"

definition WithMaxScripts :: "int \<Rightarrow> engine \<Rightarrow> engine" where
  "WithMaxScripts m e = e\<lparr>maxScripts := m\<rparr>"

definition NewEngine :: "(engine \<Rightarrow> engine) list \<Rightarrow> engine" where
  "NewEngine opts = fold (\<lambda>opt e. opt e) opts \<lparr>scripts = [], lruList = [], maxScripts = DefaultMaxScripts,
     cacheHits = 0, cacheMisses = 0, statePool = [], evals = 0\<rparr>"

definition getLuaState :: "luaVM \<Rightarrow> engine \<Rightarrow> luaGlobals \<times> engine" where
  "getLuaState vm e = (case vmPick vm (evals e) of
      None \<Rightarrow> (vmNew vm, e)
    | Some i \<Rightarrow> if i < length (statePool e)
        then (statePool e ! i, e\<lparr>statePool := take i (statePool e) @ drop (Suc i) (statePool e)\<rparr>) else (vmNew vm, e))"

definition putLuaState :: "luaGlobals \<Rightarrow> engine \<Rightarrow> engine" where
  "putLuaState g e = e\<lparr>statePool := statePool e @ [g(''KEYS'' := LNil, ''ARGV'' := LNil, ''redis'' := LNil)], evals := evals e + 1\<rparr>"

definition stringTable :: "string list \<Rightarrow> lvalue" where
  "stringTable ss = LTable (length ss) (zip (map (\<lambda>i. LNumber (Finite (of_nat i))) [1..<length ss + 1]) (map LString ss))"

definition setupRedisAPI :: "luaVM \<Rightarrow> string list \<Rightarrow> string list \<Rightarrow> luaGlobals \<Rightarrow> luaGlobals" where
  "setupRedisAPI vm keys args g = g(''KEYS'' := stringTable keys, ''ARGV'' := stringTable args,
     ''redis'' := LTable 0 [(LString ''call'', vmFunction vm ''redisCall''), (LString ''pcall'', vmFunction vm ''redisPCall'')])"

definition Eval ::
  "luaVM \<Rightarrow> 's Storage \<Rightarrow> (nat \<Rightarrow> int) \<Rightarrow> string \<Rightarrow> string list \<Rightarrow> string list \<Rightarrow> engine \<Rightarrow> 's
     \<Rightarrow> ((string + goval) \<times> engine \<times> 's) option"
where
  "Eval vm st clock script keys args e s =
     (case getLuaState vm e of (g, e1) \<Rightarrow>
       case runLua (vmRun vm (evals e) (setupRedisAPI vm keys args g) script) vm st clock 0 s of
         None \<Rightarrow> None
       | Some (Inl m, g', s') \<Rightarrow> Some (Inl (''script execution error: '' @ m), putLuaState g' e1, s')
       | Some (Inr v, g', s') \<Rightarrow> Some (Inr (convertLuaValue vm v), putLuaState g' e1, s'))"

definition moveToFront :: "string \<Rightarrow> string list \<Rightarrow> string list" where
  "moveToFront h l = h # remove1 h l"

definition EvalSHA ::
  "luaVM \<Rightarrow> 's Storage \<Rightarrow> (nat \<Rightarrow> int) \<Rightarrow> string \<Rightarrow> string list \<Rightarrow> string list \<Rightarrow> engine \<Rightarrow> 's
     \<Rightarrow> ((string + goval) \<times> engine \<times> 's) option"
where
  "EvalSHA vm st clock h keys args e s =
     (case map_of (scripts e) h of
        None \<Rightarrow> Some (Inl ''NOSCRIPT No matching script. Please use EVAL'', e\<lparr>cacheMisses := cacheMisses e + 1\<rparr>, s)
      | Some script \<Rightarrow>
          Eval vm st clock script keys args
            (e\<lparr>cacheHits := cacheHits e + 1, lruList := moveToFront h (lruList e)\<rparr>) s)"

definition LoadScript :: "string \<Rightarrow> engine \<Rightarrow> string \<times> engine" where
  "LoadScript script e =
     (let h = sha1Hex script in
      if map_of (scripts e) h \<noteq> None then (h, e\<lparr>lruList := moveToFront h (lruList e)\<rparr>)
      else
        (let e = e\<lparr>lruList := h # lruList e, scripts := AList.update h script (scripts e)\<rparr> in
         if int (length (lruList e)) > maxScripts e then
           (h, e\<lparr>scripts := AList.delete (last (lruList e)) (scripts e), lruList := butlast (lruList e)\<rparr>)
         else (h, e)))"

definition ScriptExists :: "string list \<Rightarrow> engine \<Rightarrow> bool list" where
  "ScriptExists hashes e = map (\<lambda>h. map_of (scripts e) h \<noteq> None) hashes"

definition ScriptFlush :: "engine \<Rightarrow> engine" where
  "ScriptFlush e = e\<lparr>scripts := [], lruList := [], cacheHits := 0, cacheMisses := 0\<rparr>"

definition CacheStats :: "engine \<Rightarrow> 64 word \<times> 64 word" where
  "CacheStats e = (cacheHits e, cacheMisses e)"

end
