(* ===== verification/Lua_Correct.thy ===== *)
theory Lua_Correct
  imports Lua_Engine
begin

text \<open>
  Properties of the script engine: the cache is a least-recently-used cache of the scripts under their SHA-1
  names, in every state the engine can reach; a loaded script can be run by its name; and no script makes
  the storage panic.
\<close>

section \<open>The cache\<close>

definition cache_inv :: "engine \<Rightarrow> bool" where
  "cache_inv e \<longleftrightarrow> distinct (lruList e) \<and> distinct (map fst (scripts e)) \<and>
     set (lruList e) = fst ` set (scripts e) \<and> int (length (lruList e)) \<le> max 0 (maxScripts e) \<and>
     (\<forall>(h, script) \<in> set (scripts e). h = sha1Hex script)"

text \<open>The specification: a list of names by recency of use, cut off at the capacity.\<close>

definition touch :: "nat \<Rightarrow> string \<Rightarrow> string list \<Rightarrow> string list" where
  "touch m h l = take m (h # removeAll h l)"

lemma cache_inv_lookup: "cache_inv e \<Longrightarrow> map_of (scripts e) h \<noteq> None \<longleftrightarrow> h \<in> set (lruList e)"
  by (simp add: cache_inv_def map_of_eq_None_iff)

lemma moveToFront_touch:
  assumes "distinct l" and "h \<in> set l" and "length l \<le> m"
  shows "moveToFront h l = touch m h l"
proof -
  have "length (h # removeAll h l) = length l"
    using assms(1,2) length_pos_if_in_set [OF assms(2)] by (simp add: distinct_remove1_removeAll [symmetric] length_remove1)
  then show ?thesis using assms by (simp add: moveToFront_def touch_def distinct_remove1_removeAll)
qed

lemma set_touch: "set (touch m h l) \<subseteq> insert h (set l)"
  using set_take_subset [of m "h # removeAll h l"] by (auto simp: touch_def)

lemma LoadScript_touch:
  assumes "cache_inv e"
  shows "lruList (snd (LoadScript script e)) = touch (nat (maxScripts e)) (sha1Hex script) (lruList e)"
proof -
  let ?h = "sha1Hex script" and ?l = "lruList e"
  have len: "length ?l \<le> nat (maxScripts e)" and dist: "distinct ?l" using assms by (auto simp: cache_inv_def)
  show ?thesis
  proof (cases "?h \<in> set ?l")
    case True
    then show ?thesis
      using cache_inv_lookup [OF assms] moveToFront_touch [OF dist True len] by (auto simp: LoadScript_def Let_def)
  next
    case False
    have "butlast (?h # ?l) = take (nat (maxScripts e)) (?h # ?l)" if full: "int (length ?l) + 1 > maxScripts e"
    proof -
      have "length ?l = nat (maxScripts e)" using full len by linarith
      then show ?thesis by (simp add: butlast_conv_take del: butlast.simps take_Suc_Cons)
    qed
    moreover have "take (nat (maxScripts e)) (?h # ?l) = ?h # ?l" if "\<not> int (length ?l) + 1 > maxScripts e"
      using that by simp
    moreover have "touch (nat (maxScripts e)) ?h ?l = take (nat (maxScripts e)) (?h # ?l)"
      using False by (simp add: touch_def)
    moreover have "map_of (scripts e) ?h = None" using cache_inv_lookup [OF assms] False by blast
    ultimately show ?thesis by (auto simp: LoadScript_def Let_def add.commute)
  qed
qed

lemma set_butlast_distinct: "distinct xs \<Longrightarrow> xs \<noteq> [] \<Longrightarrow> set (butlast xs) = set xs - {last xs}"
  by (cases xs rule: rev_cases) auto

lemma LoadScript_hit: "map_of (scripts e) (sha1Hex script) = Some t \<Longrightarrow>
    LoadScript script e = (sha1Hex script, e\<lparr>lruList := moveToFront (sha1Hex script) (lruList e)\<rparr>)"
  by (simp add: LoadScript_def Let_def)

lemma LoadScript_inv:
  assumes "cache_inv e"
  shows "cache_inv (snd (LoadScript script e))"
proof -
  let ?h = "sha1Hex script" and ?l = "lruList e"
  note inv = assms [unfolded cache_inv_def]
  show ?thesis
  proof (cases "map_of (scripts e) ?h")
    case (Some t)
    then have mem: "?h \<in> set ?l" using cache_inv_lookup [OF assms] by (metis option.distinct(1))
    then have "set (moveToFront ?h ?l) = set ?l" "distinct (moveToFront ?h ?l)" "length (moveToFront ?h ?l) = length ?l"
      using inv length_pos_if_in_set [OF mem] by (auto simp: moveToFront_def length_remove1)
    with inv show ?thesis unfolding LoadScript_hit [OF Some] by (simp add: cache_inv_def)
  next
    case None
    then have new: "?h \<notin> set ?l" "?h \<notin> fst ` set (scripts e)" using cache_inv_lookup [OF assms] inv by auto
    define e1 where "e1 = e\<lparr>lruList := ?h # ?l, scripts := scripts e @ [(?h, script)]\<rparr>"
    have e1: "distinct (lruList e1)" "distinct (map fst (scripts e1))" "set (lruList e1) = fst ` set (scripts e1)"
        "\<forall>(h, t) \<in> set (scripts e1). h = sha1Hex t" "lruList e1 \<noteq> []"
      using inv new by (auto simp: e1_def)
    define e2 where "e2 = e1\<lparr>scripts := AList.delete (last (lruList e1)) (scripts e1), lruList := butlast (lruList e1)\<rparr>"
    have "set (butlast (lruList e1)) = fst ` set (AList.delete (last (lruList e1)) (scripts e1))"
      using set_butlast_distinct [OF e1(1,5)] e1(3) by (auto simp: AList.delete_eq image_iff)
    moreover have "int (length (butlast (lruList e1))) \<le> max 0 (maxScripts e)" using inv by (simp add: e1_def)
    moreover have "distinct (map fst (AList.delete (last (lruList e1)) (scripts e1)))"
      using e1(2) by (rule AList.distinct_delete)
    ultimately have e2: "cache_inv e2"
      using e1(1,4) by (auto simp: cache_inv_def e2_def distinct_butlast e1_def AList.delete_eq dest!: in_set_butlastD)
    have "snd (LoadScript script e) = (if int (length (lruList e1)) > maxScripts e1 then e2 else e1)"
      using None new by (simp add: LoadScript_def e1_def e2_def update_new Let_def)
    moreover have "cache_inv e1" if "\<not> int (length (lruList e1)) > maxScripts e1" using e1 that by (simp add: cache_inv_def)
    ultimately show ?thesis using e2 by simp
  qed
qed

text \<open>An evaluation changes the pool only, and gives its interpreter back without keys, arguments and functions.\<close>

definition pool_clean :: "engine \<Rightarrow> bool" where
  "pool_clean e \<longleftrightarrow> (\<forall>g \<in> set (statePool e). g ''KEYS'' = LNil \<and> g ''ARGV'' = LNil \<and> g ''redis'' = LNil)"

lemma getLuaState_pool: "getLuaState vm e = (g, e1) \<Longrightarrow> e1 = e\<lparr>statePool := statePool e1\<rparr> \<and> set (statePool e1) \<subseteq> set (statePool e) \<and>
    (g = vmNew vm \<or> g \<in> set (statePool e))"
  by (auto simp: getLuaState_def split: option.splits if_splits dest: in_set_takeD in_set_dropD)

lemma Eval_engine:
  assumes "Eval vm st clock script keys args e s = Some (r, e', s')"
  shows "e' = e\<lparr>statePool := statePool e', evals := evals e + 1\<rparr> \<and> (pool_clean e \<longrightarrow> pool_clean e')"
proof -
  obtain g e1 where get: "getLuaState vm e = (g, e1)" by fastforce
  then obtain g' where e': "e' = putLuaState g' e1"
    using assms by (auto simp: Eval_def split: option.splits sum.splits prod.splits)
  note pool = getLuaState_pool [OF get]
  then have "scripts e1 = scripts e" "lruList e1 = lruList e" "maxScripts e1 = maxScripts e" "cacheHits e1 = cacheHits e"
    "cacheMisses e1 = cacheMisses e" "evals e1 = evals e" by (metis engine.select_convs engine.update_convs(6) engine.surjective)+
  then have "e' = e\<lparr>statePool := statePool e', evals := evals e + 1\<rparr>" unfolding e' by (simp add: putLuaState_def)
  moreover have "pool_clean e \<Longrightarrow> pool_clean e'" using pool unfolding e' by (auto simp: pool_clean_def putLuaState_def)
  ultimately show ?thesis by blast
qed

text \<open>What a caller sees of an evaluation.\<close>

lemma Eval_outcome: "map_option (\<lambda>(r, _, s'). (r, s')) (Eval vm st clock script keys args e s) =
    map_option (\<lambda>(r, _, s'). (case r of Inl m \<Rightarrow> Inl (''script execution error: '' @ m) | Inr v \<Rightarrow> Inr (convertLuaValue vm v), s'))
      (runLua (vmRun vm (evals e) (setupRedisAPI vm keys args (fst (getLuaState vm e))) script) vm st clock 0 s)"
  by (simp add: Eval_def split: option.split prod.split sum.split)

lemma cache_inv_cong:
  "scripts e' = scripts e \<Longrightarrow> set (lruList e') = set (lruList e) \<Longrightarrow> length (lruList e') = length (lruList e) \<Longrightarrow>
     distinct (lruList e') \<Longrightarrow> maxScripts e' = maxScripts e \<Longrightarrow> cache_inv e \<Longrightarrow> cache_inv e'"
  by (simp add: cache_inv_def)

lemma EvalSHA_inv:
  assumes "EvalSHA vm st clock h keys args e s = Some (r, e', s')" and "cache_inv e"
  shows "cache_inv e'"
proof (cases "map_of (scripts e) h")
  case None
  with assms(1) have "e' = e\<lparr>cacheMisses := cacheMisses e + 1\<rparr>" by (simp add: EvalSHA_def)
  with assms(2) show ?thesis by (simp add: cache_inv_def)
next
  case (Some script)
  then have mem: "h \<in> set (lruList e)" using cache_inv_lookup [OF assms(2)] by (metis option.distinct(1))
  let ?e = "e\<lparr>cacheHits := cacheHits e + 1, lruList := moveToFront h (lruList e)\<rparr>"
  from Some assms(1) have "Eval vm st clock script keys args ?e s = Some (r, e', s')" by (simp add: EvalSHA_def)
  then have e': "e' = ?e\<lparr>statePool := statePool e', evals := evals ?e + 1\<rparr>" by (rule Eval_engine [THEN conjunct1])
  from assms(2) mem length_pos_if_in_set [OF mem] show ?thesis
    by (subst e', intro cache_inv_cong [OF _ _ _ _ _ assms(2)]) (auto simp: moveToFront_def length_remove1 cache_inv_def)
qed

text \<open>The engine as a state machine: every operation, with any interpreter and on any store.\<close>

inductive engine_reachable :: "engine \<Rightarrow> bool" where
  new: "engine_reachable (NewEngine (map WithMaxScripts limits))"
| load: "engine_reachable e \<Longrightarrow> LoadScript script e = (h, e') \<Longrightarrow> engine_reachable e'"
| eval: "engine_reachable e \<Longrightarrow> Eval vm st clock script keys args e (s :: memstore) = Some (r, e', s') \<Longrightarrow> engine_reachable e'"
| evalsha: "engine_reachable e \<Longrightarrow> EvalSHA vm st clock h keys args e (s :: memstore) = Some (r, e', s') \<Longrightarrow> engine_reachable e'"
| flush: "engine_reachable e \<Longrightarrow> engine_reachable (ScriptFlush e)"

lemma NewEngine_fields [simp]: "scripts (NewEngine (map WithMaxScripts limits)) = []" "lruList (NewEngine (map WithMaxScripts limits)) = []"
  "statePool (NewEngine (map WithMaxScripts limits)) = []"
proof -
  have "scripts (fold (\<lambda>opt e. opt e) (map WithMaxScripts limits) e) = scripts e \<and>
      lruList (fold (\<lambda>opt e. opt e) (map WithMaxScripts limits) e) = lruList e \<and>
      statePool (fold (\<lambda>opt e. opt e) (map WithMaxScripts limits) e) = statePool e" for e
    by (induction limits arbitrary: e) (simp_all add: WithMaxScripts_def)
  then show "scripts (NewEngine (map WithMaxScripts limits)) = []" "lruList (NewEngine (map WithMaxScripts limits)) = []"
    "statePool (NewEngine (map WithMaxScripts limits)) = []" by (simp_all add: NewEngine_def)
qed

lemma reachable_cache_inv: "engine_reachable e \<Longrightarrow> cache_inv e"
proof (induction rule: engine_reachable.induct)
  case (new limits)
  show ?case by (simp add: cache_inv_def)
next
  case (load e script h e')
  then show ?case using LoadScript_inv [of e script] by simp
next
  case (eval e vm st clock script keys args s r e' s')
  have e': "e' = e\<lparr>statePool := statePool e', evals := evals e + 1\<rparr>" using Eval_engine [OF eval.hyps(2)] by blast
  from eval.IH show ?case by (subst e') (simp add: cache_inv_def)
next
  case (evalsha e vm st clock h keys args s r e' s')
  show ?case by (rule EvalSHA_inv [OF evalsha.hyps(2) evalsha.IH])
next
  case (flush e)
  then show ?case by (simp add: ScriptFlush_def cache_inv_def)
qed

lemma reachable_pool_clean: "engine_reachable e \<Longrightarrow> pool_clean e"
proof (induction rule: engine_reachable.induct)
  case (load e script h e')
  then have "statePool e' = statePool e" by (auto simp: LoadScript_def Let_def split: option.splits if_splits)
  with load.IH show ?case by (simp add: pool_clean_def)
next
  case (eval e vm st clock script keys args s r e' s')
  show ?case using Eval_engine [OF eval.hyps(2)] eval.IH by blast
next
  case (evalsha e vm st clock h keys args s r e' s')
  show ?case
  proof (cases "map_of (scripts e) h")
    case None
    with evalsha.hyps(2) evalsha.IH show ?thesis by (auto simp: EvalSHA_def pool_clean_def)
  next
    case (Some script)
    let ?e = "e\<lparr>cacheHits := cacheHits e + 1, lruList := moveToFront h (lruList e)\<rparr>"
    from Some evalsha.hyps(2) have run: "Eval vm st clock script keys args ?e s = Some (r, e', s')" by (simp add: EvalSHA_def)
    have "pool_clean ?e" using evalsha.IH by (simp add: pool_clean_def)
    with Eval_engine [OF run] show ?thesis by blast
  qed
qed (simp_all add: pool_clean_def ScriptFlush_def)

text \<open>
  Every other global survives in the pool: the interpreter state given back by one evaluation is handed to the next one
  that the pool gives it to with all other globals as the first script has left them.
\<close>

lemma globals_leak:
  assumes "vmPick vm (evals (putLuaState g e)) = Some (length (statePool e))" and "x \<notin> {''KEYS'', ''ARGV'', ''redis''}"
  shows "setupRedisAPI vm keys args (fst (getLuaState vm (putLuaState g e))) x = g x"
  using assms by (simp add: getLuaState_def putLuaState_def setupRedisAPI_def nth_append)


text \<open>
  A script just loaded can be run by the name \<^verbatim>\<open>SCRIPT LOAD\<close> returned: \<^verbatim>\<open>EVALSHA\<close> gives the result
  of \<^verbatim>\<open>EVAL\<close> on its text and leaves the same store, provided the cache has room for a script and holds no
  other text with the same SHA-1 name.
\<close>

theorem LoadScript_EvalSHA:
  assumes "cache_inv e" and "0 < maxScripts e" and "LoadScript script e = (h, e')"
    and "\<forall>t. map_of (scripts e) (sha1Hex script) = Some t \<longrightarrow> t = script"
  shows "map_option (\<lambda>(r, _, s'). (r, s')) (EvalSHA vm st clock h keys args e' s) =
    map_option (\<lambda>(r, _, s'). (r, s')) (Eval vm st clock script keys args e' s)"
proof -
  have h: "h = sha1Hex script" using assms(3) by (auto simp: LoadScript_def Let_def split: if_splits)
  have "map_of (scripts e') h = Some script"
  proof (cases "map_of (scripts e) h")
    case (Some t)
    with assms(3,4) h show ?thesis by (auto simp: LoadScript_hit)
  next
    case None
    have "lruList e' = touch (nat (maxScripts e)) h (lruList e)" using LoadScript_touch [OF assms(1), of script] assms(3) h by simp
    moreover have "h \<in> set (touch (nat (maxScripts e)) h (lruList e))" using assms(2) by (simp add: touch_def take_Cons')
    moreover have "cache_inv e'" using LoadScript_inv [OF assms(1), of script] assms(3) by simp
    ultimately have kept: "map_of (scripts e') h \<noteq> None" using cache_inv_lookup [of e' h] by simp
    have "map_of (scripts e') h \<in> {None, Some script}"
      using None assms(3) h by (auto simp: LoadScript_def Let_def update_conv' delete_conv' split: if_splits)
    with kept show ?thesis by auto
  qed
  moreover have "fst (getLuaState vm (e'\<lparr>cacheHits := n, lruList := l\<rparr>)) = fst (getLuaState vm e')" for n l
    by (simp add: getLuaState_def split: option.split)
  ultimately show ?thesis by (simp add: EvalSHA_def Eval_outcome)
qed

definition demoVM :: luaVM where
  "demoVM = \<lparr>vmNew = \<lambda>_. LNil,
     vmRun = \<lambda>n g script. Call False [LString ''SET'', LString ''k'', LString ''v''] (\<lambda>r. case r of Inl m \<Rightarrow> Raise m g | Inr v \<Rightarrow> Return v g),
     vmFunction = \<lambda>_. LNil, vmPick = \<lambda>_. Some 0,
     vmToString = \<lambda>v. case v of LString s \<Rightarrow> s | _ \<Rightarrow> [], vmString = \<lambda>_. [], fmtV = \<lambda>_. []\<rparr>"

theorem LoadScript_EvalSHA_witness:
  "map_option (\<lambda>(r, _, s'). (r, s')) (EvalSHA demoVM (memoryStorage (\<lambda>_. 0) plainOrders globalMatchingConfig) (\<lambda>_. 1)
     (fst (LoadScript ''x'' (NewEngine []))) [] [] (snd (LoadScript ''x'' (NewEngine []))) demo) =
   map_option (\<lambda>(r, _, s'). (r, s')) (Eval demoVM (memoryStorage (\<lambda>_. 0) plainOrders globalMatchingConfig) (\<lambda>_. 1)
     ''x'' [] [] (snd (LoadScript ''x'' (NewEngine []))) demo)"
  by (rule LoadScript_EvalSHA [of "NewEngine []"]) (simp_all add: NewEngine_def cache_inv_def DefaultMaxScripts_def)


section \<open>Scripts and the store\<close>

context storage_laws
begin

lemma executeLuaCommand_safe: "inv s \<Longrightarrow> \<exists>r s'. executeLuaCommand st now cmd args s = Some (r, s') \<and> inv s'"
proof -
  assume inv: "inv s"
  consider "cmd = ''GET''" | "cmd = ''SET''" | "cmd = ''DEL''" | "cmd = ''EXISTS''" | "cmd = ''TYPE''"
    | "cmd \<notin> {''GET'', ''SET'', ''DEL'', ''EXISTS'', ''TYPE''}" by blast
  then show ?thesis
  proof cases
    case 1
    with get_law [OF inv, of now "args ! 0"] inv show ?thesis by (auto simp: executeLuaCommand_def)
  next
    case 2
    with set_safe [OF inv, of now "args ! 0" "args ! 1" None] inv show ?thesis by (auto simp: executeLuaCommand_def)
  next
    case 3
    with del_law [OF inv, of args] inv show ?thesis by (auto simp: executeLuaCommand_def)
  next
    case 4
    with exists_law [OF inv, of now args] inv show ?thesis by (simp add: executeLuaCommand_def)
  next
    case 5
    with type_law [OF inv, of now "args ! 0"] inv show ?thesis by (simp add: executeLuaCommand_def)
  next
    case 6
    with inv show ?thesis by (simp add: executeLuaCommand_def)
  qed
qed

lemma redisCall_safe: "inv s \<Longrightarrow> \<exists>r s'. redisCall protected vm st now argv s = Some (r, s') \<and> inv s'"
proof -
  assume inv: "inv s"
  have "\<exists>r s'. executeRedisCommand vm st now argv s = Some (r, s') \<and> inv s'"
  proof (cases argv)
    case (Cons name args)
    then show ?thesis
      using executeLuaCommand_safe [OF inv, of now "vmToString vm name" "map (vmToString vm) args"] inv
      by (simp add: executeRedisCommand_def Let_def)
  qed (simp add: executeRedisCommand_def inv)
  then obtain r s' where "executeRedisCommand vm st now argv s = Some (r, s')" "inv s'" by blast
  then show ?thesis by (cases r) (auto simp: redisCall_def)
qed

lemma runLua_safe: "inv s \<Longrightarrow> \<exists>r g s'. runLua run vm st clock i s = Some (r, g, s') \<and> inv s'"
proof (induction run arbitrary: i s)
  case (Call protected argv k)
  obtain r s' where "redisCall protected vm st (clock i) argv s = Some (r, s')" "inv s'"
    using redisCall_safe [OF Call.prems] by blast
  with Call.IH [of "k r" s' "i + 1"] show ?case by simp
qed simp_all

lemma Eval_safe: "inv s \<Longrightarrow> \<exists>r e' s'. Eval vm st clock script keys args e s = Some (r, e', s') \<and> inv s'"
proof -
  assume inv: "inv s"
  obtain g e1 where get: "getLuaState vm e = (g, e1)" by fastforce
  obtain r g' s' where "runLua (vmRun vm (evals e) (setupRedisAPI vm keys args g) script) vm st clock 0 s = Some (r, g', s')" "inv s'"
    using runLua_safe [OF inv] by blast
  with get show ?thesis by (cases r) (auto simp: Eval_def)
qed

lemma EvalSHA_safe: "inv s \<Longrightarrow> \<exists>r e' s'. EvalSHA vm st clock h keys args e s = Some (r, e', s') \<and> inv s'"
  using Eval_safe by (auto simp: EvalSHA_def split: option.split)

end

end
