(* ===== verification/Resp_Stream.thy ===== *)
theory Resp_Stream
  imports Decimal
begin

text \<open>
  The byte stream under the RESP reader (\<^verbatim>\<open>src/protocol/reader.go\<close>) and the values it parses
  (\<^verbatim>\<open>src/protocol/types.go\<close>).

  A stream is the bytes still to come and the error the connection gives once they are used up
  (\<open>EOF\<close> when the peer closed it). The operations of \<^verbatim>\<open>bufio.Reader\<close> and \<^verbatim>\<open>io.ReadFull\<close> that the
  code calls return their result or error together with the stream that is left, because the
  replication loop goes on reading after an error. Every one of them only removes bytes
  from the front, the contract of the locale \<open>stream_op\<close>.
\<close>

section \<open>Streams and errors\<close>

datatype ioerror = EOF | UnexpectedEOF | IOError string

record reader =
  pending :: bytes
  endErr :: ioerror

datatype numerror = ErrSyntax | ErrRange

datatype perror =
    IOErr ioerror
  | EmptyByte
  | UnknownType char
  | SkipUnknownType char
  | InvalidInteger bytes
  | InvalidBulkText bytes
  | InvalidBulkLength int
  | InvalidArrayText bytes
  | InvalidArrayLength int
  | ExpectedBulk char
  | LineRead ioerror
  | LineTooShort nat
  | MissingCRLF char char
  | CRLFRead nat ioerror
  | ExpectedCRLF char char
  | CallbackErr string

text \<open>The text of each error, as the \<^verbatim>\<open>fmt.Errorf\<close> calls build it.\<close>

fun ioerror_text :: "ioerror \<Rightarrow> string" where
  "ioerror_text EOF = ''EOF''"
| "ioerror_text UnexpectedEOF = ''unexpected EOF''"
| "ioerror_text (IOError m) = m"

definition hexdigit :: "nat \<Rightarrow> char" where
  "hexdigit d = ''0123456789abcdef'' ! d"

definition hex02 :: "char \<Rightarrow> string" where
  "hex02 c = [hexdigit (byte_val c div 16), hexdigit (byte_val c mod 16)]"

text \<open>The verb \<open>%c\<close> prints the byte as a Unicode code point, so a byte above 127 takes two bytes of UTF-8.\<close>

definition verb_c :: "char \<Rightarrow> string" where
  "verb_c c = (if byte_val c < 128 then [c]
     else [char_of (192 + byte_val c div 64 :: nat), char_of (128 + byte_val c mod 64 :: nat)])"

fun perror_text :: "perror \<Rightarrow> string" where
  "perror_text (IOErr e) = ioerror_text e"
| "perror_text EmptyByte = ''unknown RESP type: empty byte (connection may be closed)''"
| "perror_text (UnknownType c) = ''unknown RESP type: '' @ verb_c c @ '' (0x'' @ hex02 c @ '')''"
| "perror_text (SkipUnknownType c) = ''unknown RESP type: '' @ verb_c c"
| "perror_text (InvalidInteger l) = ''invalid integer: '' @ l"
| "perror_text (InvalidBulkText l) = ''invalid bulk string length: '' @ l"
| "perror_text (InvalidBulkLength n) = ''invalid bulk string length: '' @ FormatInt n"
| "perror_text (InvalidArrayText l) = ''invalid array length: '' @ l"
| "perror_text (InvalidArrayLength n) = ''invalid array length: '' @ FormatInt n"
| "perror_text (ExpectedBulk c) = ''expected bulk string, got '' @ verb_c c"
| "perror_text (LineRead e) = ''failed to read line: '' @ ioerror_text e"
| "perror_text (LineTooShort n) =
     ''line too short ('' @ show_nat n @ '' bytes), expected CRLF terminator''"
| "perror_text (MissingCRLF a b) = ''missing CRLF terminator, got ['' @ show_nat (byte_val a)
     @ '', '' @ show_nat (byte_val b) @ ''] instead of [13, 10]''"
| "perror_text (CRLFRead n e) = ''failed to read CRLF terminator (read '' @ show_nat n
     @ ''/2 bytes): '' @ ioerror_text e"
| "perror_text (ExpectedCRLF a b) = ''expected CRLF terminator [13, 10], got ['' @
     show_nat (byte_val a) @ '', '' @ show_nat (byte_val b) @ '']''"
| "perror_text (CallbackErr m) = m"

section \<open>The buffered reader\<close>

definition ReadByte :: "reader \<Rightarrow> (ioerror + char) \<times> reader" where
  "ReadByte r = (case pending r of [] \<Rightarrow> (Inl (endErr r), r)
     | c # cs \<Rightarrow> (Inr c, r\<lparr>pending := cs\<rparr>))"

text \<open>\<^verbatim>\<open>ReadBytes(delim)\<close>: everything up to and including the first \<open>delim\<close>.\<close>

definition ReadBytes :: "char \<Rightarrow> reader \<Rightarrow> (ioerror + bytes) \<times> reader" where
  "ReadBytes d r = (let line = takeWhile (\<lambda>c. c \<noteq> d) (pending r);
       rest = dropWhile (\<lambda>c. c \<noteq> d) (pending r)
     in case rest of [] \<Rightarrow> (Inl (endErr r), r\<lparr>pending := []\<rparr>)
        | c # cs \<Rightarrow> (Inr (line @ [c]), r\<lparr>pending := cs\<rparr>))"

text \<open>
  \<^verbatim>\<open>io.ReadFull\<close>: exactly \<open>n\<close> bytes. A stream that ends after some of them is an
  \<open>UnexpectedEOF\<close>; the error comes with the number of bytes read.
\<close>

definition ReadFull :: "nat \<Rightarrow> reader \<Rightarrow> ((nat \<times> ioerror) + bytes) \<times> reader" where
  "ReadFull n r =
     (if n \<le> length (pending r)
      then (Inr (take n (pending r)), r\<lparr>pending := drop n (pending r)\<rparr>)
      else (Inl (length (pending r),
              if pending r \<noteq> [] \<and> endErr r = EOF then UnexpectedEOF else endErr r),
            r\<lparr>pending := []\<rparr>))"

definition Discard :: "nat \<Rightarrow> reader \<Rightarrow> ioerror option \<times> reader" where
  "Discard n r =
     (if n \<le> length (pending r) then (None, r\<lparr>pending := drop n (pending r)\<rparr>)
      else (Some (endErr r), r\<lparr>pending := []\<rparr>))"

section \<open>What every read leaves of the stream\<close>

definition rest_of :: "reader \<Rightarrow> reader \<Rightarrow> bool" where
  "rest_of r' r \<longleftrightarrow> (\<exists>used. pending r = used @ pending r') \<and> endErr r' = endErr r"

lemma rest_of_refl [simp]: "rest_of r r"
  by (simp add: rest_of_def)

lemma rest_of_trans [trans]: "rest_of r2 r1 \<Longrightarrow> rest_of r1 r0 \<Longrightarrow> rest_of r2 r0"
  by (auto simp: rest_of_def)

lemma rest_of_length: "rest_of r' r \<Longrightarrow> length (pending r') \<le> length (pending r)"
  by (auto simp: rest_of_def)

lemma rest_of_drop [simp]: "rest_of (r\<lparr>pending := drop n (pending r)\<rparr>) r"
  by (auto simp: rest_of_def intro: exI [of _ "take n (pending r)"])

lemma rest_of_Nil [simp]: "rest_of (r\<lparr>pending := []\<rparr>) r"
  by (simp add: rest_of_def)

text \<open>
  The contract of a read operation: what it leaves is a tail of what it was given. The client
  lemmas bound the leftover and carry the contract through one operation after another.
\<close>

locale stream_op =
  fixes rd :: "reader \<Rightarrow> 'a \<times> reader"
  assumes rest: "rest_of (snd (rd r)) r"
begin

lemma leftover: "rd r = (x, r') \<Longrightarrow> rest_of r' r"
  using rest [of r] by simp

lemma leftover_length: "rd r = (x, r') \<Longrightarrow> length (pending r') \<le> length (pending r)"
  by (rule rest_of_length) (rule leftover)

lemma shorter: "length (pending (snd (rd r))) \<le> length (pending r)"
  by (cases "rd r") (auto dest: leftover_length)

lemma leftover_endErr: "rd r = (x, r') \<Longrightarrow> endErr r' = endErr r"
  using leftover [of r x r'] by (simp add: rest_of_def)

lemma leftover_after: "rd r1 = (x, r') \<Longrightarrow> rest_of r1 r \<Longrightarrow> rest_of r' r"
  by (rule rest_of_trans) (rule leftover)

end

interpretation ReadByte: stream_op ReadByte
  by unfold_locales (auto simp: ReadByte_def rest_of_def split: list.split)

interpretation ReadBytes: stream_op "ReadBytes d" for d
proof unfold_locales
  fix r
  show "rest_of (snd (ReadBytes d r)) r"
  proof (cases "dropWhile (\<lambda>c. c \<noteq> d) (pending r)")
    case Nil
    then show ?thesis by (simp add: ReadBytes_def del: dropWhile_eq_Nil_conv)
  next
    case (Cons c cs)
    then have "pending r = (takeWhile (\<lambda>c. c \<noteq> d) (pending r) @ [c]) @ cs"
      by (metis append.assoc append_Cons append_Nil takeWhile_dropWhile_id)
    then have "\<exists>used. pending r = used @ cs" by blast
    with Cons show ?thesis by (simp add: ReadBytes_def rest_of_def)
  qed
qed

interpretation ReadFull: stream_op "ReadFull n" for n
  by unfold_locales (simp add: ReadFull_def)

interpretation Discard: stream_op "Discard n" for n
  by unfold_locales (simp add: Discard_def)

lemma ReadByte_Cons [simp]:
  "ReadByte \<lparr>pending = c # cs, endErr = e\<rparr> = (Inr c, \<lparr>pending = cs, endErr = e\<rparr>)"
  by (simp add: ReadByte_def)

lemma ReadByte_shorter: "ReadByte r = (Inr c, r') \<Longrightarrow> length (pending r') < length (pending r)"
  by (auto simp: ReadByte_def split: list.splits)

lemma ReadBytes_ok:
  assumes "ReadBytes d r = (Inr line, r')"
  shows "pending r = line @ pending r' \<and> line \<noteq> []"
proof (cases "dropWhile (\<lambda>c. c \<noteq> d) (pending r)")
  case Nil
  with assms show ?thesis by (simp add: ReadBytes_def del: dropWhile_eq_Nil_conv)
next
  case (Cons c cs)
  then have "line = takeWhile (\<lambda>c. c \<noteq> d) (pending r) @ [c]" "pending r' = cs"
    using assms by (auto simp: ReadBytes_def)
  moreover have "takeWhile (\<lambda>c. c \<noteq> d) (pending r) @ (c # cs) = pending r"
    using takeWhile_dropWhile_id [of "\<lambda>c. c \<noteq> d" "pending r"] Cons by simp
  ultimately show ?thesis by simp
qed

lemma ReadBytes_prefix:
  "d \<notin> set s \<Longrightarrow> ReadBytes d \<lparr>pending = s @ d # rest, endErr = e\<rparr> =
     (Inr (s @ [d]), \<lparr>pending = rest, endErr = e\<rparr>)"
  by (auto simp: ReadBytes_def takeWhile_append dropWhile_append)

lemma ReadFull_prefix:
  "length d = n \<Longrightarrow> ReadFull n \<lparr>pending = d @ rest, endErr = e\<rparr> = (Inr d, \<lparr>pending = rest, endErr = e\<rparr>)"
  by (auto simp: ReadFull_def)

section \<open>RESP values\<close>

text \<open>
  \<open>Value{Type, Data, Integer, Array, IsNull}\<close> of \<^verbatim>\<open>types.go\<close>: one constructor with the five fields of
  the struct, nested through \<open>Array\<close>.
\<close>

datatype pvalue = Value
  (vType: char) (vData: bytes) (vInteger: int) (vArray: "pvalue list") (vIsNull: bool)

abbreviation TypeSimpleString :: char where "TypeSimpleString \<equiv> CHR ''+''"
abbreviation TypeError :: char where "TypeError \<equiv> CHR ''-''"
abbreviation TypeInteger :: char where "TypeInteger \<equiv> CHR '':''"
abbreviation TypeBulkString :: char where "TypeBulkString \<equiv> CHR ''$''"
abbreviation TypeArray :: char where "TypeArray \<equiv> CHR ''*''"
abbreviation TypeNull :: char where "TypeNull \<equiv> CHR ''N''"

text \<open>The struct literals of the code; fields not named are Go's zero values.\<close>

abbreviation SimpleV :: "bytes \<Rightarrow> pvalue" where "SimpleV d \<equiv> Value TypeSimpleString d 0 [] False"
abbreviation ErrorV :: "bytes \<Rightarrow> pvalue" where "ErrorV d \<equiv> Value TypeError d 0 [] False"
abbreviation IntegerV :: "int \<Rightarrow> pvalue" where "IntegerV i \<equiv> Value TypeInteger [] i [] False"
abbreviation BulkV :: "bytes \<Rightarrow> pvalue" where "BulkV d \<equiv> Value TypeBulkString d 0 [] False"
abbreviation NullBulkV :: pvalue where "NullBulkV \<equiv> Value TypeBulkString [] 0 [] True"
abbreviation ArrayV :: "pvalue list \<Rightarrow> pvalue" where "ArrayV vs \<equiv> Value TypeArray [] 0 vs False"
abbreviation NullArrayV :: pvalue where "NullArrayV \<equiv> Value TypeArray [] 0 [] True"

fun joinStrings :: "string \<Rightarrow> string list \<Rightarrow> string" where
  "joinStrings sep [] = []"
| "joinStrings sep [s] = s"
| "joinStrings sep (s # t # ss) = s @ sep @ joinStrings sep (t # ss)"

fun valueString :: "pvalue \<Rightarrow> string" where
  "valueString (Value t d i vs isNull) =
     (if t = TypeSimpleString then d
      else if t = TypeError then d
      else if t = TypeInteger then FormatInt i
      else if t = TypeBulkString then (if isNull then ''(nil)'' else d)
      else if t = TypeArray then
        (if isNull then ''(nil)'' else ''['' @ joinStrings '', '' (map valueString vs) @ '']'')
      else if t = TypeNull then ''(nil)''
      else ''unknown type '' @ verb_c t)"

definition valueBytes :: "pvalue \<Rightarrow> bytes" where
  "valueBytes v = vData v"

definition valueInt :: "pvalue \<Rightarrow> int" where
  "valueInt v = vInteger v"

definition valueIsError :: "pvalue \<Rightarrow> bool" where
  "valueIsError v \<longleftrightarrow> vType v = TypeError"

definition valueError :: "pvalue \<Rightarrow> string" where
  "valueError v = (if vType v = TypeError then vData v else [])"

section \<open>Commands\<close>

record command =
  cmdName :: string
  cmdArgs :: "bytes list"

datatype cmderror = InvalidCommandFormat | NameNotBulk | ArgNotBulk

fun cmderror_text :: "cmderror \<Rightarrow> string" where
  "cmderror_text InvalidCommandFormat = ''invalid command format''"
| "cmderror_text NameNotBulk = ''command name must be bulk string''"
| "cmderror_text ArgNotBulk = ''command arguments must be bulk strings''"

text \<open>The loop over the arguments stops at the first that is not a bulk string.\<close>

fun parseArgs :: "pvalue list \<Rightarrow> cmderror + bytes list" where
  "parseArgs [] = Inr []"
| "parseArgs (v # vs) =
     (if vType v \<noteq> TypeBulkString then Inl ArgNotBulk
      else case parseArgs vs of Inl e \<Rightarrow> Inl e | Inr as \<Rightarrow> Inr (vData v # as))"

definition ParseCommand :: "(string \<Rightarrow> string) \<Rightarrow> pvalue \<Rightarrow> cmderror + command" where
  "ParseCommand U v =
     (if vType v \<noteq> TypeArray then Inl InvalidCommandFormat
      else case vArray v of
        [] \<Rightarrow> Inl InvalidCommandFormat
      | n # vs \<Rightarrow>
          (if vType n \<noteq> TypeBulkString then Inl NameNotBulk
           else case parseArgs vs of
               Inl e \<Rightarrow> Inl e
             | Inr as \<Rightarrow> Inr \<lparr>cmdName = ToUpper U (vData n), cmdArgs = as\<rparr>))"

definition commandString :: "command \<Rightarrow> string" where
  "commandString c = cmdName c @ '' '' @ joinStrings '' '' (cmdArgs c)"

lemma parseArgs_map_BulkV [simp]: "parseArgs (map BulkV as) = Inr as"
  by (induction as) auto

lemma parseArgs_ok_iff: "parseArgs vs = Inr as \<longleftrightarrow>
    (\<forall>v \<in> set vs. vType v = TypeBulkString) \<and> as = map vData vs"
proof (induction vs arbitrary: as)
  case (Cons v vs)
  show ?case
  proof (cases "parseArgs vs")
    case (Inl e)
    with Cons.IH [of "map vData vs"] show ?thesis by auto
  next
    case (Inr ys)
    with Cons.IH [of ys] show ?thesis by auto
  qed
qed auto

end
