(* ===== verification/Resp_Reader.thy ===== *)
theory Resp_Reader
  imports Resp_Stream
begin

text \<open>
  The RESP reader of \<^verbatim>\<open>src/protocol/reader.go\<close>: one definition per method of \<^verbatim>\<open>Reader\<close>, each
  returning its result or error and the stream that is left. \<open>ReadNext\<close>, \<open>readArray\<close> and the loop
  over the elements of an array call each other; they terminate because a value that is
  read uses up at least its type byte.
\<close>

abbreviation maxBulkSize :: int where "maxBulkSize \<equiv> 1024 * 1024 * 1024"
abbreviation maxArraySize :: int where "maxArraySize \<equiv> 1024 * 1024"
abbreviation CRLF :: bytes where "CRLF \<equiv> [CR, LF]"

section \<open>Lines and numbers\<close>

definition readLine :: "reader \<Rightarrow> (perror + bytes) \<times> reader" where
  "readLine r = (case ReadBytes LF r of
       (Inl e, r') \<Rightarrow> (Inl (LineRead e), r')
     | (Inr line, r') \<Rightarrow>
         (let n = length line in
          if n < 2 then (Inl (LineTooShort n), r')
          else if \<not> HasSuffix line CRLF then (Inl (MissingCRLF (line ! (n - 2)) (line ! (n - 1))), r')
          else (Inr (take (n - 2) line), r')))"

definition expectCRLF :: "reader \<Rightarrow> (perror + unit) \<times> reader" where
  "expectCRLF r = (case ReadFull 2 r of
       (Inl (n, e), r') \<Rightarrow> (Inl (CRLFRead n e), r')
     | (Inr crlf, r') \<Rightarrow>
         (if crlf \<noteq> CRLF then (Inl (ExpectedCRLF (crlf ! 0) (crlf ! 1)), r') else (Inr (), r')))"

text \<open>\<^verbatim>\<open>parseInt64\<close>: the loop over the digits, with the overflow test of the source and wrapping arithmetic.\<close>

fun parseInt64_loop :: "int \<Rightarrow> bytes \<Rightarrow> numerror + int" where
  "parseInt64_loop n [] = Inr n"
| "parseInt64_loop n (c # s) =
     (if byte_val c < 48 \<or> byte_val c > 57 then Inl ErrSyntax
      else if n > int64_max div 10 then Inl ErrRange
      else parseInt64_loop (wrap64 (n * 10 + int (byte_val c - 48))) s)"

definition parseInt64 :: "bytes \<Rightarrow> numerror + int" where
  "parseInt64 b = (case b of
       [] \<Rightarrow> Inl ErrSyntax
     | c # s \<Rightarrow>
         (let neg = (c = CHR ''-'');
              digits = (if c = CHR ''-'' \<or> c = CHR ''+'' then s else b)
          in if digits = [] then Inl ErrSyntax
             else case parseInt64_loop 0 digits of
                 Inl e \<Rightarrow> Inl e
               | Inr n \<Rightarrow> Inr (if neg then wrap64 (- n) else n)))"

section \<open>Values\<close>

definition readSimpleString :: "reader \<Rightarrow> (perror + pvalue) \<times> reader" where
  "readSimpleString r = (case readLine r of
       (Inl e, r') \<Rightarrow> (Inl e, r') | (Inr line, r') \<Rightarrow> (Inr (SimpleV line), r'))"

definition readError :: "reader \<Rightarrow> (perror + pvalue) \<times> reader" where
  "readError r = (case readLine r of
       (Inl e, r') \<Rightarrow> (Inl e, r') | (Inr line, r') \<Rightarrow> (Inr (ErrorV line), r'))"

definition readInteger :: "reader \<Rightarrow> (perror + pvalue) \<times> reader" where
  "readInteger r = (case readLine r of
       (Inl e, r') \<Rightarrow> (Inl e, r')
     | (Inr line, r') \<Rightarrow>
         (case parseInt64 line of
            Inl _ \<Rightarrow> (Inl (InvalidInteger line), r') | Inr i \<Rightarrow> (Inr (IntegerV i), r')))"

definition readBulkString :: "reader \<Rightarrow> (perror + pvalue) \<times> reader" where
  "readBulkString r = (case readLine r of
       (Inl e, r') \<Rightarrow> (Inl e, r')
     | (Inr line, r1) \<Rightarrow>
         (case parseInt64 line of
            Inl _ \<Rightarrow> (Inl (InvalidBulkText line), r1)
          | Inr len \<Rightarrow>
              (if len = -1 then (Inr NullBulkV, r1)
               else if len < 0 \<or> len > maxBulkSize then (Inl (InvalidBulkLength len), r1)
               else case ReadFull (nat len) r1 of
                   (Inl (_, e), r2) \<Rightarrow> (Inl (IOErr e), r2)
                 | (Inr data, r2) \<Rightarrow>
                     (case expectCRLF r2 of
                        (Inl e, r3) \<Rightarrow> (Inl e, r3)
                      | (Inr _, r3) \<Rightarrow> (Inr (BulkV data), r3)))))"

section \<open>Each piece only uses up the front of the stream\<close>

interpretation readLine: stream_op readLine
proof unfold_locales
  fix r
  show "rest_of (snd (readLine r)) r"
    by (auto simp: readLine_def Let_def split: prod.split sum.split dest: ReadBytes.leftover)
qed

interpretation expectCRLF: stream_op expectCRLF
proof unfold_locales
  fix r
  show "rest_of (snd (expectCRLF r)) r"
    by (auto simp: expectCRLF_def split: prod.split sum.split dest: ReadFull.leftover)
qed

interpretation readSimpleString: stream_op readSimpleString
  by unfold_locales
    (auto simp: readSimpleString_def split: prod.split sum.split dest: readLine.leftover)

interpretation readError: stream_op readError
  by unfold_locales
    (auto simp: readError_def split: prod.split sum.split dest: readLine.leftover)

interpretation readInteger: stream_op readInteger
  by unfold_locales
    (auto simp: readInteger_def split: prod.split sum.split dest: readLine.leftover)

interpretation readBulkString: stream_op readBulkString
proof unfold_locales
  fix r
  obtain x r1 where line: "readLine r = (x, r1)" by (cases "readLine r")
  then have r1: "rest_of r1 r" by (rule readLine.leftover)
  show "rest_of (snd (readBulkString r)) r"
    using line r1
    by (auto simp: readBulkString_def split: prod.split sum.split
        intro: expectCRLF.leftover_after ReadFull.leftover_after)
qed

section \<open>Reading a value\<close>

function (sequential) ReadNext :: "reader \<Rightarrow> (perror + pvalue) \<times> reader"
  and readArray :: "reader \<Rightarrow> (perror + pvalue) \<times> reader"
  and readElements :: "nat \<Rightarrow> reader \<Rightarrow> (perror + pvalue list) \<times> reader"
where
  "ReadNext r = (case ReadByte r of
       (Inl e, r') \<Rightarrow> (Inl (IOErr e), r')
     | (Inr c, r') \<Rightarrow>
         (if c = TypeSimpleString then readSimpleString r'
          else if c = TypeError then readError r'
          else if c = TypeInteger then readInteger r'
          else if c = TypeBulkString then readBulkString r'
          else if c = TypeArray then readArray r'
          else if c = CHR 0x00 then (Inl EmptyByte, r')
          else (Inl (UnknownType c), r')))"
| "readArray r = (case readLine r of
       (Inl e, r') \<Rightarrow> (Inl e, r')
     | (Inr line, r') \<Rightarrow>
         (case parseInt64 line of
            Inl _ \<Rightarrow> (Inl (InvalidArrayText line), r')
          | Inr len \<Rightarrow>
              (if len = -1 then (Inr NullArrayV, r')
               else if len < 0 \<or> len > maxArraySize then (Inl (InvalidArrayLength len), r')
               else case readElements (nat len) r' of
                   (Inl e, r'') \<Rightarrow> (Inl e, r'')
                 | (Inr vs, r'') \<Rightarrow> (Inr (ArrayV vs), r''))))"
| "readElements 0 r = (Inr [], r)"
| "readElements (Suc n) r = (case ReadNext r of
       (Inl e, r') \<Rightarrow> (Inl e, r')
     | (Inr v, r') \<Rightarrow>
         (case readElements n r' of
            (Inl e, r'') \<Rightarrow> (Inl e, r'') | (Inr vs, r'') \<Rightarrow> (Inr (v # vs), r'')))"
  by pat_completeness auto

lemma readLine_shorter:
  assumes "readLine r = (Inr line, r')"
  shows "length (pending r') < length (pending r)"
proof -
  from assms obtain l where "ReadBytes LF r = (Inr l, r')"
    by (auto simp: readLine_def Let_def split: prod.splits sum.splits if_splits)
  then have "pending r = l @ pending r' \<and> l \<noteq> []" by (rule ReadBytes_ok)
  then show ?thesis by auto
qed

lemmas pieces_leftover = readSimpleString.shorter readError.shorter readInteger.shorter readBulkString.shorter

text \<open>
  The three functions are shown total in two steps: wherever the recursion is defined it leaves
  less of the stream than it was given, and with that every call is on a shorter stream.
\<close>

abbreviation bytesLeft :: "reader \<Rightarrow> nat" where
  "bytesLeft r \<equiv> length (pending r)"

lemma ReadNext_dom_shorter:
  "ReadNext_readArray_readElements_dom (Inl r) \<Longrightarrow>
     bytesLeft (snd (ReadNext r)) \<le> bytesLeft r \<and> (\<forall>v. fst (ReadNext r) = Inr v \<longrightarrow> bytesLeft (snd (ReadNext r)) < bytesLeft r)"
  "ReadNext_readArray_readElements_dom (Inr (Inl r)) \<Longrightarrow> bytesLeft (snd (readArray r)) \<le> bytesLeft r"
  "ReadNext_readArray_readElements_dom (Inr (Inr (n, r))) \<Longrightarrow> bytesLeft (snd (readElements n r)) \<le> bytesLeft r"
proof (induction r and r and n r rule: ReadNext_readArray_readElements.pinduct)
  case (1 r)
  obtain y r1 where Pair: "ReadByte r = (y, r1)" by (cases "ReadByte r")
  show ?case
  proof (cases y)
    case (Inr c)
    have "bytesLeft (snd (ReadNext r)) \<le> bytesLeft r1"
      using Pair Inr "1.hyps" "1.IH" [OF Pair [symmetric] Inr] by (auto simp: ReadNext.psimps pieces_leftover)
    with ReadByte_shorter [of r c r1] Pair Inr show ?thesis by simp
  qed (use Pair "1.hyps" in \<open>auto simp: ReadNext.psimps dest: ReadByte.leftover_length\<close>)
next
  case (2 r)
  obtain y r1 where Pair: "readLine r = (y, r1)" by (cases "readLine r")
  then have r1: "bytesLeft r1 \<le> bytesLeft r" by (rule readLine.leftover_length)
  show ?case
  proof (cases y)
    case (Inr line)
    have "bytesLeft (snd (readArray r)) \<le> bytesLeft r1"
      using Pair Inr "2.hyps" "2.IH" [OF Pair [symmetric] Inr] by (auto simp: readArray.psimps split: sum.split prod.split)
    with r1 show ?thesis by simp
  qed (use Pair "2.hyps" r1 in \<open>simp add: readArray.psimps\<close>)
next
  case (3 r)
  then show ?case by (simp add: readElements.psimps)
next
  case (4 n r)
  obtain y r1 where Pair: "ReadNext r = (y, r1)" by (cases "ReadNext r")
  show ?case
  proof (cases y)
    case (Inr v)
    have "bytesLeft (snd (readElements (Suc n) r)) \<le> bytesLeft r1"
      using Pair Inr "4.hyps" "4.IH"(2) [OF Pair [symmetric] Inr] by (auto simp: readElements.psimps split: sum.split prod.split)
    with "4.IH"(1) Pair show ?thesis by simp
  qed (use Pair "4.hyps" "4.IH"(1) in \<open>simp add: readElements.psimps\<close>)
qed

termination ReadNext
proof (relation "measure (case_sum (\<lambda>r. 2 * length (pending r))
    (case_sum (\<lambda>r. 2 * length (pending r) + 1) (\<lambda>(n, r). 2 * length (pending r) + 1)))", goal_cases)
  case 1
  show ?case by simp
next
  case (2 r x r1 c)
  then have "length (pending r1) < length (pending r)"
    by (auto dest: sym intro: ReadByte_shorter)
  then show ?case by simp
next
  case (3 r x r1 line len)
  then have "length (pending r1) < length (pending r)"
    by (auto dest: sym intro: readLine_shorter)
  then show ?case by simp
next
  case (4 n r)
  show ?case by simp
next
  case (5 n r x r1 v)
  then have "length (pending r1) < length (pending r)"
    using ReadNext_dom_shorter(1) [of r] by (metis fst_conv snd_conv)
  then show ?case by simp
qed


lemma ReadNext_rest:
  "rest_of (snd (ReadNext r)) r"
  "rest_of (snd (readArray r)) r"
  "rest_of (snd (readElements n r)) r"
proof (induction r and r and n r rule: ReadNext_readArray_readElements.induct)
  case (1 r)
  obtain y r1 where Pair: "ReadByte r = (y, r1)" by (cases "ReadByte r")
  then have r1: "rest_of r1 r" by (rule ReadByte.leftover)
  show ?case
  proof (cases y)
    case (Inr c)
    have "rest_of (snd (ReadNext r)) r1"
      using Pair Inr "1.IH" [OF Pair [symmetric] Inr] readSimpleString.rest readError.rest
        readInteger.rest readBulkString.rest by auto
    then show ?thesis using r1 by (rule rest_of_trans)
  qed (use Pair r1 in simp)
next
  case (2 r)
  obtain y r1 where Pair: "readLine r = (y, r1)" by (cases "readLine r")
  then have r1: "rest_of r1 r" by (rule readLine.leftover)
  show ?case
  proof (cases y)
    case (Inr line)
    have "rest_of (snd (readArray r)) r1"
      using Pair Inr "2.IH" [OF Pair [symmetric] Inr] by (auto split: sum.split prod.split)
    then show ?thesis using r1 by (rule rest_of_trans)
  qed (use Pair r1 in simp)
next
  case (4 n r)
  obtain y r1 where Pair: "ReadNext r = (y, r1)" by (cases "ReadNext r")
  with "4.IH"(1) have r1: "rest_of r1 r" by simp
  show ?case
  proof (cases y)
    case (Inr v)
    have "rest_of (snd (readElements (Suc n) r)) r1"
      using Pair Inr "4.IH"(2) [OF Pair [symmetric] Inr] by (auto split: sum.split prod.split)
    then show ?thesis using r1 by (rule rest_of_trans)
  qed (use Pair r1 in simp)
qed simp

declare ReadNext.simps [simp del] readArray.simps [simp del] readElements.simps [simp del]

interpretation ReadNext: stream_op ReadNext
  by unfold_locales (rule ReadNext_rest)

interpretation readArray: stream_op readArray
  by unfold_locales (rule ReadNext_rest)

interpretation readElements: stream_op "readElements n" for n
  by unfold_locales (rule ReadNext_rest)

lemma ReadNext_shorter:
  assumes "ReadNext r = (x, r')" and "pending r \<noteq> []"
  shows "length (pending r') < length (pending r)"
proof -
  obtain c r1 where byte: "ReadByte r = (Inr c, r1)"
    using assms(2) by (cases "pending r") (auto simp: ReadByte_def)
  then have "length (pending r1) < length (pending r)" by (rule ReadByte_shorter)
  moreover have "length (pending r') \<le> length (pending r1)"
    using assms(1) byte
    by (auto simp: ReadNext.simps split: if_splits dest: readSimpleString.leftover_length readError.leftover_length
      readInteger.leftover_length readBulkString.leftover_length readArray.leftover_length)
  ultimately show ?thesis by simp
qed

lemma ReadNext_empty: "pending r = [] \<Longrightarrow> ReadNext r = (Inl (IOErr (endErr r)), r)"
  by (simp add: ReadNext.simps ReadByte_def)

section \<open>Skipping a value\<close>

function (sequential) Skip :: "reader \<Rightarrow> (perror + unit) \<times> reader"
  and skipElements :: "nat \<Rightarrow> reader \<Rightarrow> (perror + unit) \<times> reader"
where
  "Skip r = (case ReadByte r of
       (Inl e, r') \<Rightarrow> (Inl (IOErr e), r')
     | (Inr c, r1) \<Rightarrow>
         (if c = TypeSimpleString \<or> c = TypeError \<or> c = TypeInteger then
            (case readLine r1 of (Inl e, r') \<Rightarrow> (Inl e, r') | (Inr _, r') \<Rightarrow> (Inr (), r'))
          else if c = TypeBulkString then
            (case readLine r1 of
               (Inl e, r') \<Rightarrow> (Inl e, r')
             | (Inr line, r2) \<Rightarrow>
                 (case parseInt64 line of
                    Inl _ \<Rightarrow> (Inl (InvalidBulkText line), r2)
                  | Inr len \<Rightarrow>
                      (if len = -1 then (Inr (), r2)
                       else if len < 0 \<or> len > maxBulkSize then (Inl (InvalidBulkLength len), r2)
                       else case Discard (nat len + 2) r2 of
                           (Some e, r3) \<Rightarrow> (Inl (IOErr e), r3)
                         | (None, r3) \<Rightarrow> (Inr (), r3))))
          else if c = TypeArray then
            (case readLine r1 of
               (Inl e, r') \<Rightarrow> (Inl e, r')
             | (Inr line, r2) \<Rightarrow>
                 (case parseInt64 line of
                    Inl _ \<Rightarrow> (Inl (InvalidArrayText line), r2)
                  | Inr len \<Rightarrow>
                      (if len = -1 then (Inr (), r2)
                       else if len < 0 \<or> len > maxArraySize then (Inl (InvalidArrayLength len), r2)
                       else skipElements (nat len) r2)))
          else (Inl (SkipUnknownType c), r1)))"
| "skipElements 0 r = (Inr (), r)"
| "skipElements (Suc n) r = (case Skip r of
       (Inl e, r') \<Rightarrow> (Inl e, r') | (Inr _, r') \<Rightarrow> skipElements n r')"
  by pat_completeness auto


lemma Skip_dom_shorter:
  "Skip_skipElements_dom (Inl r) \<Longrightarrow> bytesLeft (snd (Skip r)) \<le> bytesLeft r \<and> (\<forall>v. fst (Skip r) = Inr v \<longrightarrow> bytesLeft (snd (Skip r)) < bytesLeft r)"
  "Skip_skipElements_dom (Inr (n, r)) \<Longrightarrow> bytesLeft (snd (skipElements n r)) \<le> bytesLeft r"
proof (induction r and n r rule: Skip_skipElements.pinduct)
  case (1 r)
  obtain y r1 where Pair: "ReadByte r = (y, r1)" by (cases "ReadByte r")
  show ?case
  proof (cases y)
    case (Inr c)
    obtain z r2 where line: "readLine r1 = (z, r2)" by (cases "readLine r1")
    then have "bytesLeft r2 \<le> bytesLeft r1" by (rule readLine.leftover_length)
    moreover have "snd (Skip r) = r1 \<or> bytesLeft (snd (Skip r)) \<le> bytesLeft r2"
      using Pair Inr line "1.hyps" "1.IH" [OF Pair [symmetric] Inr]
      by (auto simp: Skip.psimps split: sum.split prod.split option.split dest: Discard.leftover_length)
    ultimately show ?thesis using ReadByte_shorter [of r c r1] Pair Inr by auto
  qed (use Pair "1.hyps" in \<open>auto simp: Skip.psimps dest: ReadByte.leftover_length\<close>)
next
  case (2 r)
  then show ?case by (simp add: skipElements.psimps)
next
  case (3 n r)
  obtain y r1 where Pair: "Skip r = (y, r1)" by (cases "Skip r")
  show ?case
  proof (cases y)
    case (Inr v)
    have "bytesLeft (snd (skipElements (Suc n) r)) \<le> bytesLeft r1"
      using Pair Inr "3.hyps" "3.IH"(2) [OF Pair [symmetric] Inr] by (simp add: skipElements.psimps)
    with "3.IH"(1) Pair show ?thesis by simp
  qed (use Pair "3.hyps" "3.IH"(1) in \<open>simp add: skipElements.psimps\<close>)
qed

termination Skip
proof (relation "measure (case_sum (\<lambda>r. 2 * length (pending r))
    (\<lambda>(n, r). 2 * length (pending r) + 1))", goal_cases)
  case 1
  show ?case by simp
next
  case (2 r x r1 c x' r2 line len)
  then have "length (pending r1) < length (pending r)" "length (pending r2) < length (pending r1)"
    by (auto dest: sym intro: ReadByte_shorter readLine_shorter)
  then show ?case by simp
next
  case (3 n r)
  show ?case by simp
next
  case (4 n r x r1 v)
  then have "length (pending r1) < length (pending r)"
    using Skip_dom_shorter(1) [of r] by (metis fst_conv snd_conv)
  then show ?case by simp
qed

declare Skip.simps [simp del] skipElements.simps [simp del]

section \<open>Bulk strings in chunks\<close>

text \<open>
  \<^verbatim>\<open>ReadBulkString\<close> hands the data to a callback in chunks of at most 8192 bytes. The callback is an
  argument that updates a state of its own and may fail with a message; \<open>None\<close> as
  its chunk is the \<^verbatim>\<open>nil\<close> it gets for a null bulk string.
\<close>

type_synonym 's chunk_fn = "'s \<Rightarrow> bytes option \<Rightarrow> string option \<times> 's"

definition chunkSize :: nat where "chunkSize = 8192"

lemma ReadFull_length: "ReadFull n r = (Inr d, r') \<Longrightarrow> length d = n"
  by (auto simp: ReadFull_def split: if_splits)

function readChunks :: "'s chunk_fn \<Rightarrow> nat \<Rightarrow> reader \<Rightarrow> 's \<Rightarrow> (perror + unit) \<times> reader \<times> 's" where
  "readChunks fn remaining r s =
     (if remaining = 0 then (Inr (), r, s)
      else let toRead = (if remaining < chunkSize then remaining else chunkSize) in
        case ReadFull toRead r of
          (Inl (_, e), r') \<Rightarrow> (Inl (IOErr e), r', s)
        | (Inr chunk, r') \<Rightarrow>
            (case fn s (Some chunk) of
               (Some m, s') \<Rightarrow> (Inl (CallbackErr m), r', s')
             | (None, s') \<Rightarrow> readChunks fn (remaining - length chunk) r' s'))"
  by pat_completeness auto

termination
  by (relation "measure (\<lambda>(fn, remaining, r, s). remaining)")
    (auto dest!: sym [of _ "ReadFull _ _"] ReadFull_length simp: chunkSize_def split: if_splits)

declare readChunks.simps [simp del]

definition readBulkHeader :: "reader \<Rightarrow> (perror + int) \<times> reader" where
  "readBulkHeader r = (case ReadByte r of
       (Inl e, r') \<Rightarrow> (Inl (IOErr e), r')
     | (Inr c, r1) \<Rightarrow>
         (if c \<noteq> TypeBulkString then (Inl (ExpectedBulk c), r1)
          else case readLine r1 of
              (Inl e, r') \<Rightarrow> (Inl e, r')
            | (Inr line, r2) \<Rightarrow>
                (case parseInt64 line of
                   Inl _ \<Rightarrow> (Inl (InvalidBulkText line), r2)
                 | Inr len \<Rightarrow> (Inr len, r2))))"

text \<open>The common part of the two methods; they differ in what follows the data.\<close>

definition readBulkData :: "'s chunk_fn \<Rightarrow> (reader \<Rightarrow> (perror + unit) \<times> reader) \<Rightarrow>
    reader \<Rightarrow> 's \<Rightarrow> (perror + unit) \<times> reader \<times> 's" where
  "readBulkData fn after r s = (case readBulkHeader r of
       (Inl e, r') \<Rightarrow> (Inl e, r', s)
     | (Inr len, r1) \<Rightarrow>
         (if len = -1 then
            (case fn s None of
               (Some m, s') \<Rightarrow> (Inl (CallbackErr m), r1, s') | (None, s') \<Rightarrow> (Inr (), r1, s'))
          else if len < 0 \<or> len > maxBulkSize then (Inl (InvalidBulkLength len), r1, s)
          else case readChunks fn (nat len) r1 s of
              (Inl e, r', s') \<Rightarrow> (Inl e, r', s')
            | (Inr _, r2, s') \<Rightarrow> (case after r2 of (x, r3) \<Rightarrow> (x, r3, s'))))"

definition ReadBulkString :: "'s chunk_fn \<Rightarrow> reader \<Rightarrow> 's \<Rightarrow> (perror + unit) \<times> reader \<times> 's" where
  "ReadBulkString fn r s = readBulkData fn expectCRLF r s"

definition ReadBulkStringForReplication ::
    "'s chunk_fn \<Rightarrow> reader \<Rightarrow> 's \<Rightarrow> (perror + unit) \<times> reader \<times> 's" where
  "ReadBulkStringForReplication fn r s = readBulkData fn (\<lambda>r'. (Inr (), r')) r s"

end
