(* ===== verification/Resp_Writer.thy ===== *)
theory Resp_Writer
  imports Resp_Reader
begin

text \<open>
  The RESP writer of \<^verbatim>\<open>src/protocol/writer.go\<close>. A writer is the byte sequence it has put out
  (buffered or sent, the order is the same) and the sticky error of \<^verbatim>\<open>bufio.Writer\<close>: once a write to the
  connection has failed, every later write and flush returns that error and puts out nothing.
\<close>

record writer =
  written :: bytes
  werr :: "string option"

datatype writeerror = BufErr string | UnsupportedType char

type_synonym wop = "writer \<Rightarrow> writeerror option \<times> writer"

definition bwWrite :: "bytes \<Rightarrow> wop" where
  "bwWrite s w = (case werr w of
       Some m \<Rightarrow> (Some (BufErr m), w)
     | None \<Rightarrow> (None, w\<lparr>written := written w @ s\<rparr>))"

text \<open>\<open>if err := f(); err != nil \<open>{ return err }\<close>; return g()\<close>\<close>

definition wseq :: "wop \<Rightarrow> wop \<Rightarrow> wop" where
  "wseq f g w = (case f w of (Some e, w') \<Rightarrow> (Some e, w') | (None, w') \<Rightarrow> g w')"

definition Flush :: wop where
  "Flush w = (map_option BufErr (werr w), w)"

text \<open>\<^verbatim>\<open>Reset\<close> turns to another connection: what is not flushed is dropped and the error is forgotten.\<close>

definition Reset :: "writer \<Rightarrow> writer" where
  "Reset w = \<lparr>written = [], werr = None\<rparr>"

definition writeCRLF :: wop where
  "writeCRLF = bwWrite CRLF"

definition WriteSimpleString :: "string \<Rightarrow> wop" where
  "WriteSimpleString s = wseq (bwWrite ''+'') (wseq (bwWrite s) writeCRLF)"

definition WriteError :: "string \<Rightarrow> wop" where
  "WriteError msg = wseq (bwWrite ''-'') (wseq (bwWrite msg) writeCRLF)"

definition WriteInteger :: "int \<Rightarrow> wop" where
  "WriteInteger n = wseq (bwWrite '':'') (wseq (bwWrite (FormatInt n)) writeCRLF)"

definition WriteBulkString :: "bytes \<Rightarrow> wop" where
  "WriteBulkString d = wseq (bwWrite ''$'') (wseq (bwWrite (FormatInt (int (length d))))
     (wseq writeCRLF (wseq (bwWrite d) writeCRLF)))"

definition WriteBulkStringFromString :: "string \<Rightarrow> wop" where
  "WriteBulkStringFromString s = WriteBulkString s"

definition WriteNullBulkString :: wop where
  "WriteNullBulkString = wseq (bwWrite ''$-1'') writeCRLF"

definition WriteNullArray :: wop where
  "WriteNullArray = wseq (bwWrite ''*-1'') writeCRLF"

definition writeArrayHeader :: "nat \<Rightarrow> wop" where
  "writeArrayHeader n = wseq (bwWrite ''*'') (wseq (bwWrite (FormatInt (int n))) writeCRLF)"

fun WriteValue :: "pvalue \<Rightarrow> wop" and WriteElements :: "pvalue list \<Rightarrow> wop" where
  "WriteValue (Value t d i vs isNull) w =
     (if t = TypeSimpleString then WriteSimpleString d w
      else if t = TypeError then WriteError d w
      else if t = TypeInteger then WriteInteger i w
      else if t = TypeBulkString then
        (if isNull then WriteNullBulkString w else WriteBulkString d w)
      else if t = TypeArray then
        (if isNull then WriteNullArray w
         else case writeArrayHeader (length vs) w of
             (Some e, w') \<Rightarrow> (Some e, w') | (None, w') \<Rightarrow> WriteElements vs w')
      else (Some (UnsupportedType t), w))"
| "WriteElements [] w = (None, w)"
| "WriteElements (v # vs) w =
     (case WriteValue v w of (Some e, w') \<Rightarrow> (Some e, w') | (None, w') \<Rightarrow> WriteElements vs w')"

definition WriteArray :: "pvalue list \<Rightarrow> wop" where
  "WriteArray vs = wseq (writeArrayHeader (length vs)) (WriteElements vs)"

fun writeStrings :: "string list \<Rightarrow> wop" where
  "writeStrings [] w = (None, w)"
| "writeStrings (a # as) w = wseq (WriteBulkStringFromString a) (writeStrings as) w"

definition WriteCommand :: "string \<Rightarrow> string list \<Rightarrow> wop" where
  "WriteCommand cmd args =
     wseq (bwWrite ''*'') (wseq (bwWrite (FormatInt (1 + int (length args))))
       (wseq writeCRLF (wseq (WriteBulkStringFromString cmd) (writeStrings args))))"

definition WriteOK :: wop where "WriteOK = WriteSimpleString ''OK''"
definition WritePONG :: wop where "WritePONG = WriteSimpleString ''PONG''"

section \<open>What the operations put out\<close>

text \<open>
  The specification of the wire format: the bytes of a value. The writer produces exactly them
  when the connection takes its bytes, and nothing once the connection has failed.
\<close>

fun wire :: "pvalue \<Rightarrow> bytes" where
  "wire (Value t d i vs isNull) =
     (if t = TypeSimpleString then ''+'' @ d @ CRLF
      else if t = TypeError then ''-'' @ d @ CRLF
      else if t = TypeInteger then '':'' @ FormatInt i @ CRLF
      else if t = TypeBulkString then
        (if isNull then ''$-1'' @ CRLF
         else ''$'' @ FormatInt (int (length d)) @ CRLF @ d @ CRLF)
      else if isNull then ''*-1'' @ CRLF
      else ''*'' @ FormatInt (int (length vs)) @ CRLF @ concat (map wire vs))"

text \<open>A type the writer knows, at every level.\<close>

fun writable :: "pvalue \<Rightarrow> bool" where
  "writable (Value t d i vs isNull) =
     (t \<in> {TypeSimpleString, TypeError, TypeInteger, TypeBulkString} \<or>
      t = TypeArray \<and> (isNull \<or> list_all writable vs))"

definition puts :: "wop \<Rightarrow> bytes \<Rightarrow> bool" where
  "puts f s \<longleftrightarrow> (\<forall>w. f w = (case werr w of
       Some m \<Rightarrow> (Some (BufErr m), w) | None \<Rightarrow> (None, w\<lparr>written := written w @ s\<rparr>)))"

text \<open>The same, of an operation that may be empty and so not notice the failure.\<close>

definition appends :: "wop \<Rightarrow> bytes \<Rightarrow> bool" where
  "appends f s \<longleftrightarrow> (\<forall>w. werr w = None \<longrightarrow> f w = (None, w\<lparr>written := written w @ s\<rparr>))"

lemma puts_appends: "puts f s \<Longrightarrow> appends f s"
  by (simp add: puts_def appends_def)

lemma appends_wseq: "appends f s \<Longrightarrow> appends g t \<Longrightarrow> appends (wseq f g) (s @ t)"
  by (auto simp: appends_def wseq_def)

lemma puts_wseq_appends: "puts f s \<Longrightarrow> appends g t \<Longrightarrow> puts (wseq f g) (s @ t)"
  by (auto simp: puts_def appends_def wseq_def split: option.split)

lemma puts_bwWrite [intro, simp]: "puts (bwWrite s) s"
  by (simp add: puts_def bwWrite_def)

lemma puts_wseq [intro]: "puts f s \<Longrightarrow> puts g t \<Longrightarrow> puts (wseq f g) (s @ t)"
  by (rule puts_wseq_appends) (auto intro: puts_appends)

lemma puts_ok: "puts f s \<Longrightarrow> werr w = None \<Longrightarrow> f w = (None, w\<lparr>written := written w @ s\<rparr>)"
  by (simp add: puts_def)

lemma puts_failed: "puts f s \<Longrightarrow> werr w = Some m \<Longrightarrow> f w = (Some (BufErr m), w)"
  by (simp add: puts_def)

lemma puts_writeCRLF [intro, simp]: "puts writeCRLF CRLF"
  by (simp add: writeCRLF_def)

lemma puts_WriteSimpleString: "puts (WriteSimpleString s) (''+'' @ s @ CRLF)"
  unfolding WriteSimpleString_def by (intro puts_wseq puts_bwWrite puts_writeCRLF)

lemma puts_WriteError: "puts (WriteError s) (''-'' @ s @ CRLF)"
  unfolding WriteError_def by (intro puts_wseq puts_bwWrite puts_writeCRLF)

lemma puts_WriteInteger: "puts (WriteInteger i) ('':'' @ FormatInt i @ CRLF)"
  unfolding WriteInteger_def by (intro puts_wseq puts_bwWrite puts_writeCRLF)

lemma puts_WriteBulkString:
  "puts (WriteBulkString d) (''$'' @ FormatInt (int (length d)) @ CRLF @ d @ CRLF)"
  unfolding WriteBulkString_def by (intro puts_wseq puts_bwWrite puts_writeCRLF)

lemma puts_WriteNullBulkString: "puts WriteNullBulkString (''$-1'' @ CRLF)"
  unfolding WriteNullBulkString_def by (intro puts_wseq puts_bwWrite puts_writeCRLF)

lemma puts_WriteNullArray: "puts WriteNullArray (''*-1'' @ CRLF)"
  unfolding WriteNullArray_def by (intro puts_wseq puts_bwWrite puts_writeCRLF)

lemma puts_writeArrayHeader: "puts (writeArrayHeader n) (''*'' @ FormatInt (int n) @ CRLF)"
  unfolding writeArrayHeader_def by (intro puts_wseq puts_bwWrite puts_writeCRLF)

lemmas puts_pieces = puts_WriteSimpleString puts_WriteError puts_WriteInteger puts_WriteBulkString
  puts_WriteNullBulkString puts_WriteNullArray puts_writeArrayHeader

lemma puts_WriteValue:
  "writable v \<Longrightarrow> puts (WriteValue v) (wire v)"
proof (induction v)
  case (Value t d i vs isNull)
  have elems: "list_all writable us \<Longrightarrow> set us \<subseteq> set vs \<Longrightarrow>
      appends (WriteElements us) (concat (map wire us))" for us
  proof (induction us)
    case Nil
    then show ?case by (simp add: appends_def)
  next
    case (Cons u us)
    have "WriteElements (u # us) = wseq (WriteValue u) (WriteElements us)"
      by (rule ext) (simp add: wseq_def)
    with Cons Value.IH [of u] show ?case by (auto intro!: appends_wseq intro: puts_appends)
  qed
  have arr: "puts (WriteArray vs) (''*'' @ FormatInt (int (length vs)) @ CRLF @ concat (map wire vs))"
    if "list_all writable vs"
    using puts_wseq_appends [OF puts_writeArrayHeader elems [OF that subset_refl], of "length vs"]
    by (simp add: WriteArray_def)
  have "WriteValue (Value t d i vs isNull) =
      (if t = TypeSimpleString then WriteSimpleString d else if t = TypeError then WriteError d
       else if t = TypeInteger then WriteInteger i
       else if t = TypeBulkString then (if isNull then WriteNullBulkString else WriteBulkString d)
       else if t = TypeArray then (if isNull then WriteNullArray else WriteArray vs)
       else (\<lambda>w. (Some (UnsupportedType t), w)))"
    by (rule ext) (simp add: WriteArray_def wseq_def)
  with Value.prems arr show ?case
    using puts_pieces by (auto simp del: WriteValue.simps)
qed

lemma puts_WriteArray:
  assumes "list_all writable vs"
  shows "puts (WriteArray vs) (wire (ArrayV vs))"
proof -
  have "WriteArray vs = WriteValue (ArrayV vs)"
    by (rule ext) (simp add: WriteArray_def wseq_def)
  with assms show ?thesis by (simp only:) (rule puts_WriteValue, simp)
qed

lemma appends_writeStrings:
  "appends (writeStrings as) (concat (map (\<lambda>a. wire (BulkV a)) as))"
proof (induction as)
  case Nil
  then show ?case by (simp add: appends_def)
next
  case (Cons a as)
  have "writeStrings (a # as) = wseq (WriteBulkString a) (writeStrings as)"
    by (rule ext) (simp add: WriteBulkStringFromString_def)
  with appends_wseq [OF puts_appends [OF puts_WriteBulkString [of a]] Cons.IH] show ?case by simp
qed

text \<open>A command goes out as the array of bulk strings that \<open>WriteArray\<close> would write.\<close>

lemma puts_WriteCommand:
  "puts (WriteCommand cmd args) (wire (ArrayV (map BulkV (cmd # args))))"
proof -
  have "puts (WriteCommand cmd args) (''*'' @ FormatInt (1 + int (length args)) @ CRLF @
      (''$'' @ FormatInt (int (length cmd)) @ CRLF @ cmd @ CRLF) @
      concat (map (\<lambda>a. wire (BulkV a)) args))"
    unfolding WriteCommand_def WriteBulkStringFromString_def
    by (intro puts_wseq puts_wseq_appends puts_bwWrite puts_writeCRLF puts_WriteBulkString
        appends_writeStrings)
  then show ?thesis by (simp add: add.commute comp_def)
qed

end
