(* ===== verification/Resp_Correct.thy ===== *)
theory Resp_Correct
  imports Resp_Writer
begin

text \<open>
  Correctness of the protocol package: what the integer parser computes, the round trip of the
  writer and the reader, and what \<open>Skip\<close> and the chunked reads have in common with \<open>ReadNext\<close>.
\<close>

section \<open>The integer parser\<close>

lemma int64_bounds: "int64_max = 9223372036854775807" "int64_min = - 9223372036854775808"
  by (simp_all add: int64_max_def int64_min_def)

lemma wrap64_le_max: "0 \<le> i \<Longrightarrow> i \<le> int64_max \<Longrightarrow> wrap64 i = i"
  by (rule wrap64_id) (simp add: in_int64_def int64_bounds)

lemma dec_val_Cons_ge: "a * 10 \<le> dec_val a (c # s)"
  using dec_val_ge [of "a * 10 + digit_val c" s] by simp

text \<open>
  As long as the number does not exceed 2^63 the loop computes it modulo the word size: the only
  value that wraps is 2^63 itself, at the last digit.
\<close>

lemma parseInt64_loop_digits:
  assumes "list_all is_digit s" and "int (dec_val a s) \<le> 2 ^ 63"
    and "s = [] \<or> int a \<le> int64_max"
  shows "parseInt64_loop (wrap64 (int a)) s = Inr (wrap64 (int (dec_val a s)))"
  using assms
proof (induction s arbitrary: a)
  case (Cons c s)
  have digit: "\<not> (byte_val c < 48 \<or> byte_val c > 57)" "byte_val c - 48 = digit_val c"
    using Cons.prems(1) by (auto simp: is_digit_def digit_val_def)
  have a: "wrap64 (int a) = int a" using Cons.prems(3) by (intro wrap64_le_max) auto
  have "10 * int a \<le> 2 ^ 63"
    using dec_val_Cons_ge [of a c s] Cons.prems(2) by linarith
  then have noerr: "\<not> int a > int64_max div 10" by (simp add: int64_bounds)
  have "int (dec_val (a * 10 + digit_val c) s) \<le> 2 ^ 63" using Cons.prems(2) by simp
  moreover have "s = [] \<or> int (a * 10 + digit_val c) \<le> int64_max"
  proof (cases s)
    case (Cons c' s')
    then have "(a * 10 + digit_val c) * 10 \<le> dec_val (a * 10 + digit_val c) s"
      using dec_val_Cons_ge [of "a * 10 + digit_val c" c' s'] by (simp only:)
    then have "int ((a * 10 + digit_val c) * 10) \<le> 2 ^ 63" using calculation by linarith
    then show ?thesis by (simp add: int64_bounds)
  qed simp
  ultimately have "parseInt64_loop (wrap64 (int (a * 10 + digit_val c))) s =
      Inr (wrap64 (int (dec_val (a * 10 + digit_val c) s)))"
    using Cons.prems(1) by (intro Cons.IH) auto
  moreover have "int (a * 10 + digit_val c) = int a * 10 + int (digit_val c)" by simp
  ultimately show ?case
    by (simp only: parseInt64_loop.simps digit noerr a if_False dec_val.simps)
qed simp

lemma parseInt64_unsigned:
  assumes "list_all is_digit s" and "s \<noteq> []" and "int (dec_val 0 s) \<le> 2 ^ 63"
  shows "parseInt64_loop 0 s = Inr (wrap64 (int (dec_val 0 s)))"
  using parseInt64_loop_digits [of s 0] assms by (simp add: wrap64_def int64_bounds)

lemma parseInt64_FormatInt: "in_int64 i \<Longrightarrow> parseInt64 (FormatInt i) = Inr i"
proof (cases "i < 0")
  assume i: "in_int64 i"
  have digits: "list_all is_digit (show_nat n)" for n
    by (auto simp: list_all_iff dest: show_nat_digits)
  {
    case True
    with i have "parseInt64_loop 0 (show_nat (nat (- i))) = Inr (wrap64 (- i))"
      using parseInt64_unsigned [OF digits, of "nat (- i)"]
      by (simp add: in_int64_def int64_bounds)
    moreover have "wrap64 (- wrap64 (- i)) = i"
    proof (cases "i = int64_min")
      case True
      then show ?thesis by (simp add: wrap64_def int64_bounds)
    next
      case False
      with i \<open>i < 0\<close> have "wrap64 (- i) = - i" by (intro wrap64_le_max) (auto simp: in_int64_def int64_bounds)
      with i show ?thesis by (simp add: wrap64_id)
    qed
    ultimately show ?thesis using True by (simp add: FormatInt_def parseInt64_def Let_def)
  next
    case False
    with i have "parseInt64_loop 0 (show_nat (nat i)) = Inr i"
      using parseInt64_unsigned [OF digits, of "nat i"]
      by (simp add: in_int64_def int64_bounds wrap64_id)
    moreover obtain c s where "show_nat (nat i) = c # s" "c \<noteq> CHR ''-''" "c \<noteq> CHR ''+''"
      by (rule show_nat_Cons)
    ultimately show ?thesis using False by (simp add: FormatInt_def parseInt64_def Let_def)
  }
qed

text \<open>
  On a decimal text whose value fits 64 bits, the allocation-free \<open>parseInt64\<close> of the
  reader returns exactly what the standard library's \<open>strconv.ParseInt\<close> returns.
\<close>

theorem parseInt64_agrees_with_ParseInt:
  assumes "ParseInt s = Some i"
  shows "parseInt64 s = Inr i"
proof (cases s)
  case (Cons c t)
  define ds where "ds = (if c = CHR ''-'' \<or> c = CHR ''+'' then t else s)"
  have "\<exists>m. parse_magnitude ds = Some m \<and> in_int64 i \<and> i = (if c = CHR ''-'' then - int m else int m)"
    using assms Cons by (auto simp: ds_def range64_def Option.bind_eq_Some_conv split: if_splits)
  then obtain m where m: "parse_magnitude ds = Some m" and i: "in_int64 i"
    and im: "i = (if c = CHR ''-'' then - int m else int m)" by blast
  from m have ds: "list_all is_digit ds" "ds \<noteq> []" "dec_val 0 ds = m"
    by (auto simp: parse_magnitude_def split: if_splits)
  have le: "int m \<le> 2 ^ 63" using i im by (auto simp: in_int64_def int64_bounds split: if_splits)
  have "parseInt64_loop 0 ds = Inr (wrap64 (int m))" using parseInt64_unsigned [of ds] ds le by simp
  moreover have "(if c = CHR ''-'' then wrap64 (- wrap64 (int m)) else wrap64 (int m)) = i"
  proof (cases "int m = 2 ^ 63")
    case True
    with i im show ?thesis by (auto simp: wrap64_def in_int64_def int64_bounds split: if_splits)
  next
    case False
    with le have "wrap64 (int m) = int m" by (intro wrap64_le_max) (auto simp: int64_bounds)
    with i im show ?thesis by (auto simp: wrap64_id split: if_splits)
  qed
  ultimately show ?thesis using Cons ds(2) by (auto simp: parseInt64_def Let_def ds_def split: if_splits)
qed (use assms in simp)

lemma ParseInt_example: "ParseInt ''-12'' = Some (- 12)"
  by (simp add: parse_magnitude_def range64_def is_digit_def digit_val_def in_int64_def int64_bounds)

theorem parseInt64_agrees_with_ParseInt_witness: "parseInt64 ''-12'' = Inr (- 12)"
  by (rule parseInt64_agrees_with_ParseInt) (rule ParseInt_example)

text \<open>
  The overflow test of \<open>parseInt64\<close> looks at the value before the digit is added, so texts just
  past the 64-bit range are accepted with a wrapped value, also as lengths: 2^63 reads as
  -2^63, and ten times 2^63 reads as 0, where \<open>strconv.ParseInt\<close> reports both out of range.
\<close>

theorem parseInt64_overflow_accepted:
  "parseInt64 ''9223372036854775808'' = Inr int64_min \<and>
   ParseInt ''9223372036854775808'' = None \<and>
   parseInt64 ''92233720368547758080'' = Inr 0 \<and>
   ParseInt ''92233720368547758080'' = None"
  by (simp add: parseInt64_def parse_magnitude_def range64_def is_digit_def digit_val_def in_int64_def
      int64_bounds wrap64_def)

section \<open>Writer and reader\<close>

lemma readLine_CRLF:
  assumes "LF \<notin> set s"
  shows "readLine \<lparr>pending = s @ CR # LF # rest, endErr = e\<rparr> = (Inr s, \<lparr>pending = rest, endErr = e\<rparr>)"
proof -
  have "ReadBytes LF \<lparr>pending = (s @ [CR]) @ LF # rest, endErr = e\<rparr> =
      (Inr ((s @ [CR]) @ [LF]), \<lparr>pending = rest, endErr = e\<rparr>)"
    using assms by (intro ReadBytes_prefix) simp
  then show ?thesis by (simp add: readLine_def Let_def HasSuffix_iff)
qed

lemma expectCRLF_CRLF:
  "expectCRLF \<lparr>pending = CR # LF # rest, endErr = e\<rparr> = (Inr (), \<lparr>pending = rest, endErr = e\<rparr>)"
  using ReadFull_prefix [of CRLF 2 rest e] by (simp add: expectCRLF_def)

text \<open>
  The values that survive the wire: the struct fields a type does not use are zero, simple
  strings and errors are one line, integers fit 64 bits, bulk strings and arrays are within the
  limits of the reader.
\<close>

fun sendable :: "pvalue \<Rightarrow> bool" where
  "sendable (Value t d i vs isNull) =
     (if t = TypeSimpleString \<or> t = TypeError then LF \<notin> set d \<and> i = 0 \<and> vs = [] \<and> \<not> isNull
      else if t = TypeInteger then d = [] \<and> in_int64 i \<and> vs = [] \<and> \<not> isNull
      else if t = TypeBulkString then
        i = 0 \<and> vs = [] \<and> (if isNull then d = [] else int (length d) \<le> maxBulkSize)
      else t = TypeArray \<and> d = [] \<and> i = 0 \<and>
        (if isNull then vs = [] else int (length vs) \<le> maxArraySize \<and> list_all sendable vs))"

lemma sendable_writable: "sendable v \<Longrightarrow> writable v"
proof (induction v)
  case (Value t d i vs isNull)
  show ?case
  proof (cases "t = TypeArray")
    case True
    with Value show ?thesis by (auto simp: list_all_iff)
  next
    case False
    with Value.prems show ?thesis by (auto split: if_split_asm)
  qed
qed

lemma sendable_cases:
  assumes "sendable v"
  obtains
    (simple) d where "v = SimpleV d" "LF \<notin> set d"
  | (error) d where "v = ErrorV d" "LF \<notin> set d"
  | (integer) i where "v = IntegerV i" "in_int64 i"
  | (null_bulk) "v = NullBulkV"
  | (bulk) d where "v = BulkV d" "int (length d) \<le> maxBulkSize"
  | (null_array) "v = NullArrayV"
  | (array) vs where "v = ArrayV vs" "int (length vs) \<le> maxArraySize" "list_all sendable vs"
proof (cases v)
  case (Value t d i vs isNull)
  consider "t = TypeSimpleString" | "t = TypeError" | "t = TypeInteger" | "t = TypeBulkString"
    | "t = TypeArray"
    | "t \<notin> {TypeSimpleString, TypeError, TypeInteger, TypeBulkString, TypeArray}"
    by blast
  then show ?thesis
  proof cases
    case 1
    with assms Value show ?thesis by (intro simple) auto
  next
    case 2
    with assms Value show ?thesis by (intro error) auto
  next
    case 3
    with assms Value show ?thesis by (intro integer) auto
  next
    case 4
    with assms Value show ?thesis by (cases isNull) (auto intro: null_bulk bulk)
  next
    case 5
    with assms Value show ?thesis by (cases isNull) (auto intro: null_array array)
  next
    case 6
    with assms Value show ?thesis by simp
  qed
qed

lemma in_int64_length: "int n \<le> 1024 * 1024 * 1024 \<Longrightarrow> in_int64 (int n)"
  by (simp add: in_int64_def int64_bounds)

lemma parseInt64_minus_one: "parseInt64 ''-1'' = Inr (- 1)"
  by (simp add: parseInt64_def wrap64_def int64_bounds)

lemma readBulkString_wire:
  assumes "int (length d) \<le> maxBulkSize"
  shows "readBulkString \<lparr>pending = FormatInt (int (length d)) @ CR # LF # d @ CR # LF # rest, endErr = e\<rparr> =
    (Inr (BulkV d), \<lparr>pending = rest, endErr = e\<rparr>)"
  using assms readLine_CRLF [OF FormatInt_no_LF] parseInt64_FormatInt [OF in_int64_length]
    ReadFull_prefix [OF refl, of d "CR # LF # rest" e] expectCRLF_CRLF
  by (simp add: readBulkString_def)

lemma readElements_wire:
  assumes "\<And>v rest e. v \<in> set vs \<Longrightarrow>
      ReadNext \<lparr>pending = wire v @ rest, endErr = e\<rparr> = (Inr v, \<lparr>pending = rest, endErr = e\<rparr>)"
  shows "readElements (length vs) \<lparr>pending = concat (map wire vs) @ rest, endErr = e\<rparr> =
    (Inr vs, \<lparr>pending = rest, endErr = e\<rparr>)"
  using assms
proof (induction vs)
  case (Cons v vs)
  then show ?case using Cons.prems [of v] by (simp add: readElements.simps)
qed (simp add: readElements.simps)

lemma ReadNext_wire:
  "sendable v \<Longrightarrow>
   ReadNext \<lparr>pending = wire v @ rest, endErr = e\<rparr> = (Inr v, \<lparr>pending = rest, endErr = e\<rparr>)"
proof (induction v arbitrary: rest e)
  case (Value t d i vs isNull)
  have step: "ReadNext \<lparr>pending = c # s, endErr = e\<rparr> =
      (let r = \<lparr>pending = s, endErr = e\<rparr> in
       if c = TypeSimpleString then readSimpleString r else if c = TypeError then readError r
       else if c = TypeInteger then readInteger r else if c = TypeBulkString then readBulkString r
       else if c = TypeArray then readArray r
       else if c = CHR 0x00 then (Inl EmptyByte, r) else (Inl (UnknownType c), r))" for c s
    by (simp add: ReadNext.simps)
  from Value.prems show ?case
  proof (cases "Value t d i vs isNull" rule: sendable_cases)
    case (integer j)
    then show ?thesis
      using readLine_CRLF [OF FormatInt_no_LF] parseInt64_FormatInt by (simp add: step readInteger_def)
  next
    case null_bulk
    then show ?thesis using readLine_CRLF [of "''-1''"] parseInt64_minus_one
      by (simp add: step readBulkString_def)
  next
    case (bulk b)
    then show ?thesis using readBulkString_wire [of b] by (simp add: step)
  next
    case null_array
    then show ?thesis using readLine_CRLF [of "''-1''"] parseInt64_minus_one
      by (simp add: step readArray.simps)
  next
    case (array us)
    then have us: "us = vs" by simp
    have "in_int64 (int (length us))" using array(2) by (intro in_int64_length) simp
    moreover have "readElements (length us) \<lparr>pending = concat (map wire us) @ rest, endErr = e\<rparr> =
        (Inr us, \<lparr>pending = rest, endErr = e\<rparr>)"
      using array(3) us by (intro readElements_wire Value.IH) (auto simp: list_all_iff)
    ultimately show ?thesis
      using array readLine_CRLF [OF FormatInt_no_LF] parseInt64_FormatInt
      by (simp add: step readArray.simps)
  qed (use readLine_CRLF in \<open>simp_all add: step readSimpleString_def readError_def\<close>)
qed

section \<open>Self-delimiting encodings\<close>

text \<open>
  The contract between a sender and a receiver on one stream: a decoder that takes back exactly
  what the encoder put, whatever follows. Its clients may send one item after the other
  without separators, and no stream can be read in two ways.
\<close>

fun decodeMany :: "(reader \<Rightarrow> ('e + 'a) \<times> reader) \<Rightarrow> nat \<Rightarrow> reader \<Rightarrow> ('e + 'a list) \<times> reader" where
  "decodeMany dec 0 r = (Inr [], r)"
| "decodeMany dec (Suc n) r = (case dec r of
       (Inl e, r') \<Rightarrow> (Inl e, r')
     | (Inr x, r') \<Rightarrow> (case decodeMany dec n r' of
           (Inl e, r'') \<Rightarrow> (Inl e, r'') | (Inr xs, r'') \<Rightarrow> (Inr (x # xs), r'')))"

locale codec =
  fixes enc :: "'a \<Rightarrow> bytes"
    and dec :: "reader \<Rightarrow> ('e + 'b) \<times> reader"
    and img :: "'a \<Rightarrow> 'b"
    and ok :: "'a \<Rightarrow> bool"
  assumes roundtrip: "ok x \<Longrightarrow>
    dec \<lparr>pending = enc x @ rest, endErr = e\<rparr> = (Inr (img x), \<lparr>pending = rest, endErr = e\<rparr>)"
begin

lemma pipeline: "list_all ok xs \<Longrightarrow>
    decodeMany dec (length xs) \<lparr>pending = concat (map enc xs) @ rest, endErr = e\<rparr> =
      (Inr (map img xs), \<lparr>pending = rest, endErr = e\<rparr>)"
  by (induction xs) (simp_all add: roundtrip)

lemma unambiguous:
  assumes "ok x" and "ok y" and "enc x @ s = enc y @ t"
  shows "img x = img y \<and> s = t"
proof -
  have "dec \<lparr>pending = enc x @ s, endErr = EOF\<rparr> = dec \<lparr>pending = enc y @ t, endErr = EOF\<rparr>"
    using assms(3) by simp
  then show ?thesis using assms(1,2) by (simp add: roundtrip)
qed

lemma not_prefix: "ok x \<Longrightarrow> ok y \<Longrightarrow> img x \<noteq> img y \<Longrightarrow> enc y \<noteq> enc x @ s"
  using unambiguous [of x y s "[]"] by auto

end

interpretation resp: codec wire ReadNext "\<lambda>v. v" sendable
  by unfold_locales (rule ReadNext_wire)

definition readCommand :: "(string \<Rightarrow> string) \<Rightarrow> reader \<Rightarrow> (perror + (cmderror + command)) \<times> reader" where
  "readCommand U r = (case ReadNext r of
     (Inl e, r') \<Rightarrow> (Inl e, r') | (Inr v, r') \<Rightarrow> (Inr (ParseCommand U v), r'))"

definition command_ok :: "string \<times> string list \<Rightarrow> bool" where
  "command_ok = (\<lambda>(cmd, args). int (length args) < maxArraySize \<and>
     (\<forall>a \<in> set (cmd # args). int (length a) \<le> maxBulkSize))"

lemma sendable_command: "command_ok (cmd, args) \<Longrightarrow> sendable (ArrayV (map BulkV (cmd # args)))"
  by (auto simp: command_ok_def list_all_iff)

interpretation commands: codec "\<lambda>(cmd, args). wire (ArrayV (map BulkV (cmd # args)))"
    "readCommand U" "\<lambda>(cmd, args). Inr \<lparr>cmdName = ToUpper U cmd, cmdArgs = args\<rparr>" command_ok for U
proof unfold_locales
  fix x :: "string \<times> string list" and rest e
  assume ok: "command_ok x"
  obtain cmd args where x: "x = (cmd, args)" by (cases x)
  show "readCommand U \<lparr>pending = (case x of (cmd, args) \<Rightarrow> wire (ArrayV (map BulkV (cmd # args)))) @ rest,
      endErr = e\<rparr> = (Inr (case x of (cmd, args) \<Rightarrow> Inr \<lparr>cmdName = ToUpper U cmd, cmdArgs = args\<rparr>),
      \<lparr>pending = rest, endErr = e\<rparr>)"
    using resp.roundtrip [OF sendable_command [OF ok [unfolded x]], of rest e]
    by (simp add: x readCommand_def ParseCommand_def del: wire.simps)
qed

text \<open>
  Claim C7: what \<open>WriteValue\<close> puts on a working connection, \<open>ReadNext\<close> at the other end reads back as the
  same value, and it stops exactly where the value ends, whatever bytes follow.
\<close>

theorem WriteValue_ReadNext_roundtrip:
  assumes "sendable v" and "werr w = None"
  shows "\<exists>sent. WriteValue v w = (None, w\<lparr>written := written w @ sent\<rparr>) \<and>
    (\<forall>rest e. ReadNext \<lparr>pending = sent @ rest, endErr = e\<rparr> = (Inr v, \<lparr>pending = rest, endErr = e\<rparr>))"
proof -
  have "puts (WriteValue v) (wire v)"
    using assms(1) by (intro puts_WriteValue sendable_writable)
  then show ?thesis using assms by (auto dest: puts_ok simp: resp.roundtrip)
qed

theorem WriteValue_ReadNext_roundtrip_witness:
  "\<exists>sent. WriteValue (ArrayV [BulkV ''k'', IntegerV (- 5)]) \<lparr>written = [], werr = None\<rparr> =
      (None, \<lparr>written = sent, werr = None\<rparr>) \<and>
    (\<forall>rest e. ReadNext \<lparr>pending = sent @ rest, endErr = e\<rparr> =
      (Inr (ArrayV [BulkV ''k'', IntegerV (- 5)]), \<lparr>pending = rest, endErr = e\<rparr>))"
  using WriteValue_ReadNext_roundtrip [of "ArrayV [BulkV ''k'', IntegerV (- 5)]" "\<lparr>written = [], werr = None\<rparr>"]
  by (simp add: in_int64_def int64_bounds del: WriteValue.simps)

text \<open>
  Claim C11: any number of commands written with \<open>WriteCommand\<close> one after the other is read back command
  by command by \<open>ReadNext\<close> and \<open>ParseCommand\<close>: names in upper case, arguments unchanged, nothing of
  one command taken for another.
\<close>

theorem WriteCommand_pipeline:
  assumes "list_all command_ok cmds" and "werr w = None"
  shows "\<exists>sent w'. fold (\<lambda>(cmd, args) (err, u). case err of Some e \<Rightarrow> (Some e, u)
        | None \<Rightarrow> WriteCommand cmd args u) cmds (None, w) = (None, w') \<and>
      w' = w\<lparr>written := written w @ sent\<rparr> \<and>
      (\<forall>rest e. decodeMany (readCommand U) (length cmds) \<lparr>pending = sent @ rest, endErr = e\<rparr> =
        (Inr (map (\<lambda>(cmd, args). Inr \<lparr>cmdName = ToUpper U cmd, cmdArgs = args\<rparr>) cmds),
         \<lparr>pending = rest, endErr = e\<rparr>))"
proof -
  let ?enc = "\<lambda>(cmd, args). wire (ArrayV (map BulkV (cmd # args)))"
  have "fold (\<lambda>(cmd, args) (err, u). case err of Some e \<Rightarrow> (Some e, u)
        | None \<Rightarrow> WriteCommand cmd args u) cmds (None, w) =
      (None, w\<lparr>written := written w @ concat (map ?enc cmds)\<rparr>)"
    using assms(2)
  proof (induction cmds arbitrary: w)
    case (Cons c cmds)
    obtain cmd args where c: "c = (cmd, args)" by (cases c)
    have "WriteCommand cmd args w = (None, w\<lparr>written := written w @ ?enc c\<rparr>)"
      using puts_ok [OF puts_WriteCommand Cons.prems] by (simp add: c)
    with Cons.IH [of "w\<lparr>written := written w @ ?enc c\<rparr>"] Cons.prems show ?case by (simp add: c)
  qed simp
  then show ?thesis using commands.pipeline [OF assms(1)] by blast
qed

theorem WriteCommand_pipeline_witness:
  "\<exists>sent. \<forall>rest e. decodeMany (readCommand (\<lambda>s. s)) 2 \<lparr>pending = sent @ rest, endErr = e\<rparr> =
     (Inr [Inr \<lparr>cmdName = ''PING'', cmdArgs = []\<rparr>, Inr \<lparr>cmdName = ''DEL'', cmdArgs = [''k'']\<rparr>],
      \<lparr>pending = rest, endErr = e\<rparr>)"
proof -
  have "list_all command_ok [(''PING'', []), (''del'', [''k''])]" by (simp add: command_ok_def)
  note rt = WriteCommand_pipeline [OF this, of "\<lparr>written = [], werr = None\<rparr>" "\<lambda>s. s"]
  have upper: "ToUpper U ''PING'' = ''PING''" "ToUpper U ''del'' = ''DEL''" for U
    by (simp_all add: ToUpper_def isASCII_def upperASCII_def char_of_def bit_0)
  show ?thesis
    using rt by (auto simp: upper numeral_2_eq_2 simp del: decodeMany.simps fold_simps)
qed

section \<open>Progress and skipping\<close>

text \<open>
  Claim C30: on any input, malformed or not, \<open>ReadNext\<close> returns, leaves a tail of the stream, and
  uses up at least one byte unless the stream is at its end, where it reports the error of
  the connection. A loop over \<open>ReadNext\<close> therefore reaches the end of a finite stream.
\<close>

theorem ReadNext_progress:
  "\<exists>x r' used. ReadNext r = (x, r') \<and> pending r = used @ pending r' \<and> endErr r' = endErr r \<and>
     (if pending r = [] then x = Inl (IOErr (endErr r)) else used \<noteq> [])"
proof -
  obtain x r' where eq: "ReadNext r = (x, r')" by (cases "ReadNext r")
  then obtain used where used: "pending r = used @ pending r'" and "endErr r' = endErr r"
    using ReadNext.leftover [of r x r'] by (auto simp: rest_of_def)
  moreover have "used \<noteq> []" if "pending r \<noteq> []"
    using ReadNext_shorter [OF eq that] used by auto
  moreover have "x = Inl (IOErr (endErr r))" if "pending r = []"
    using ReadNext_empty [OF that] eq by simp
  ultimately show ?thesis using eq by auto
qed

lemma expectCRLF_ok:
  assumes "expectCRLF r = (Inr u, r')"
  shows "pending r = CR # LF # pending r' \<and> endErr r' = endErr r"
proof -
  from assms have "take 2 (pending r) = CRLF" "r' = r\<lparr>pending := drop 2 (pending r)\<rparr>"
    by (auto simp: expectCRLF_def ReadFull_def split: if_splits)
  moreover have "take 2 (pending r) @ drop 2 (pending r) = pending r" by simp
  ultimately show ?thesis by simp
qed

lemma Discard_bulk:
  assumes "ReadFull n r = (Inr d, r1)" and "expectCRLF r1 = (Inr u, r2)"
  shows "Discard (n + 2) r = (None, r2)"
proof -
  from assms(1) have n: "n \<le> length (pending r)" and r1: "r1 = r\<lparr>pending := drop n (pending r)\<rparr>"
    by (auto simp: ReadFull_def split: if_splits)
  from expectCRLF_ok [OF assms(2)] r1
  have rest: "drop n (pending r) = CR # LF # pending r2" and e: "endErr r2 = endErr r" by auto
  have "length (drop n (pending r)) \<ge> 2" using rest by simp
  then have "n + 2 \<le> length (pending r)" by simp
  moreover have "drop (n + 2) (pending r) = pending r2"
    using rest by (metis drop_0 drop_Cons_numeral drop_drop add.commute diff_Suc_1 drop_Suc_Cons
        numeral_2_eq_2)
  ultimately show ?thesis using e by (simp add: Discard_def)
qed

lemma Skip_ReadNext:
  "\<forall>v r'. ReadNext r = (Inr v, r') \<longrightarrow> Skip r = (Inr (), r')"
  "\<forall>v r'. readArray r = (Inr v, r') \<longrightarrow>
     Skip (r\<lparr>pending := TypeArray # pending r\<rparr>) = (Inr (), r')"
  "\<forall>vs r'. readElements n r = (Inr vs, r') \<longrightarrow> skipElements n r = (Inr (), r')"
proof (induction r and r and n r rule: ReadNext_readArray_readElements.induct)
  case (1 r)
  have discard: "Discard (Suc (Suc n)) r = (None, r2)"
    if "ReadFull n r = (Inr d, r1)" "expectCRLF r1 = (Inr (), r2)" for n r d r1 r2
    using Discard_bulk [OF that] by simp
  show ?case
  proof (intro allI impI)
    fix v r' assume eq: "ReadNext r = (Inr v, r')"
    then obtain c cs where r: "pending r = c # cs"
      by (cases "pending r") (auto simp: ReadNext_empty)
    define r1 where "r1 = r\<lparr>pending := cs\<rparr>"
    have byte: "ReadByte r = (Inr c, r1)" by (simp add: ReadByte_def r r1_def)
    have type_back: "r1\<lparr>pending := c # pending r1\<rparr> = r" by (simp add: r1_def r [symmetric])
    note IH = "1.IH" [OF byte [symmetric] refl]
    show "Skip r = (Inr (), r')"
    proof (cases "c = TypeArray")
      case True
      with eq byte IH type_back show ?thesis by (simp add: ReadNext.simps)
    next
      case False
      with eq byte show ?thesis
        by (auto simp: ReadNext.simps Skip.simps readSimpleString_def readError_def readInteger_def
            readBulkString_def discard split: if_split_asm prod.splits sum.splits)
    qed
  qed
next
  case (2 r)
  then show ?case
    by (fastforce simp: readArray.simps Skip.simps ReadByte_def split: if_splits prod.splits sum.splits)
next
  case (4 n r)
  then show ?case
    by (fastforce simp: readElements.simps skipElements.simps split: prod.splits sum.splits)
qed (simp add: readElements.simps skipElements.simps)

text \<open>
  Claim C32: skipping a value uses up exactly the bytes that reading it would: whenever \<open>ReadNext\<close>
  succeeds, \<open>Skip\<close> succeeds and leaves the same stream, for nested arrays too.
\<close>

theorem Skip_consumes_same:
  assumes "ReadNext r = (Inr v, r')"
  shows "Skip r = (Inr (), r')"
  using Skip_ReadNext(1) assms by blast

theorem Skip_consumes_same_witness:
  "Skip \<lparr>pending = wire (ArrayV [BulkV ''k'', ArrayV []]) @ ''x'', endErr = EOF\<rparr> =
     (Inr (), \<lparr>pending = ''x'', endErr = EOF\<rparr>)"
  by (rule Skip_consumes_same, rule resp.roundtrip) simp

section \<open>Chunked bulk strings\<close>

text \<open>
  What the callback of \<open>performFullSync\<close> and the tests do with the chunks: keep them in order.
\<close>

definition collect :: "bytes list chunk_fn" where
  "collect cs chunk = (None, case chunk of None \<Rightarrow> cs | Some c \<Rightarrow> cs @ [c])"

lemma readChunks_collect:
  assumes "length d = n"
  shows "\<exists>cs. readChunks collect n \<lparr>pending = d @ rest, endErr = e\<rparr> acc =
      (Inr (), \<lparr>pending = rest, endErr = e\<rparr>, acc @ cs) \<and> concat cs = d \<and>
      (\<forall>c \<in> set cs. c \<noteq> [] \<and> length c \<le> chunkSize)"
  using assms
proof (induction n arbitrary: d acc rule: less_induct)
  case (less n)
  show ?case
  proof (cases "n = 0")
    case True
    with less.prems show ?thesis by (simp add: readChunks.simps)
  next
    case False
    define k where "k = (if n < chunkSize then n else chunkSize)"
    have k: "0 < k" "k \<le> n" "k \<le> chunkSize" using False by (auto simp: k_def chunkSize_def)
    have rd: "ReadFull k \<lparr>pending = d @ rest, endErr = e\<rparr> =
        (Inr (take k d), \<lparr>pending = drop k d @ rest, endErr = e\<rparr>)"
      using less.prems k by (simp add: ReadFull_def)
    have "length (drop k d) = n - k" "n - k < n" using less.prems k False by auto
    then obtain cs where cs: "readChunks collect (n - k) \<lparr>pending = drop k d @ rest, endErr = e\<rparr>
        (acc @ [take k d]) = (Inr (), \<lparr>pending = rest, endErr = e\<rparr>, (acc @ [take k d]) @ cs)"
      "concat cs = drop k d" "\<forall>c \<in> set cs. c \<noteq> [] \<and> length c \<le> chunkSize"
      using less.IH [of "n - k" "drop k d" "acc @ [take k d]"] by blast
    have "readChunks collect n \<lparr>pending = d @ rest, endErr = e\<rparr> acc =
        (Inr (), \<lparr>pending = rest, endErr = e\<rparr>, acc @ (take k d # cs))"
      using False rd cs(1) less.prems k
      by (subst readChunks.simps) (simp add: k_def [symmetric] Let_def collect_def min_absorb2)
    moreover have "concat (take k d # cs) = d" using cs(2) by simp
    moreover have "\<forall>c \<in> set (take k d # cs). c \<noteq> [] \<and> length c \<le> chunkSize"
      using cs(3) k less.prems by auto
    ultimately show ?thesis by blast
  qed
qed

lemma readBulkHeader_wire:
  assumes "in_int64 n"
  shows "readBulkHeader \<lparr>pending = TypeBulkString # FormatInt n @ CR # LF # rest, endErr = e\<rparr> =
    (Inr n, \<lparr>pending = rest, endErr = e\<rparr>)"
  using readLine_CRLF [OF FormatInt_no_LF] parseInt64_FormatInt [OF assms]
  by (simp add: readBulkHeader_def)

lemma ReadBulk_collect:
  assumes "int (length d) \<le> maxBulkSize"
  shows "\<exists>cs. ReadBulkStringForReplication collect
      \<lparr>pending = ''$'' @ FormatInt (int (length d)) @ CRLF @ d @ rest, endErr = e\<rparr> [] =
        (Inr (), \<lparr>pending = rest, endErr = e\<rparr>, cs) \<and>
      concat cs = d \<and> (\<forall>c \<in> set cs. c \<noteq> [] \<and> length c \<le> chunkSize)"
proof -
  obtain cs where "readChunks collect (length d) \<lparr>pending = d @ rest, endErr = e\<rparr> [] =
      (Inr (), \<lparr>pending = rest, endErr = e\<rparr>, [] @ cs)" "concat cs = d"
      "\<forall>c \<in> set cs. c \<noteq> [] \<and> length c \<le> chunkSize"
    using readChunks_collect [OF refl, of d rest e "[]"] by blast
  then show ?thesis
    using readBulkHeader_wire [OF in_int64_length [OF assms], of "d @ rest" e] assms
    by (auto simp: ReadBulkStringForReplication_def readBulkData_def)
qed

text \<open>
  Claim C31: \<open>ReadBulkStringForReplication\<close> hands a snapshot of any admissible size to its callback as
  non-empty chunks of at most 8192 bytes whose concatenation is the snapshot, and leaves the
  stream right after its last byte, at the first replicated command (no CRLF is expected or eaten).
\<close>

theorem replication_bulk_chunks:
  assumes "int (length d) \<le> maxBulkSize"
  shows "\<exists>cs. ReadBulkStringForReplication collect
      \<lparr>pending = ''$'' @ FormatInt (int (length d)) @ CRLF @ d @ rest, endErr = e\<rparr> [] =
        (Inr (), \<lparr>pending = rest, endErr = e\<rparr>, cs) \<and>
      concat cs = d \<and> (\<forall>c \<in> set cs. c \<noteq> [] \<and> length c \<le> chunkSize)"
  by (rule ReadBulk_collect [OF assms])

theorem replication_bulk_chunks_witness:
  "\<exists>cs. ReadBulkStringForReplication collect
      \<lparr>pending = ''$3'' @ CRLF @ ''RDB'' @ ''*1'', endErr = EOF\<rparr> [] =
        (Inr (), \<lparr>pending = ''*1'', endErr = EOF\<rparr>, cs) \<and> concat cs = ''RDB''"
proof -
  have "FormatInt 3 = ''3''" by (simp add: FormatInt_def digit_def)
  moreover have "int (length ''RDB'') \<le> maxBulkSize" by simp
  note replication_bulk_chunks [OF this, of "''*1''" EOF]
  ultimately show ?thesis by auto
qed

end
