(* ===== verification/Server.thy ===== *)
theory Server
  imports Lua_Correct Resp_Correct
begin

text \<open>
  The server for Redis clients (\<^verbatim>\<open>src/server/server.go\<close>): one connection with its authentication, the dispatch of
  commands, the handlers, the replies, and the redirection of writes to the master. A handler takes the
  whole state (the server and the connection) and returns it updated, or \<open>None\<close> when the code panics. Every
  reply goes through the writer of the protocol, whose errors the code ignores.
\<close>

section \<open>State\<close>

text \<open>What \<^verbatim>\<open>SyncManager.SyncStatus\<close> reports, read once per command.\<close>

record SyncStatus =
  ssInitialSyncCompleted :: bool
  ssInitialSyncProgress :: rat
  ssConnected :: bool
  ssMasterHost :: string
  ssReplicationOffset :: int
  ssLastSyncTime :: int
  ssBytesReceived :: int
  ssCommandsProcessed :: int

record 's server =
  srvStorage :: 's
  srvLua :: engine
  srvSync :: "SyncStatus option"
  srvPassword :: string
  redirectWrites :: bool
  srvMasterAddr :: string
  srvMasterPassword :: string
  connCount :: int
  commandCount :: int
  errorCount :: int

record 's connection =
  csrv :: "'s server"
  creader :: reader
  cwriter :: writer
  authenticated :: bool
  cdb :: int
  cclosed :: bool

text \<open>
  What the code calls outside the repository: the storage behind its interface, the interpreter, the case
  mappings on texts that are not ASCII, the connection to the master (dialling: an error, or the error of
  setting the deadline, the bytes the master will send, and a writer), \<^verbatim>\<open>fmt.Sprintf("%.17g")\<close>, and the
  orders in which maps are iterated.
\<close>

record 's env =
  envStorage :: "'s Storage"
  envVM :: luaVM
  envUpper :: "string \<Rightarrow> string"
  envLower :: "string \<Rightarrow> string"
  envDial :: "string \<Rightarrow> string + (string option \<times> reader \<times> writer)"
  envFmtG :: "lnum \<Rightarrow> string"
  envMapOrder :: "(string \<times> goval) order"
  envInfoOrder :: "(int \<times> DBInfo) order"

definition NewServer :: "'s \<Rightarrow> 's server" where
  "NewServer s = \<lparr>srvStorage = s, srvLua = NewEngine [], srvSync = None, srvPassword = [], redirectWrites = False,
     srvMasterAddr = [], srvMasterPassword = [], connCount = 0, commandCount = 0, errorCount = 0\<rparr>"

definition SetPassword :: "string \<Rightarrow> 's server \<Rightarrow> 's server" where
  "SetPassword p s = s\<lparr>srvPassword := p\<rparr>"

definition SetWriteRedirection :: "bool \<Rightarrow> string \<Rightarrow> string \<Rightarrow> 's server \<Rightarrow> 's server" where
  "SetWriteRedirection enabled addr pw s = s\<lparr>redirectWrites := enabled, srvMasterAddr := addr, srvMasterPassword := pw\<rparr>"

definition handleNewClient :: "reader \<Rightarrow> writer \<Rightarrow> 's server \<Rightarrow> 's connection" where
  "handleNewClient r w s = \<lparr>csrv = s\<lparr>connCount := connCount s + 1\<rparr>, creader = r, cwriter = w,
     authenticated = (srvPassword s = []), cdb = 0, cclosed = False\<rparr>"

section \<open>Replies\<close>

definition send :: "wop \<Rightarrow> 's connection \<Rightarrow> 's connection" where
  "send f c = c\<lparr>cwriter := snd (Flush (snd (f (cwriter c))))\<rparr>"

definition writeString :: "string \<Rightarrow> 's connection \<Rightarrow> 's connection" where
  "writeString s = send (WriteSimpleString s)"

definition writeError :: "string \<Rightarrow> 's connection \<Rightarrow> 's connection" where
  "writeError s c =
     (let c = c\<lparr>csrv := (csrv c)\<lparr>errorCount := errorCount (csrv c) + 1\<rparr>\<rparr>;
          cleanMsg = ReplaceByte CR '' '' (ReplaceByte LF '' '' s) in
      send (WriteError cleanMsg) c)"

definition writeBulkString :: "bytes \<Rightarrow> 's connection \<Rightarrow> 's connection" where
  "writeBulkString d = send (WriteBulkString d)"

definition writeNull :: "'s connection \<Rightarrow> 's connection" where
  "writeNull = send WriteNullBulkString"

definition writeInteger :: "int \<Rightarrow> 's connection \<Rightarrow> 's connection" where
  "writeInteger i = send (WriteInteger i)"

fun convertToValue :: "'s env \<Rightarrow> goval \<Rightarrow> pvalue" where
  "convertToValue env GNil = NullBulkV"
| "convertToValue env (GString v) = BulkV v"
| "convertToValue env (GInt v) = IntegerV v"
| "convertToValue env (GBool v) = (if v then IntegerV 1 else NullBulkV)"
| "convertToValue env (GBytes v) = BulkV v"
| "convertToValue env (GSlice vs) = ArrayV (map (convertToValue env) vs)"
| "convertToValue env v = BulkV (fmtV (envVM env) v)"

definition writeArray :: "'s env \<Rightarrow> goval list \<Rightarrow> 's connection \<Rightarrow> 's connection" where
  "writeArray env vs = send (WriteArray (map (convertToValue env) vs))"

definition writeResult :: "'s env \<Rightarrow> goval \<Rightarrow> 's connection \<Rightarrow> 's connection" where
  "writeResult env v = (case v of
      GNil \<Rightarrow> writeNull
    | GBool b \<Rightarrow> (if b then writeInteger 1 else writeNull)
    | GString s \<Rightarrow> writeBulkString s
    | GInt i \<Rightarrow> writeInteger i
    | GFloat f \<Rightarrow> writeBulkString (envFmtG env f)
    | GSlice vs \<Rightarrow> writeArray env vs
    | GMap m \<Rightarrow> writeArray env (concat (map (\<lambda>(k, v). [GString k, v]) (arrange (envMapOrder env) m)))
    | GBytes b \<Rightarrow> writeBulkString (fmtV (envVM env) v))"

section \<open>Handlers without storage\<close>

definition wrongNumber :: "string \<Rightarrow> string" where
  "wrongNumber cmd = ''ERR '' @ wrongArgs cmd"

definition handleAuth :: "command \<Rightarrow> 's connection \<Rightarrow> 's connection" where
  "handleAuth cmd c =
     (if length (cmdArgs cmd) \<noteq> 1 then writeError (wrongNumber ''auth'') c
      else if srvPassword (csrv c) = [] then writeError ''ERR Client sent AUTH, but no password is set'' c
      else if cmdArgs cmd ! 0 = srvPassword (csrv c) then writeString ''OK'' (c\<lparr>authenticated := True\<rparr>)
      else writeError ''ERR invalid password'' c)"

definition handlePing :: "command \<Rightarrow> 's connection \<Rightarrow> 's connection" where
  "handlePing cmd c =
     (if length (cmdArgs cmd) = 0 then writeString ''PONG'' c
      else if length (cmdArgs cmd) = 1 then writeBulkString (cmdArgs cmd ! 0) c
      else writeError (wrongNumber ''ping'') c)"

definition handleCommand :: "'s env \<Rightarrow> command \<Rightarrow> 's connection \<Rightarrow> 's connection" where
  "handleCommand env cmd c =
     (if cmdArgs cmd = [] then writeInteger 20 c
      else if ToUpper (envUpper env) (cmdArgs cmd ! 0) = ''DOCS'' then writeArray env [] c
      else writeError ''ERR unknown COMMAND subcommand'' c)"

definition handleReadOnly :: "command \<Rightarrow> 's connection \<Rightarrow> 's connection" where
  "handleReadOnly cmd c =
     (if cmdArgs cmd \<noteq> [] then writeError (wrongNumber ''readonly'') c else writeString ''OK'' c)"

definition handleConfigGet :: "'s env \<Rightarrow> command \<Rightarrow> 's connection \<Rightarrow> 's connection" where
  "handleConfigGet env cmd c =
     (if length (cmdArgs cmd) \<noteq> 2 then writeError (wrongNumber ''config get'') c
      else let parameter = ToLower (envLower env) (cmdArgs cmd ! 1) in
        if parameter = ''databases'' then writeArray env [GString ''databases'', GString ''16''] c
        else if parameter = ''*'' then writeArray env [GString ''databases'', GString ''16''] c
        else writeArray env [] c)"

definition handleConfig :: "'s env \<Rightarrow> command \<Rightarrow> 's connection \<Rightarrow> 's connection" where
  "handleConfig env cmd c =
     (if length (cmdArgs cmd) < 1 then writeError (wrongNumber ''config'') c
      else if ToUpper (envUpper env) (cmdArgs cmd ! 0) = ''GET'' then handleConfigGet env cmd c
      else writeError ''ERR Unknown CONFIG subcommand or wrong number of arguments'' c)"

text \<open>\<^verbatim>\<open>strings.Split\<close> by a one-byte separator.\<close>

fun splitBy :: "char \<Rightarrow> string \<Rightarrow> string list" where
  "splitBy sep [] = [[]]"
| "splitBy sep (x # xs) = (if x = sep then [] # splitBy sep xs
     else (case splitBy sep xs of [] \<Rightarrow> [[x]] | p # ps \<Rightarrow> (x # p) # ps))"

definition roleOf :: "SyncStatus option \<Rightarrow> goval list" where
  "roleOf sync = GString ''slave'' # (case sync of
      None \<Rightarrow> [GString ''unknown'', GInt 6379, GInt 0]
    | Some status \<Rightarrow>
        (let parts = splitBy CHR '':'' (ssMasterHost status) in
         (if length parts = 2 then
            [GString (parts ! 0), (case Atoi (parts ! 1) of Some port \<Rightarrow> GInt port | None \<Rightarrow> GInt 6379)]
          else [GString (ssMasterHost status), GInt 6379]) @ [GInt (ssReplicationOffset status)]))"

definition handleRole :: "'s env \<Rightarrow> command \<Rightarrow> 's connection \<Rightarrow> 's connection" where
  "handleRole env cmd c =
     (if cmdArgs cmd \<noteq> [] then writeError (wrongNumber ''role'') c
      else writeArray env (roleOf (srvSync (csrv c))) c)"

section \<open>Reading\<close>

definition putStorage :: "'s \<Rightarrow> 's connection \<Rightarrow> 's connection" where
  "putStorage s c = c\<lparr>csrv := (csrv c)\<lparr>srvStorage := s\<rparr>\<rparr>"

abbreviation storageOf :: "'s connection \<Rightarrow> 's" where "storageOf c \<equiv> srvStorage (csrv c)"

text \<open>Some handlers answer with an error until the initial synchronisation is done.\<close>

definition isLoading :: "'s connection \<Rightarrow> bool" where
  "isLoading c = (case srvSync (csrv c) of None \<Rightarrow> False | Some status \<Rightarrow> \<not> ssInitialSyncCompleted status)"

definition loadingError :: string where
  "loadingError = ''LOADING Redis is loading the dataset in memory''"

definition handleSelect :: "'s env \<Rightarrow> command \<Rightarrow> 's connection \<Rightarrow> 's connection option" where
  "handleSelect env cmd c =
     (if length (cmdArgs cmd) \<noteq> 1 then Some (writeError (wrongNumber ''select'') c)
      else case Atoi (cmdArgs cmd ! 0) of
          None \<Rightarrow> Some (writeError ''ERR invalid DB index'' c)
        | Some db \<Rightarrow>
            (case stSelectDB (envStorage env) db (storageOf c) of
               None \<Rightarrow> None
             | Some (Some err, s) \<Rightarrow> Some (writeError (''ERR '' @ err) (putStorage s c))
             | Some (None, s) \<Rightarrow> Some (writeString ''OK'' ((putStorage s c)\<lparr>cdb := db\<rparr>))))"

definition handleGet :: "'s env \<Rightarrow> int \<Rightarrow> command \<Rightarrow> 's connection \<Rightarrow> 's connection option" where
  "handleGet env now cmd c =
     (if length (cmdArgs cmd) \<noteq> 1 then Some (writeError (wrongNumber ''get'') c)
      else if isLoading c then Some (writeError loadingError c)
      else case stGet (envStorage env) now (cmdArgs cmd ! 0) (storageOf c) of
          None \<Rightarrow> None
        | Some (None, s) \<Rightarrow> Some (writeNull (putStorage s c))
        | Some (Some v, s) \<Rightarrow> Some (writeBulkString v (putStorage s c)))"

text \<open>The loop of \<^verbatim>\<open>handleMGet\<close>; key number \<open>i\<close> is read at time \<open>clock i\<close>.\<close>

fun mgetLoop :: "'s Storage \<Rightarrow> (nat \<Rightarrow> int) \<Rightarrow> nat \<Rightarrow> string list \<Rightarrow> 's \<Rightarrow> (goval list \<times> 's) option" where
  "mgetLoop st clock i [] s = Some ([], s)"
| "mgetLoop st clock i (k # ks) s =
     (case stGet st (clock i) k s of
        None \<Rightarrow> None
      | Some (v, s') \<Rightarrow>
          map_option (\<lambda>(vs, s''). ((case v of None \<Rightarrow> GNil | Some d \<Rightarrow> GString d) # vs, s'')) (mgetLoop st clock (i + 1) ks s'))"

definition handleMGet :: "'s env \<Rightarrow> (nat \<Rightarrow> int) \<Rightarrow> command \<Rightarrow> 's connection \<Rightarrow> 's connection option" where
  "handleMGet env clock cmd c =
     (if cmdArgs cmd = [] then Some (writeError (wrongNumber ''mget'') c)
      else if isLoading c then Some (writeError loadingError c)
      else map_option (\<lambda>(vs, s). writeArray env vs (putStorage s c))
        (mgetLoop (envStorage env) clock 0 (cmdArgs cmd) (storageOf c)))"

definition handleExists :: "'s env \<Rightarrow> int \<Rightarrow> command \<Rightarrow> 's connection \<Rightarrow> 's connection option" where
  "handleExists env now cmd c =
     (if cmdArgs cmd = [] then Some (writeError (wrongNumber ''exists'') c)
      else map_option (\<lambda>n. writeInteger n c) (stExists (envStorage env) now (cmdArgs cmd) (storageOf c)))"

definition handleTTL :: "'s env \<Rightarrow> int \<Rightarrow> command \<Rightarrow> 's connection \<Rightarrow> 's connection option" where
  "handleTTL env now cmd c =
     (if length (cmdArgs cmd) \<noteq> 1 then Some (writeError (wrongNumber ''ttl'') c)
      else map_option (\<lambda>ttl. writeInteger (truncate64 (Seconds ttl)) c)
        (stTTL (envStorage env) now (cmdArgs cmd ! 0) (storageOf c)))"

definition handlePTTL :: "'s env \<Rightarrow> int \<Rightarrow> command \<Rightarrow> 's connection \<Rightarrow> 's connection option" where
  "handlePTTL env now cmd c =
     (if length (cmdArgs cmd) \<noteq> 1 then Some (writeError (wrongNumber ''pttl'') c)
      else map_option (\<lambda>ttl. writeInteger (ttl sdiv Millisecond) c)
        (stPTTL (envStorage env) now (cmdArgs cmd ! 0) (storageOf c)))"

definition handleType :: "'s env \<Rightarrow> int \<Rightarrow> command \<Rightarrow> 's connection \<Rightarrow> 's connection option" where
  "handleType env now cmd c =
     (if length (cmdArgs cmd) \<noteq> 1 then Some (writeError (wrongNumber ''type'') c)
      else map_option (\<lambda>t. writeString (ValueType_String t) c)
        (stType (envStorage env) now (cmdArgs cmd ! 0) (storageOf c)))"

definition handleKeys :: "'s env \<Rightarrow> int \<Rightarrow> command \<Rightarrow> 's connection \<Rightarrow> 's connection option" where
  "handleKeys env now cmd c =
     (if length (cmdArgs cmd) \<noteq> 1 then Some (writeError (wrongNumber ''keys'') c)
      else map_option (\<lambda>ks. writeArray env (map GString ks) c)
        (stKeys (envStorage env) now (cmdArgs cmd ! 0) (storageOf c)))"

fun scanOptions :: "(string \<Rightarrow> string) \<Rightarrow> string list \<Rightarrow> string \<Rightarrow> int \<Rightarrow> string + (string \<times> int)" where
  "scanOptions U [] pat n = Inr (pat, n)"
| "scanOptions U (a # as) pat n =
     (if ToUpper U a = ''MATCH'' then
        (case as of [] \<Rightarrow> Inl ''ERR syntax error'' | p # as' \<Rightarrow> scanOptions U as' p n)
      else if ToUpper U a = ''COUNT'' then
        (case as of
           [] \<Rightarrow> Inl ''ERR syntax error''
         | v # as' \<Rightarrow>
             (case ParseInt v of
                None \<Rightarrow> Inl ''ERR invalid count''
              | Some m \<Rightarrow> if m \<le> 0 then Inl ''ERR invalid count'' else scanOptions U as' pat m))
      else scanOptions U as pat n)"

definition handleScan :: "'s env \<Rightarrow> int \<Rightarrow> command \<Rightarrow> 's connection \<Rightarrow> 's connection option" where
  "handleScan env now cmd c =
     (case cmdArgs cmd of
        [] \<Rightarrow> Some (writeError (wrongNumber ''scan'') c)
      | a # opts \<Rightarrow>
          (case ParseInt a of
             None \<Rightarrow> Some (writeError ''ERR invalid cursor'' c)
           | Some cursor \<Rightarrow>
               (case scanOptions (envUpper env) opts [] 10 of
                  Inl err \<Rightarrow> Some (writeError err c)
                | Inr (pat, n) \<Rightarrow>
                    map_option (\<lambda>(newCursor, ks). writeArray env [GString (FormatInt newCursor), GSlice (map GString ks)] c)
                      (stScan (envStorage env) now cursor pat n (storageOf c)))))"

definition handleDBSize :: "'s env \<Rightarrow> command \<Rightarrow> 's connection \<Rightarrow> 's connection option" where
  "handleDBSize env cmd c =
     (if cmdArgs cmd \<noteq> [] then Some (writeError (wrongNumber ''dbsize'') c)
      else map_option (\<lambda>n. writeInteger n c) (stKeyCount (envStorage env) (storageOf c)))"

section \<open>INFO\<close>

function formatLoop :: "int \<Rightarrow> int \<Rightarrow> nat \<Rightarrow> int \<times> nat" where
  "formatLoop n divisor ex = (if n \<ge> 1024 then formatLoop (n div 1024) (divisor * 1024) (ex + 1) else (divisor, ex))"
  by pat_completeness auto
termination
  by (relation "measure (\<lambda>(n, _, _). nat n)") auto

declare formatLoop.simps [simp del]

definition formatBytes :: "int \<Rightarrow> string" where
  "formatBytes bytes =
     (if bytes < 1024 then FormatInt bytes @ ''B''
      else (case formatLoop (bytes div 1024) 1024 0 of (d, ex) \<Rightarrow>
        sprintf1f (float64 (float64 (of_int bytes) / float64 (of_int d))) @ [''KMGTPE'' ! ex] @ ''B''))"

definition line :: "string \<Rightarrow> string" where
  "line s = s @ CRLF"

definition serverSection :: string where
  "serverSection = concat (map line [''# Server'', ''redis_version:7.0.0'', ''redis_mode:replica'', ''arch_bits:64'', ''os:Linux'', []])"

definition replicationSection :: "int \<Rightarrow> SyncStatus option \<Rightarrow> string" where
  "replicationSection now sync = concat (map line ([''# Replication'', ''role:slave''] @
     (case sync of
        Some status \<Rightarrow>
          [''master_host:'' @ ssMasterHost status,
           if ssConnected status then ''master_link_status:up'' else ''master_link_status:down'',
           ''master_last_io_seconds_ago:'' @ FormatInt (truncate64 (Seconds (Until (ssLastSyncTime status) now))),
           if ssInitialSyncCompleted status then ''master_sync_in_progress:0'' else ''master_sync_in_progress:1'',
           ''master_repl_offset:'' @ FormatInt (ssReplicationOffset status)]
      | None \<Rightarrow>
          [''master_host:unknown'', ''master_link_status:down'', ''master_last_io_seconds_ago:-1'',
           ''master_sync_in_progress:0'', ''master_repl_offset:0'']) @ [[]]))"

definition memorySection :: "int \<Rightarrow> string" where
  "memorySection usage = concat (map line [''# Memory'', ''used_memory:'' @ FormatInt usage,
     ''used_memory_human:'' @ formatBytes usage, []])"

definition keyspaceSection :: "(int \<times> DBInfo) order \<Rightarrow> (int \<times> DBInfo) list \<Rightarrow> string" where
  "keyspaceSection ord info =
     (if info = [] then []
      else concat (map line ([''# Keyspace''] @
        map (\<lambda>(d, i). ''db'' @ FormatInt d @ '':keys='' @ FormatInt (dbiKeys i) @ '',expires='' @ FormatInt (dbiExpires i))
          (arrange ord info) @ [[]])))"

fun infoLoop :: "'s env \<Rightarrow> int \<Rightarrow> 's connection \<Rightarrow> string list \<Rightarrow> string option" where
  "infoLoop env now c [] = Some []"
| "infoLoop env now c (section # rest) = do {
     let isAll = section = ''all'';
     mem \<leftarrow> (if isAll \<or> section = ''memory'' then map_option memorySection (stMemoryUsage (envStorage env) (storageOf c)) else Some []);
     keyspace \<leftarrow> (if isAll \<or> section = ''keyspace''
       then map_option (keyspaceSection (envInfoOrder env)) (stDatabaseInfo (envStorage env) now (storageOf c)) else Some []);
     more \<leftarrow> infoLoop env now c rest;
     Some ((if isAll \<or> section = ''server'' then serverSection else []) @
       (if isAll \<or> section = ''replication'' then replicationSection now (srvSync (csrv c)) else []) @
       mem @ keyspace @ more)
   }"

text \<open>
  \<^verbatim>\<open>strings.TrimSpace\<close> of a text whose first and last characters that are not ASCII spaces are ASCII, as in the
  texts built here.
\<close>

definition isBlank :: "char \<Rightarrow> bool" where
  "isBlank c \<longleftrightarrow> byte_val c \<in> {9, 10, 11, 12, 13, 32}"

definition TrimSpace :: "string \<Rightarrow> string" where
  "TrimSpace s = rev (dropWhile isBlank (rev (dropWhile isBlank s)))"

definition handleInfo :: "'s env \<Rightarrow> int \<Rightarrow> command \<Rightarrow> 's connection \<Rightarrow> 's connection option" where
  "handleInfo env now cmd c =
     (let sections = (if cmdArgs cmd \<noteq> [] then map (ToLower (envLower env)) (cmdArgs cmd) else [''all'']) in
      map_option (\<lambda>info. writeBulkString (TrimSpace info) c) (infoLoop env now c sections))"

section \<open>Scripts\<close>

text \<open>
  Arguments of \<^verbatim>\<open>EVAL\<close> and \<^verbatim>\<open>EVALSHA\<close>: the text or name, the keys and the other arguments. \<open>Inl\<close> is the error
  reply, the outer \<open>None\<close> a panic. The addition \<^verbatim>\<open>2+numKeys\<close> wraps around.
\<close>

definition evalArgs :: "string \<Rightarrow> string list \<Rightarrow> (string + (string \<times> string list \<times> string list)) option" where
  "evalArgs name args =
     (if length args < 2 then Some (Inl (wrongNumber name))
      else case Atoi (args ! 1) of
          None \<Rightarrow> Some (Inl ''ERR value is not an integer or out of range'')
        | Some numKeys \<Rightarrow>
            (if numKeys < 0 \<or> int (length args) < wrap64 (2 + numKeys)
             then Some (Inl (''ERR Number of keys can'' @ [CHR 0x27] @ ''t be negative or greater than args''))
             else do {
               makeSlice 16 numKeys;
               Some (Inr (args ! 0, take (nat numKeys) (drop 2 args), drop (2 + nat numKeys) args))
             }))"

definition putLua :: "engine \<Rightarrow> 's connection \<Rightarrow> 's connection" where
  "putLua e c = c\<lparr>csrv := (csrv c)\<lparr>srvLua := e\<rparr>\<rparr>"

definition scriptReply :: "'s env \<Rightarrow> ((string + goval) \<times> engine \<times> 's) option \<Rightarrow> 's connection \<Rightarrow> 's connection option" where
  "scriptReply env out c = (case out of
      None \<Rightarrow> None
    | Some (Inl err, e, s) \<Rightarrow> Some (writeError (''ERR '' @ err) (putStorage s (putLua e c)))
    | Some (Inr result, e, s) \<Rightarrow> Some (writeResult env result (putStorage s (putLua e c))))"

definition handleEval :: "'s env \<Rightarrow> (nat \<Rightarrow> int) \<Rightarrow> command \<Rightarrow> 's connection \<Rightarrow> 's connection option" where
  "handleEval env clock cmd c =
     (case evalArgs ''eval'' (cmdArgs cmd) of
        None \<Rightarrow> None
      | Some (Inl err) \<Rightarrow> Some (writeError err c)
      | Some (Inr (script, keys, args)) \<Rightarrow>
          scriptReply env (Eval (envVM env) (envStorage env) clock script keys args (srvLua (csrv c)) (storageOf c)) c)"

definition handleEvalSHA :: "'s env \<Rightarrow> (nat \<Rightarrow> int) \<Rightarrow> command \<Rightarrow> 's connection \<Rightarrow> 's connection option" where
  "handleEvalSHA env clock cmd c =
     (case evalArgs ''evalsha'' (cmdArgs cmd) of
        None \<Rightarrow> None
      | Some (Inl err) \<Rightarrow> Some (writeError err c)
      | Some (Inr (sha, keys, args)) \<Rightarrow>
          scriptReply env (EvalSHA (envVM env) (envStorage env) clock sha keys args (srvLua (csrv c)) (storageOf c)) c)"

definition handleScript :: "'s env \<Rightarrow> command \<Rightarrow> 's connection \<Rightarrow> 's connection" where
  "handleScript env cmd c =
     (case cmdArgs cmd of
        [] \<Rightarrow> writeError (wrongNumber ''script'') c
      | a # as \<Rightarrow>
          (let subCmd = ToUpper (envUpper env) a; e = srvLua (csrv c) in
           if subCmd = ''LOAD'' then
             (if length as \<noteq> 1 then writeError (wrongNumber ''script load'') c
              else (case LoadScript (as ! 0) e of (sha, e') \<Rightarrow> writeString sha (putLua e' c)))
           else if subCmd = ''EXISTS'' then
             (if as = [] then writeError (wrongNumber ''script exists'') c
              else writeArray env (map (\<lambda>b. if b then GInt 1 else GInt 0) (ScriptExists as e)) c)
           else if subCmd = ''FLUSH'' then
             (if as \<noteq> [] then writeError (wrongNumber ''script flush'') c
              else writeString ''OK'' (putLua (ScriptFlush e) c))
           else writeError (''ERR unknown SCRIPT subcommand '' @ [CHR 0x27] @ subCmd @ [CHR 0x27]) c))"

section \<open>Redirection of writes\<close>

definition writeerror_text :: "writeerror \<Rightarrow> string" where
  "writeerror_text e = (case e of BufErr m \<Rightarrow> m | UnsupportedType t \<Rightarrow> ''unsupported value type: '' @ verb_c t)"

definition writeCommandToMaster :: "command \<Rightarrow> wop" where
  "writeCommandToMaster cmd = wseq (WriteArray (map BulkV (cmdName cmd # cmdArgs cmd))) Flush"

fun protocolValueToInterface :: "pvalue \<Rightarrow> goval" where
  "protocolValueToInterface (Value t d i vs isNull) =
     (if t = TypeSimpleString then GString d
      else if t = TypeError then GString (''ERR '' @ d)
      else if t = TypeInteger then GInt i
      else if t = TypeBulkString then (if isNull then GNil else GBytes d)
      else if t = TypeArray then (if isNull then GNil else GSlice (map protocolValueToInterface vs))
      else GString d)"

definition forwardResponse :: "'s env \<Rightarrow> pvalue \<Rightarrow> 's connection \<Rightarrow> 's connection" where
  "forwardResponse env resp =
     (if vType resp = TypeSimpleString then writeString (vData resp)
      else if vType resp = TypeError then writeError (vData resp)
      else if vType resp = TypeInteger then writeInteger (vInteger resp)
      else if vType resp = TypeBulkString then (if vIsNull resp then writeNull else writeBulkString (vData resp))
      else if vType resp = TypeArray then
        (if vIsNull resp then writeNull else writeArray env (map protocolValueToInterface (vArray resp)))
      else writeError ''ERR unsupported response type from master'')"

definition sendToMaster :: "'s env \<Rightarrow> command \<Rightarrow> reader \<Rightarrow> writer \<Rightarrow> 's connection \<Rightarrow> 's connection" where
  "sendToMaster env cmd r w c =
     (case writeCommandToMaster cmd w of
        (Some e, _) \<Rightarrow> writeError (''ERR failed to send command to master: '' @ writeerror_text e) c
      | (None, _) \<Rightarrow>
          (case ReadNext r of
             (Inl e, _) \<Rightarrow> writeError (''ERR failed to read response from master: '' @ perror_text e) c
           | (Inr resp, _) \<Rightarrow> forwardResponse env resp c))"

definition redirectToMaster :: "'s env \<Rightarrow> command \<Rightarrow> 's connection \<Rightarrow> 's connection" where
  "redirectToMaster env cmd c =
     (if srvMasterAddr (csrv c) = [] then writeError ''ERR master address not configured for write redirection'' c
      else case envDial env (srvMasterAddr (csrv c)) of
          Inl err \<Rightarrow> writeError (''ERR failed to connect to master: '' @ err) c
        | Inr (Some err, _, _) \<Rightarrow> writeError (''ERR failed to set connection deadline: '' @ err) c
        | Inr (None, r, w) \<Rightarrow>
            (if srvMasterPassword (csrv c) \<noteq> [] then
               (case writeCommandToMaster \<lparr>cmdName = ''AUTH'', cmdArgs = [srvMasterPassword (csrv c)]\<rparr> w of
                  (Some e, _) \<Rightarrow> writeError (''ERR failed to send auth to master: '' @ writeerror_text e) c
                | (None, w') \<Rightarrow>
                    (case ReadNext r of
                       (Inl e, _) \<Rightarrow> writeError (''ERR failed to read auth response: '' @ perror_text e) c
                     | (Inr resp, r') \<Rightarrow>
                         (if vType resp = TypeError then writeError (vData resp) c
                          else sendToMaster env cmd r' w' c)))
             else sendToMaster env cmd r w c))"

definition readOnlyError :: string where
  "readOnlyError = ''READONLY You can'' @ [CHR 0x27] @ ''t write against a read only replica''"

definition handleWrite :: "'s env \<Rightarrow> command \<Rightarrow> 's connection \<Rightarrow> 's connection" where
  "handleWrite env cmd c =
     (if redirectWrites (csrv c) then redirectToMaster env cmd c else writeError readOnlyError c)"

section \<open>Dispatch\<close>

definition dispatch :: "'s env \<Rightarrow> (nat \<Rightarrow> int) \<Rightarrow> command \<Rightarrow> 's connection \<Rightarrow> 's connection option" where
  "dispatch env clock cmd c =
     (let name = ToUpper (envUpper env) (cmdName cmd); now = clock 0 in
      if name = ''AUTH'' then Some (handleAuth cmd c)
      else if name = ''PING'' then Some (handlePing cmd c)
      else if name = ''SELECT'' then handleSelect env cmd c
      else if name = ''GET'' then handleGet env now cmd c
      else if name = ''MGET'' then handleMGet env clock cmd c
      else if name = ''SET'' then Some (handleWrite env cmd c)
      else if name = ''DEL'' then Some (handleWrite env cmd c)
      else if name = ''EXISTS'' then handleExists env now cmd c
      else if name = ''TTL'' then handleTTL env now cmd c
      else if name = ''PTTL'' then handlePTTL env now cmd c
      else if name = ''TYPE'' then handleType env now cmd c
      else if name = ''KEYS'' then handleKeys env now cmd c
      else if name = ''SCAN'' then handleScan env now cmd c
      else if name = ''DBSIZE'' then handleDBSize env cmd c
      else if name = ''INFO'' then handleInfo env now cmd c
      else if name = ''ROLE'' then Some (handleRole env cmd c)
      else if name = ''COMMAND'' then Some (handleCommand env cmd c)
      else if name = ''CONFIG'' then Some (handleConfig env cmd c)
      else if name = ''READONLY'' then Some (handleReadOnly cmd c)
      else if name = ''EVAL'' then handleEval env clock cmd c
      else if name = ''EVALSHA'' then handleEvalSHA env clock cmd c
      else if name = ''SCRIPT'' then Some (handleScript env cmd c)
      else if name = ''QUIT'' then Some ((writeString ''OK'' c)\<lparr>cclosed := True\<rparr>)
      else Some (writeError (''ERR unknown command '' @ [CHR 0x27] @ cmdName cmd @ [CHR 0x27]) c))"

definition executeClientCommand :: "'s env \<Rightarrow> (nat \<Rightarrow> int) \<Rightarrow> command \<Rightarrow> 's connection \<Rightarrow> 's connection option" where
  "executeClientCommand env clock cmd c =
     (let c = c\<lparr>csrv := (csrv c)\<lparr>commandCount := commandCount (csrv c) + 1\<rparr>\<rparr> in
      if \<not> authenticated c \<and> ToUpper (envUpper env) (cmdName cmd) \<noteq> ''AUTH''
      then Some (writeError ''NOAUTH Authentication required'' c)
      else dispatch env clock cmd c)"

text \<open>
  A reply changes the writer and the count of errors. Nothing a handler does touches the reader or the settings
  of the server, or takes an authentication back.
\<close>

definition settings :: "'s server \<Rightarrow> string \<times> bool \<times> string \<times> string \<times> SyncStatus option \<times> int" where
  "settings s = (srvPassword s, redirectWrites s, srvMasterAddr s, srvMasterPassword s, srvSync s, connCount s)"

definition kept :: "'s connection \<Rightarrow> 's connection \<Rightarrow> bool" where
  "kept c c' \<longleftrightarrow> creader c' = creader c \<and> (authenticated c \<longrightarrow> authenticated c') \<and> settings (csrv c') = settings (csrv c)"

lemma send_fields [simp]:
  "csrv (send f c) = csrv c" "creader (send f c) = creader c" "authenticated (send f c) = authenticated c"
  "cdb (send f c) = cdb c" "cclosed (send f c) = cclosed c"
  by (simp_all add: send_def)

lemmas reply_defs = writeString_def writeError_def writeBulkString_def writeNull_def writeInteger_def writeArray_def

lemma kept_replies [simp]:
  "kept c0 c0"
  "kept c0 (writeString m c) = kept c0 c" "kept c0 (writeError m c) = kept c0 c" "kept c0 (writeBulkString d c) = kept c0 c"
  "kept c0 (writeNull c) = kept c0 c" "kept c0 (writeInteger i c) = kept c0 c" "kept c0 (writeArray env vs c) = kept c0 c"
  "kept c0 (putStorage s c) = kept c0 c" "kept c0 (putLua e c) = kept c0 c"
  "kept c0 (c\<lparr>cdb := n\<rparr>) = kept c0 c" "kept c0 (c\<lparr>cclosed := b\<rparr>) = kept c0 c"
  by (simp_all add: kept_def settings_def reply_defs Let_def putStorage_def putLua_def)

lemma closed_replies [simp]:
  "cclosed (writeString m c) = cclosed c" "cclosed (writeError m c) = cclosed c" "cclosed (writeBulkString d c) = cclosed c"
  "cclosed (writeNull c) = cclosed c" "cclosed (writeInteger i c) = cclosed c" "cclosed (writeArray env vs c) = cclosed c"
  "cclosed (putStorage s c) = cclosed c"
  by (simp_all add: reply_defs Let_def putStorage_def)

lemma kept_writeResult [simp]: "kept c0 (writeResult env v c) = kept c0 c"
  by (cases v) (simp_all add: writeResult_def)

lemma kept_auth [simp]: "kept c (handleAuth cmd c)"
  by (simp add: handleAuth_def) (simp add: kept_def)

lemma kept_plain [simp]:
  "kept c (handlePing cmd c)" "kept c (handleCommand env cmd c)"
  "kept c (handleReadOnly cmd c)" "kept c (handleConfig env cmd c)" "kept c (handleRole env cmd c)"
  "kept c (handleScript env cmd c)" "kept c (forwardResponse env v c)"
  by (simp_all add: handlePing_def handleCommand_def handleReadOnly_def handleConfig_def handleConfigGet_def
      handleRole_def handleScript_def forwardResponse_def Let_def split: list.split prod.split)

lemma kept_write [simp]: "kept c (handleWrite env cmd c)"
  by (simp add: handleWrite_def redirectToMaster_def sendToMaster_def split: sum.split prod.split option.split)

lemma kept_eval:
  "handleEval env clock cmd c = Some c' \<Longrightarrow> kept c c'"
  "handleEvalSHA env clock cmd c = Some c' \<Longrightarrow> kept c c'"
  by (auto simp: handleEval_def handleEvalSHA_def scriptReply_def split: option.splits sum.splits prod.splits)

lemma kept_read:
  "handleSelect env cmd c = Some c' \<Longrightarrow> kept c c'"
  "handleGet env now cmd c = Some c' \<Longrightarrow> kept c c'"
  "handleMGet env clock cmd c = Some c' \<Longrightarrow> kept c c'"
  "handleExists env now cmd c = Some c' \<Longrightarrow> kept c c'"
  "handleTTL env now cmd c = Some c' \<Longrightarrow> kept c c'"
  "handlePTTL env now cmd c = Some c' \<Longrightarrow> kept c c'"
  "handleType env now cmd c = Some c' \<Longrightarrow> kept c c'"
  "handleKeys env now cmd c = Some c' \<Longrightarrow> kept c c'"
  "handleScan env now cmd c = Some c' \<Longrightarrow> kept c c'"
  "handleDBSize env cmd c = Some c' \<Longrightarrow> kept c c'"
  "handleInfo env now cmd c = Some c' \<Longrightarrow> kept c c'"
  by (auto simp: handleSelect_def handleGet_def handleMGet_def handleExists_def handleTTL_def handlePTTL_def handleType_def
      handleKeys_def handleScan_def handleDBSize_def handleInfo_def Let_def split: if_splits option.splits list.splits sum.splits)

lemma kept_dispatch: "dispatch env clock cmd c = Some c' \<Longrightarrow> kept c c'"
  unfolding dispatch_def Let_def by (auto split: if_split_asm dest: kept_read kept_eval)

lemma kept_execute: "executeClientCommand env clock cmd c = Some c' \<Longrightarrow> kept c c'"
  unfolding executeClientCommand_def Let_def
  by (auto split: if_split_asm dest!: kept_dispatch simp: kept_def settings_def reply_defs Let_def)

lemma ReadNext_less: "ReadNext r = (Inr v, r') \<Longrightarrow> length (pending r') < length (pending r)"
  using ReadNext_shorter [of r "Inr v" r'] ReadNext_empty [of r] by (cases "pending r = []") auto

text \<open>
  The loop of a connection until it is closed; \<open>clock t i\<close> is the time of reading number \<open>i\<close> of the clock
  during command number \<open>t\<close>. The shutdown of the server, which also ends the loop, is in \<open>Server_Life\<close>.
\<close>

definition closeConnection :: "'s connection \<Rightarrow> 's connection" where
  "closeConnection c = c\<lparr>cclosed := True\<rparr>"

function handle :: "'s env \<Rightarrow> (nat \<Rightarrow> nat \<Rightarrow> int) \<Rightarrow> nat \<Rightarrow> 's connection \<Rightarrow> 's connection option" where
  "handle env clock t c =
     (if cclosed c then Some c
      else case ReadNext (creader c) of
          (Inl err, r) \<Rightarrow>
            (let c = c\<lparr>creader := r\<rparr> in
             if err = IOErr EOF then Some (closeConnection c)
             else Some (closeConnection (writeError (''Protocol error: '' @ perror_text err) c)))
        | (Inr value, r) \<Rightarrow>
            (let c = c\<lparr>creader := r\<rparr> in
             case ParseCommand (envUpper env) value of
               Inl err \<Rightarrow> handle env clock (t + 1) (writeError (''Protocol error: '' @ cmderror_text err) c)
             | Inr cmd \<Rightarrow>
                 (case executeClientCommand env (clock t) cmd c of
                    None \<Rightarrow> None
                  | Some c' \<Rightarrow> handle env clock (t + 1) c')))"
  by pat_completeness auto

termination
proof (relation "measure (\<lambda>(env, clock, t, c). length (pending (creader c)))", simp)
  fix env :: "'s env" and clock :: "nat \<Rightarrow> nat \<Rightarrow> int" and t and c c1 :: "'s connection" and x r v err
  assume "(x, r) = ReadNext (creader c)" "x = Inr v" "c1 = c\<lparr>creader := r\<rparr>"
  then show "((env, clock, t + 1, writeError (''Protocol error: '' @ cmderror_text err) c1), env, clock, t, c) \<in>
      measure (\<lambda>(env, clock, t, c). length (pending (creader c)))"
    using ReadNext_less [of "creader c" v r] by (simp add: reply_defs Let_def)
next
  fix env :: "'s env" and clock :: "nat \<Rightarrow> nat \<Rightarrow> int" and t and c c1 c' :: "'s connection" and x r v cmd
  assume "(x, r) = ReadNext (creader c)" "x = Inr v" "c1 = c\<lparr>creader := r\<rparr>"
    "executeClientCommand env (clock t) cmd c1 = Some c'"
  then show "((env, clock, t + 1, c'), env, clock, t, c) \<in> measure (\<lambda>(env, clock, t, c). length (pending (creader c)))"
    using ReadNext_less [of "creader c" v r] kept_execute [of env "clock t" cmd c1 c'] by (simp add: kept_def)
qed

declare handle.simps [simp del]

end
