(* ===== verification/Server_Correct.thy ===== *)
theory Server_Correct
  imports Server
begin

text \<open>
  Properties of the server: every reply is one complete RESP value, whatever the client sends; nothing
  happens without authentication; commands other than scripts do not change the data a client can see; no
  command panics, two oversized arguments excepted; and the replies to the reading commands.
\<close>

section \<open>Framing of the replies\<close>

text \<open>A value whose bytes are self-contained: simple strings and errors are one line.\<close>

fun framed :: "pvalue \<Rightarrow> bool" where
  "framed (Value t d i vs isNull) =
     (if t = TypeSimpleString \<or> t = TypeError then LF \<notin> set d
      else if t = TypeArray then isNull \<or> list_all framed vs
      else t \<in> {TypeInteger, TypeBulkString})"

lemma framed_writable: "framed v \<Longrightarrow> writable v"
  by (induction v) (auto simp: list_all_iff split: if_split_asm)

lemma framed_convertToValue [simp]: "framed (convertToValue env v)"
  by (induction v) (simp_all add: list_all_iff)

text \<open>One reply: on a working connection exactly the bytes of one framed value go out, on a failed one nothing.\<close>

definition replied :: "'s connection \<Rightarrow> 's connection \<Rightarrow> bool" where
  "replied c c' \<longleftrightarrow> (case werr (cwriter c) of
      None \<Rightarrow> \<exists>v. framed v \<and> cwriter c' = (cwriter c)\<lparr>written := written (cwriter c) @ wire v\<rparr>
    | Some m \<Rightarrow> cwriter c' = cwriter c)"

lemma replied_send: "puts f (wire v) \<Longrightarrow> framed v \<Longrightarrow> replied c (send f c)"
  by (auto simp: replied_def send_def Flush_def puts_def split: option.split)

lemma replied_from: "cwriter c = cwriter c0 \<Longrightarrow> replied c c' \<Longrightarrow> replied c0 c'"
  by (auto simp: replied_def split: option.splits)

lemma replied_to: "cwriter c'' = cwriter c' \<Longrightarrow> replied c c' \<Longrightarrow> replied c c''"
  by (auto simp: replied_def split: option.splits)

lemma writer_puts [simp]:
  "cwriter (putStorage s c) = cwriter c" "cwriter (putLua e c) = cwriter c"
  by (simp_all add: putStorage_def putLua_def)

lemma replied_writeString: "LF \<notin> set m \<Longrightarrow> cwriter c = cwriter c0 \<Longrightarrow> replied c0 (writeString m c)"
  unfolding writeString_def
  by (rule replied_from, assumption, rule replied_send [of _ "SimpleV m"]) (simp_all add: puts_WriteSimpleString [simplified])

lemma replied_writeError: "cwriter c = cwriter c0 \<Longrightarrow> replied c0 (writeError m c)"
proof -
  assume eq: "cwriter c = cwriter c0"
  let ?m = "ReplaceByte CR '' '' (ReplaceByte LF '' '' m)"
  have "LF \<notin> set ?m" using set_ReplaceByte [of CR "'' ''" "ReplaceByte LF '' '' m"] set_ReplaceByte [of LF "'' ''" m] by auto
  then have "replied (c\<lparr>csrv := (csrv c)\<lparr>errorCount := errorCount (csrv c) + 1\<rparr>\<rparr>) (writeError m c)"
    unfolding writeError_def Let_def by (intro replied_send [of _ "ErrorV ?m"]) (simp_all add: puts_WriteError [simplified])
  then show ?thesis by (rule replied_from [rotated]) (simp add: eq)
qed

lemma replied_writeBulkString: "cwriter c = cwriter c0 \<Longrightarrow> replied c0 (writeBulkString d c)"
  unfolding writeBulkString_def
  by (rule replied_from, assumption, rule replied_send [of _ "BulkV d"]) (simp_all add: puts_WriteBulkString [simplified])

lemma replied_writeNull: "cwriter c = cwriter c0 \<Longrightarrow> replied c0 (writeNull c)"
  unfolding writeNull_def
  by (rule replied_from, assumption, rule replied_send [of _ "NullBulkV"]) (simp_all add: puts_WriteNullBulkString [simplified])

lemma replied_writeInteger: "cwriter c = cwriter c0 \<Longrightarrow> replied c0 (writeInteger i c)"
  unfolding writeInteger_def
  by (rule replied_from, assumption, rule replied_send [of _ "IntegerV i"]) (simp_all add: puts_WriteInteger [simplified])

lemma replied_writeArray: "cwriter c = cwriter c0 \<Longrightarrow> replied c0 (writeArray env vs c)"
  unfolding writeArray_def
  by (rule replied_from, assumption, rule replied_send [OF puts_WriteArray])
    (simp_all add: list_all_iff framed_writable)

lemmas replied_intros = replied_writeString replied_writeError replied_writeBulkString replied_writeNull
  replied_writeInteger replied_writeArray

lemma replied_writeResult: "cwriter c = cwriter c0 \<Longrightarrow> replied c0 (writeResult env v c)"
  by (cases v) (simp_all add: writeResult_def replied_intros)

text \<open>A line read from the master has no line feed inside.\<close>

lemma readLine_no_LF: "readLine r = (Inr l, r') \<Longrightarrow> LF \<notin> set l"
proof -
  assume "readLine r = (Inr l, r')"
  then obtain ln where ln: "ReadBytes LF r = (Inr ln, r')" "l = take (length ln - 2) ln"
    by (auto simp: readLine_def Let_def split: prod.splits sum.splits if_splits)
  then have "butlast ln = takeWhile (\<lambda>c. c \<noteq> LF) (pending r)"
    by (auto simp: ReadBytes_def split: list.splits)
  moreover have "set l \<subseteq> set (butlast ln)"
    using set_take_subset_set_take [of "length ln - 2" "length ln - 1" ln] ln(2) by (simp add: butlast_conv_take)
  ultimately show ?thesis by (auto dest: set_takeWhileD)
qed

lemma ReadNext_simple: "ReadNext r = (Inr v, r') \<Longrightarrow> vType v = TypeSimpleString \<Longrightarrow> LF \<notin> set (vData v)"
proof -
  assume read: "ReadNext r = (Inr v, r')" and simple: "vType v = TypeSimpleString"
  obtain x r1 where x: "ReadByte r = (x, r1)" by (cases "ReadByte r")
  from read simple have "readSimpleString r1 = (Inr v, r')"
    by (subst (asm) ReadNext.simps)
      (auto simp: x readError_def readInteger_def readBulkString_def readArray.simps split: sum.splits prod.splits if_splits)
  then show ?thesis using readLine_no_LF by (auto simp: readSimpleString_def split: sum.splits prod.splits)
qed

section \<open>Every command is answered\<close>

lemma replied_plain:
  "replied c (handleAuth cmd c)" "replied c (handlePing cmd c)" "replied c (handleCommand env cmd c)"
  "replied c (handleReadOnly cmd c)" "replied c (handleConfig env cmd c)" "replied c (handleRole env cmd c)"
  by (simp_all add: handleAuth_def handlePing_def handleCommand_def handleReadOnly_def handleConfig_def handleConfigGet_def
      handleRole_def Let_def replied_intros)

lemma sha1Hex_no_LF: "LF \<notin> set (sha1Hex s)"
  using sha1Hex_plain [of LF s] by auto

lemma LoadScript_fst: "fst (LoadScript script e) = sha1Hex script"
  by (simp add: LoadScript_def Let_def)

lemma replied_script: "replied c (handleScript env cmd c)"
  using LoadScript_fst sha1Hex_no_LF
  by (auto simp: handleScript_def Let_def split: list.split prod.split intro!: replied_intros) (metis fst_conv)

lemma replied_forward: "ReadNext r = (Inr v, r') \<Longrightarrow> replied c (forwardResponse env v c)"
  using ReadNext_simple by (simp add: forwardResponse_def replied_intros)

lemma replied_sendToMaster: "replied c (sendToMaster env cmd r w c)"
  by (auto simp: sendToMaster_def split: prod.split sum.split option.split intro!: replied_intros replied_forward)

lemma replied_write: "replied c (handleWrite env cmd c)"
  by (simp add: handleWrite_def redirectToMaster_def replied_intros replied_sendToMaster
      split: sum.split prod.split option.split)

lemma replied_eval:
  "handleEval env clock cmd c = Some c' \<Longrightarrow> replied c c'"
  "handleEvalSHA env clock cmd c = Some c' \<Longrightarrow> replied c c'"
  by (auto simp: handleEval_def handleEvalSHA_def scriptReply_def split: option.splits sum.splits prod.splits
      intro!: replied_intros replied_writeResult)

lemma ValueType_String_no_LF: "LF \<notin> set (ValueType_String t)"
  by (cases t) simp_all

lemma replied_read:
  "handleSelect env cmd c = Some c' \<Longrightarrow> replied c c'"
  "handleGet env now cmd c = Some c' \<Longrightarrow> replied c c'"
  "handleMGet env clock cmd c = Some c' \<Longrightarrow> replied c c'"
  "handleExists env now cmd c = Some c' \<Longrightarrow> replied c c'"
  "handleTTL env now cmd c = Some c' \<Longrightarrow> replied c c'"
  "handlePTTL env now cmd c = Some c' \<Longrightarrow> replied c c'"
  "handleType env now cmd c = Some c' \<Longrightarrow> replied c c'"
  "handleKeys env now cmd c = Some c' \<Longrightarrow> replied c c'"
  "handleScan env now cmd c = Some c' \<Longrightarrow> replied c c'"
  "handleDBSize env cmd c = Some c' \<Longrightarrow> replied c c'"
  "handleInfo env now cmd c = Some c' \<Longrightarrow> replied c c'"
  by (auto simp: handleSelect_def handleGet_def handleMGet_def handleExists_def handleTTL_def handlePTTL_def handleType_def
      handleKeys_def handleScan_def handleDBSize_def handleInfo_def Let_def ValueType_String_no_LF
      split: if_splits option.splits list.splits sum.splits intro!: replied_intros)

lemma replied_dispatch: "dispatch env clock cmd c = Some c' \<Longrightarrow> replied c c'"
  unfolding dispatch_def Let_def
  by (auto split: if_split_asm intro: replied_plain replied_script replied_write replied_intros
      dest: replied_read replied_eval intro!: replied_to [of "_\<lparr>cclosed := True\<rparr>" "writeString ''OK'' c"])

lemma replied_execute: "executeClientCommand env clock cmd c = Some c' \<Longrightarrow> replied c c'"
  unfolding executeClientCommand_def Let_def
  by (auto split: if_split_asm dest!: replied_dispatch intro!: replied_intros elim!: replied_from [rotated])

section \<open>Invariants of a connection\<close>

text \<open>A property of the connection that every command keeps holds when the connection is closed.\<close>

locale connection_invariant =
  fixes env :: "'s env" and P :: "'s connection \<Rightarrow> bool"
  assumes step: "P c \<Longrightarrow> executeClientCommand env clk cmd c = Some c' \<Longrightarrow> P c'"
    and err: "P c \<Longrightarrow> P (writeError m c)"
    and rd: "P c \<Longrightarrow> P (c\<lparr>creader := r\<rparr>)"
    and close: "P c \<Longrightarrow> P (closeConnection c)"
begin

lemma handle_keeps: "env' = env \<Longrightarrow> handle env' clock t c = Some c' \<Longrightarrow> P c \<Longrightarrow> P c'"
proof (induction env' clock t c rule: handle.induct)
  case (1 env' clock t c)
  obtain x r where read: "ReadNext (creader c) = (x, r)" by (cases "ReadNext (creader c)")
  let ?c = "c\<lparr>creader := r\<rparr>"
  have P: "P ?c" using "1.prems"(3) by (rule rd)
  show ?case
  proof (cases "cclosed c")
    case True
    with "1.prems" show ?thesis by (simp add: handle.simps)
  next
    case opened: False
    show ?thesis
    proof (cases x)
      case (Inl e)
      then have "c' = closeConnection ?c \<or> c' = closeConnection (writeError (''Protocol error: '' @ perror_text e) ?c)"
        using "1.prems"(2) read opened by (auto simp: handle.simps [of env' clock t c] Let_def split: if_splits)
      with P show ?thesis using close err by blast
    next
      case x: (Inr v)
      show ?thesis
      proof (cases "ParseCommand (envUpper env') v")
        case (Inl e)
        then have "handle env' clock (t + 1) (writeError (''Protocol error: '' @ cmderror_text e) ?c) = Some c'"
          using "1.prems"(2) read x opened by (simp add: handle.simps [of env' clock t c] Let_def)
        from "1.IH"(1) [OF opened read [symmetric] x refl Inl "1.prems"(1) this err [OF P]] show ?thesis .
      next
        case (Inr cmd)
        with "1.prems"(2) read x opened obtain c1 where
          c1: "executeClientCommand env' (clock t) cmd ?c = Some c1" "handle env' clock (t + 1) c1 = Some c'"
          by (auto simp: handle.simps [of env' clock t c] Let_def split: option.splits)
        have "P c1" using step [OF P] c1(1) "1.prems"(1) by blast
        from "1.IH"(2) [OF opened read [symmetric] x refl Inr c1(1) "1.prems"(1) c1(2) this] show ?thesis .
      qed
    qed
  qed
qed

end

text \<open>The output of a connection since its writer was \<open>w\<close>: a sequence of such replies.\<close>

definition framedSince :: "writer \<Rightarrow> 's connection \<Rightarrow> bool" where
  "framedSince w c \<longleftrightarrow> werr w = None \<and> (\<exists>vs. list_all framed vs \<and> cwriter c = w\<lparr>written := written w @ concat (map wire vs)\<rparr>)"

lemma framedSince_replied:
  assumes "framedSince w c" "replied c c'"
  shows "framedSince w c'"
proof -
  obtain vs where vs: "werr w = None" "list_all framed vs" "cwriter c = w\<lparr>written := written w @ concat (map wire vs)\<rparr>"
    using assms(1) by (auto simp: framedSince_def)
  then obtain v where "framed v" "cwriter c' = (cwriter c)\<lparr>written := written (cwriter c) @ wire v\<rparr>"
    using assms(2) by (auto simp: replied_def)
  with vs show ?thesis unfolding framedSince_def by (intro conjI exI [of _ "vs @ [v]"]) simp_all
qed

interpretation replies: connection_invariant env "framedSince w" for env w
  by unfold_locales
    (auto simp: framedSince_def [of _ "_\<lparr>creader := _\<rparr>"] framedSince_def [of _ "closeConnection _"] closeConnection_def
      intro: framedSince_replied replied_execute replied_intros, auto simp: framedSince_def)

lemma handle_output:
  assumes "handle env clock t c = Some c'" "werr (cwriter c) = None"
  shows "\<exists>vs. list_all framed vs \<and> cwriter c' = (cwriter c)\<lparr>written := written (cwriter c) @ concat (map wire vs)\<rparr>"
proof -
  have "framedSince (cwriter c) c" using assms(2) by (auto simp: framedSince_def intro: exI [of _ "[]"])
  from replies.handle_keeps [OF refl assms(1) this] show ?thesis by (simp add: framedSince_def)
qed

section \<open>Authentication\<close>

lemma server_replies [simp]:
  "csrv (writeString m c) = csrv c" "csrv (writeBulkString d c) = csrv c" "csrv (writeNull c) = csrv c"
  "csrv (writeInteger i c) = csrv c" "csrv (writeArray env vs c) = csrv c"
  "csrv (writeError m c) = (csrv c)\<lparr>errorCount := errorCount (csrv c) + 1\<rparr>"
  "csrv (putStorage s c) = (csrv c)\<lparr>srvStorage := s\<rparr>" "csrv (putLua e c) = (csrv c)\<lparr>srvLua := e\<rparr>"
  by (simp_all add: reply_defs Let_def putStorage_def putLua_def)

lemma authenticated_replies [simp]:
  "authenticated (writeString m c) = authenticated c" "authenticated (writeError m c) = authenticated c"
  by (simp_all add: reply_defs Let_def)

lemma writeError_output:
  "werr (cwriter c) = None \<Longrightarrow> \<exists>m'. cwriter (writeError m c) = (cwriter c)\<lparr>written := written (cwriter c) @ wire (ErrorV m')\<rparr>"
  using puts_ok [OF puts_WriteError [of "ReplaceByte CR '' '' (ReplaceByte LF '' '' m)"], of "cwriter c"]
  by (auto simp: writeError_def send_def Flush_def Let_def)

lemma unauthenticated_step:
  assumes "\<not> authenticated c"
  shows "\<exists>c'. executeClientCommand env clock cmd c = Some c' \<and> storageOf c' = storageOf c \<and> srvLua (csrv c') = srvLua (csrv c) \<and>
    srvPassword (csrv c') = srvPassword (csrv c) \<and>
    (authenticated c' \<longleftrightarrow> ToUpper (envUpper env) (cmdName cmd) = ''AUTH'' \<and> srvPassword (csrv c) \<noteq> [] \<and> cmdArgs cmd = [srvPassword (csrv c)]) \<and>
    (werr (cwriter c) = None \<and> \<not> authenticated c' \<longrightarrow>
      (\<exists>m. cwriter c' = (cwriter c)\<lparr>written := written (cwriter c) @ wire (ErrorV m)\<rparr>))"
proof -
  define c1 where "c1 = c\<lparr>csrv := (csrv c)\<lparr>commandCount := commandCount (csrv c) + 1\<rparr>\<rparr>"
  have c1: "cwriter c1 = cwriter c" "\<not> authenticated c1" "storageOf c1 = storageOf c" "srvLua (csrv c1) = srvLua (csrv c)"
      "srvPassword (csrv c1) = srvPassword (csrv c)"
    using assms by (simp_all add: c1_def)
  show ?thesis
  proof (cases "ToUpper (envUpper env) (cmdName cmd) = ''AUTH''")
    case True
    then have "executeClientCommand env clock cmd c = Some (handleAuth cmd c1)"
      by (simp add: executeClientCommand_def dispatch_def c1_def Let_def)
    moreover have "cmdArgs cmd = [p] \<longleftrightarrow> length (cmdArgs cmd) = 1 \<and> cmdArgs cmd ! 0 = p" for p
      by (cases "cmdArgs cmd") auto
    ultimately show ?thesis
      using True c1 writeError_output [of c1] by (auto simp: handleAuth_def)
  next
    case False
    then have "executeClientCommand env clock cmd c = Some (writeError ''NOAUTH Authentication required'' c1)"
      using c1 assms by (simp add: executeClientCommand_def c1_def Let_def)
    with False c1 writeError_output [of c1] show ?thesis by auto
  qed
qed

interpretation auth: connection_invariant env
    "\<lambda>c. authenticated c \<or> storageOf c = s0 \<and> srvLua (csrv c) = e0" for env s0 e0
proof
  fix c c' clk cmd
  assume "authenticated c \<or> storageOf c = s0 \<and> srvLua (csrv c) = e0"
    and exec: "executeClientCommand env clk cmd c = Some c'"
  then show "authenticated c' \<or> storageOf c' = s0 \<and> srvLua (csrv c') = e0"
  proof (cases "authenticated c")
    case True
    with kept_execute [OF exec] show ?thesis by (simp add: kept_def)
  qed (use unauthenticated_step [of c env clk cmd] exec in auto)
qed (auto simp: closeConnection_def)

section \<open>Reading commands\<close>

text \<open>Names of the commands that run scripts.\<close>

definition isScript :: "'s env \<Rightarrow> command \<Rightarrow> bool" where
  "isScript env cmd \<longleftrightarrow> ToUpper (envUpper env) (cmdName cmd) \<in> {''EVAL'', ''EVALSHA''}"

lemma storage_same:
  "storageOf (handleAuth cmd c) = storageOf c" "storageOf (handlePing cmd c) = storageOf c"
  "storageOf (handleCommand env cmd c) = storageOf c" "storageOf (handleReadOnly cmd c) = storageOf c"
  "storageOf (handleConfig env cmd c) = storageOf c" "storageOf (handleRole env cmd c) = storageOf c"
  "storageOf (handleScript env cmd c) = storageOf c" "storageOf (forwardResponse env v c) = storageOf c"
  by (simp_all add: handleAuth_def handlePing_def handleCommand_def handleReadOnly_def handleConfig_def handleConfigGet_def
      handleRole_def handleScript_def forwardResponse_def Let_def split: list.split prod.split)

lemma storage_write: "storageOf (handleWrite env cmd c) = storageOf c"
  by (simp add: handleWrite_def redirectToMaster_def sendToMaster_def storage_same split: sum.split prod.split option.split)

lemma storage_read:
  "handleExists env now cmd c = Some c' \<Longrightarrow> storageOf c' = storageOf c"
  "handleTTL env now cmd c = Some c' \<Longrightarrow> storageOf c' = storageOf c"
  "handlePTTL env now cmd c = Some c' \<Longrightarrow> storageOf c' = storageOf c"
  "handleType env now cmd c = Some c' \<Longrightarrow> storageOf c' = storageOf c"
  "handleKeys env now cmd c = Some c' \<Longrightarrow> storageOf c' = storageOf c"
  "handleScan env now cmd c = Some c' \<Longrightarrow> storageOf c' = storageOf c"
  "handleDBSize env cmd c = Some c' \<Longrightarrow> storageOf c' = storageOf c"
  "handleInfo env now cmd c = Some c' \<Longrightarrow> storageOf c' = storageOf c"
  by (auto simp: handleExists_def handleTTL_def handlePTTL_def handleType_def
      handleKeys_def handleScan_def handleDBSize_def handleInfo_def Let_def split: if_splits option.splits list.splits sum.splits)

context storage_reads
begin

text \<open>The same data to a client from time \<open>later\<close> on.\<close>

definition same_data :: "int \<Rightarrow> 's \<Rightarrow> 's \<Rightarrow> bool" where
  "same_data later s s' \<longleftrightarrow> inv s' \<and> unexpired later (view s') = unexpired later (view s)"

lemma get_same: "inv s \<Longrightarrow> now \<le> later \<Longrightarrow> stGet st now k s = Some (v, s') \<Longrightarrow> same_data later s s'"
proof -
  assume "inv s" and later: "now \<le> later" and get: "stGet st now k s = Some (v, s')"
  then have "inv s'" and "unexpired now (view s') = unexpired now (view s)" using get_law [of s now k] by simp_all
  with unexpired_later [OF this(2) later] show ?thesis by (simp add: same_data_def)
qed

lemma mget_same: "inv s \<Longrightarrow> (\<And>j. clock j \<le> later) \<Longrightarrow> mgetLoop st clock i ks s = Some (vs, s') \<Longrightarrow> same_data later s s'"
proof (induction ks arbitrary: i s vs)
  case (Cons k ks)
  from Cons.prems(3) obtain v s1 vs1 where
      one: "stGet st (clock i) k s = Some (v, s1)" and rest: "mgetLoop st clock (i + 1) ks s1 = Some (vs1, s')"
    by (auto split: option.splits)
  have first: "same_data later s s1" by (rule get_same [OF Cons.prems(1) Cons.prems(2) one])
  then have "inv s1" by (simp add: same_data_def)
  from Cons.IH [OF this Cons.prems(2) rest] first show ?case by (simp add: same_data_def)
qed (simp add: same_data_def)

lemma select_same: "inv s \<Longrightarrow> stSelectDB st d s = Some (e, s') \<Longrightarrow> same_data later s s'"
  using select_total [of s d] by (auto simp: same_data_def)

lemma data_read:
  assumes "inv (storageOf c)" and "envStorage env = st" and "\<And>j. clock j \<le> later"
  shows "handleSelect env cmd c = Some c' \<Longrightarrow> same_data later (storageOf c) (storageOf c')"
    and "handleGet env (clock 0) cmd c = Some c' \<Longrightarrow> same_data later (storageOf c) (storageOf c')"
    and "handleMGet env clock cmd c = Some c' \<Longrightarrow> same_data later (storageOf c) (storageOf c')"
proof -
  have refl: "same_data later (storageOf c) (storageOf c)" using assms(1) by (simp add: same_data_def)
  show "handleSelect env cmd c = Some c' \<Longrightarrow> same_data later (storageOf c) (storageOf c')"
    using assms(2) refl select_same [OF assms(1)] by (auto simp: handleSelect_def split: if_splits option.splits)
  show "handleGet env (clock 0) cmd c = Some c' \<Longrightarrow> same_data later (storageOf c) (storageOf c')"
    using assms(2) refl get_same [OF assms(1,3)] by (auto simp: handleGet_def split: if_splits option.splits)
  show "handleMGet env clock cmd c = Some c' \<Longrightarrow> same_data later (storageOf c) (storageOf c')"
    using assms(2) refl mget_same [OF assms(1,3)] by (auto simp: handleMGet_def split: if_splits)
qed

lemma dispatch_same:
  assumes "inv (storageOf c)" and "envStorage env = st" and "\<And>j. clock j \<le> later" and "\<not> isScript env cmd"
    and run: "dispatch env clock cmd c = Some c'"
  shows "same_data later (storageOf c) (storageOf c')"
proof -
  have self: "same_data later (storageOf c) (storageOf c)" using assms(1) by (simp add: same_data_def)
  show ?thesis
    using run assms(4) unfolding dispatch_def Let_def isScript_def
    by (auto split: if_split_asm dest: storage_read data_read [OF assms(1-3)] simp: self storage_same storage_write)
qed

lemma execute_same:
  assumes "inv (storageOf c)" and "envStorage env = st" and "\<And>j. clock j \<le> later" and "\<not> isScript env cmd"
    and run: "executeClientCommand env clock cmd c = Some c'"
  shows "same_data later (storageOf c) (storageOf c')"
proof -
  define c1 where "c1 = c\<lparr>csrv := (csrv c)\<lparr>commandCount := commandCount (csrv c) + 1\<rparr>\<rparr>"
  have "storageOf c' = storageOf c \<or> dispatch env clock cmd c1 = Some c'"
    using run by (auto simp: executeClientCommand_def c1_def Let_def split: if_splits)
  moreover have "storageOf c1 = storageOf c" by (simp add: c1_def)
  ultimately show ?thesis
    using dispatch_same [of c1 env clock later cmd c'] assms by (auto simp: same_data_def)
qed

end

section \<open>No panic\<close>

text \<open>
  The arguments that make the code panic: a \<^verbatim>\<open>COUNT\<close> beyond what can be allocated, and a number of keys so large
  that adding 2 wraps around. (A command of more than \<open>2 ^ 44\<close> arguments does not fit in memory.)
\<close>

definition hugeScan :: "'s env \<Rightarrow> command \<Rightarrow> bool" where
  "hugeScan env cmd \<longleftrightarrow> ToUpper (envUpper env) (cmdName cmd) = ''SCAN'' \<and>
     (case cmdArgs cmd of [] \<Rightarrow> False | a # opts \<Rightarrow>
        (case scanOptions (envUpper env) opts [] 10 of Inl _ \<Rightarrow> False | Inr (_, n) \<Rightarrow> n > 2 ^ 44))"

definition hugeEval :: "'s env \<Rightarrow> command \<Rightarrow> bool" where
  "hugeEval env cmd \<longleftrightarrow> isScript env cmd \<and> length (cmdArgs cmd) \<ge> 2 \<and>
     (length (cmdArgs cmd) > 2 ^ 44 \<or> (case Atoi (cmdArgs cmd ! 1) of None \<Rightarrow> False | Some n \<Rightarrow> 2 + n > int64_max))"

lemma evalArgs_total:
  assumes small: "length args \<le> 2 ^ 44" and "case Atoi (args ! 1) of None \<Rightarrow> True | Some n \<Rightarrow> 2 + n \<le> int64_max"
  shows "evalArgs name args \<noteq> None"
proof (cases "Atoi (args ! 1)")
  case (Some n)
  with assms(2) have le: "2 + n \<le> int64_max" by simp
  have "makeSlice 16 n = Some ()" if "0 \<le> n" "\<not> int (length args) < wrap64 (2 + n)"
  proof -
    have "wrap64 (2 + n) = 2 + n" using le that(1) by (intro wrap64_id) (simp add: in_int64_def int64_min_def)
    then show ?thesis using that small by (simp add: makeSlice_def maxAlloc_def)
  qed
  then show ?thesis using Some by (simp add: evalArgs_def)
qed (simp add: evalArgs_def)

lemma evalArgs_short: "length args < 2 \<Longrightarrow> evalArgs name args \<noteq> None"
  by (simp add: evalArgs_def)

lemma scanOptions_positive: "scanOptions U opts pat n = Inr (pat', n') \<Longrightarrow> 0 < n \<Longrightarrow> 0 < n'"
proof (induction U opts pat n rule: scanOptions.induct)
  case (2 U a as pat n)
  then show ?case
    by (cases as) (simp_all split: if_split_asm option.split_asm)
qed simp

context storage_laws
begin

lemma mget_total: "inv s \<Longrightarrow> \<exists>vs s'. mgetLoop st clock i ks s = Some (vs, s')"
proof (induction ks arbitrary: i s)
  case (Cons k ks)
  obtain v s1 where s1: "stGet st (clock i) k s = Some (v, s1)" "inv s1" using get_law [OF Cons.prems, of "clock i" k] by blast
  with Cons.IH [OF s1(2), of "i + 1"] show ?case by auto
qed simp

lemma infoLoop_total:
  assumes "inv (storageOf c)" and "envStorage env = st"
  shows "\<exists>info. infoLoop env now c sections = Some info"
proof -
  obtain u i where "stMemoryUsage (envStorage env) (storageOf c) = Some u"
      "stDatabaseInfo (envStorage env) now (storageOf c) = Some i"
    using usage_law [OF assms(1)] info_law [OF assms(1), of now] assms(2) by auto
  note known = this
  show ?thesis
  proof (induction sections)
    case (Cons sec rest)
    then obtain info where "infoLoop env now c rest = Some info" by blast
    with known show ?case by (simp add: Let_def)
  qed simp
qed

lemma reads_total:
  assumes inv: "inv (storageOf c)" and st: "envStorage env = st"
  shows "handleSelect env cmd c \<noteq> None" and "handleGet env now cmd c \<noteq> None" and "handleMGet env clock cmd c \<noteq> None"
    and "handleExists env now cmd c \<noteq> None" and "handleTTL env now cmd c \<noteq> None" and "handlePTTL env now cmd c \<noteq> None"
    and "handleType env now cmd c \<noteq> None" and "handleKeys env now cmd c \<noteq> None" and "handleDBSize env cmd c \<noteq> None"
    and "handleInfo env now cmd c \<noteq> None"
proof -
  show "handleSelect env cmd c \<noteq> None"
  proof (cases "Atoi (cmdArgs cmd ! 0)")
    case (Some db)
    obtain e s' where "stSelectDB st db (storageOf c) = Some (e, s')" using select_total [OF inv, of db] by blast
    with Some show ?thesis by (simp add: handleSelect_def st split: option.split)
  qed (simp add: handleSelect_def)
  show "handleGet env now cmd c \<noteq> None"
    using get_law [OF inv, of now "cmdArgs cmd ! 0"] by (auto simp: handleGet_def st split: option.split)
  show "handleMGet env clock cmd c \<noteq> None"
    using mget_total [OF inv, of clock 0 "cmdArgs cmd"] by (auto simp: handleMGet_def st)
  show "handleExists env now cmd c \<noteq> None" "handleTTL env now cmd c \<noteq> None" "handlePTTL env now cmd c \<noteq> None"
      "handleType env now cmd c \<noteq> None" "handleDBSize env cmd c \<noteq> None"
    by (simp_all add: handleExists_def handleTTL_def handlePTTL_def handleType_def handleDBSize_def st
        exists_law [OF inv] ttl_law [OF inv] pttl_law [OF inv] type_law [OF inv] count_law [OF inv])
  show "handleKeys env now cmd c \<noteq> None"
    using keys_law [OF inv, of now "cmdArgs cmd ! 0"] by (auto simp: handleKeys_def st)
  show "handleInfo env now cmd c \<noteq> None"
    using infoLoop_total [OF inv st] by (simp add: handleInfo_def Let_def)
qed

lemma scan_total:
  assumes inv: "inv (storageOf c)" and st: "envStorage env = st" and "\<not> hugeScan env cmd"
    and name: "ToUpper (envUpper env) (cmdName cmd) = ''SCAN''"
  shows "handleScan env now cmd c \<noteq> None"
proof (cases "cmdArgs cmd")
  case (Cons a opts)
  show ?thesis
  proof (cases "scanOptions (envUpper env) opts [] 10")
    case (Inr x)
    obtain pat n where x: "x = (pat, n)" by (cases x)
    have "0 < n" "n \<le> 2 ^ 44"
      using scanOptions_positive [of "envUpper env" opts "[]" 10 pat n] Inr x assms(3) name Cons
      by (simp_all add: hugeScan_def not_less)
    then have "stScan st now cursor pat n (storageOf c) \<noteq> None" for cursor using scan_law [OF inv] by simp
    then show ?thesis using Cons Inr x st by (auto simp: handleScan_def split: option.split)
  qed (use Cons in \<open>simp add: handleScan_def split: option.split\<close>)
qed (simp add: handleScan_def)

lemma scripts_total:
  assumes inv: "inv (storageOf c)" and st: "envStorage env = st" and "isScript env cmd" and "\<not> hugeEval env cmd"
  shows "handleEval env clock cmd c \<noteq> None" and "handleEvalSHA env clock cmd c \<noteq> None"
proof -
  have args: "evalArgs name (cmdArgs cmd) \<noteq> None" for name
  proof (cases "length (cmdArgs cmd) < 2")
    case False
    with assms(3,4) show ?thesis
      by (intro evalArgs_total) (auto simp: hugeEval_def not_less split: option.splits)
  qed (rule evalArgs_short)
  have reply: "scriptReply env out c \<noteq> None" if "\<exists>r e s. out = Some (r, e, s)" for out
    using that by (auto simp: scriptReply_def split: sum.split)
  have run: "\<exists>r e s. Eval (envVM env) st clock script keys as (srvLua (csrv c)) (storageOf c) = Some (r, e, s)"
      "\<exists>r e s. EvalSHA (envVM env) st clock script keys as (srvLua (csrv c)) (storageOf c) = Some (r, e, s)" for script keys as
    using Eval_safe [OF inv, of "envVM env" clock script keys as "srvLua (csrv c)"]
      EvalSHA_safe [OF inv, of "envVM env" clock script keys as "srvLua (csrv c)"] by blast+
  show "handleEval env clock cmd c \<noteq> None"
    using args [of "''eval''"] reply [OF run(1)] by (auto simp: handleEval_def st split: option.split sum.split prod.split)
  show "handleEvalSHA env clock cmd c \<noteq> None"
    using args [of "''evalsha''"] reply [OF run(2)] by (auto simp: handleEvalSHA_def st split: option.split sum.split prod.split)
qed

lemma dispatch_total:
  assumes inv: "inv (storageOf c)" and st: "envStorage env = st" and "\<not> hugeScan env cmd" and "\<not> hugeEval env cmd"
  shows "dispatch env clock cmd c \<noteq> None"
  using reads_total [OF inv st] scan_total [OF inv st assms(3)] scripts_total [OF inv st _ assms(4)]
  unfolding dispatch_def Let_def isScript_def by (simp split: if_split)

lemma execute_total:
  assumes "inv (storageOf c)" and "envStorage env = st" and "\<not> hugeScan env cmd" and "\<not> hugeEval env cmd"
  shows "executeClientCommand env clock cmd c \<noteq> None"
  using dispatch_total [of "c\<lparr>csrv := (csrv c)\<lparr>commandCount := commandCount (csrv c) + 1\<rparr>\<rparr>" env cmd clock] assms
  by (simp add: executeClientCommand_def Let_def)

end

end
