(* ===== verification/Server_Properties.thy ===== *)
theory Server_Properties
  imports Server_Correct
begin

text \<open>
  What the server (\<^verbatim>\<open>src/server/server.go\<close>) promises, over the in-memory store: the form of its output, the
  authentication gate, the replies to the reading commands, that clients cannot change the data or stop the
  server, and the inputs for which the last two fail.
\<close>

section \<open>A server to run\<close>

text \<open>A server over the store \<open>demo\<close> (key \<open>a\<close> holds \<open>1\<close> in database 0) that does not reach its master.\<close>

definition demoEnv :: "memstore env" where
  "demoEnv = \<lparr>envStorage = memoryStorage (\<lambda>_. 0) plainOrders globalMatchingConfig, envVM = demoVM, envUpper = id, envLower = id,
     envDial = (\<lambda>_. Inl ''refused''), envFmtG = (\<lambda>_. []), envMapOrder = id, envInfoOrder = id\<rparr>"

definition freshWriter :: writer where
  "freshWriter = \<lparr>written = [], werr = None\<rparr>"

text \<open>A client of a server with the given password, about to send the given bytes.\<close>

definition demoClient :: "string \<Rightarrow> bytes \<Rightarrow> memstore connection" where
  "demoClient pw input = handleNewClient \<lparr>pending = input, endErr = EOF\<rparr> freshWriter (SetPassword pw (NewServer demo))"

lemma demoClient_fields [simp]:
  "storageOf (demoClient pw input) = demo" "cwriter (demoClient pw input) = freshWriter"
  "authenticated (demoClient pw input) = (pw = [])" "srvPassword (csrv (demoClient pw input)) = pw"
  "isLoading (demoClient pw input) = False" "creader (demoClient pw input) = \<lparr>pending = input, endErr = EOF\<rparr>"
  "werr freshWriter = None" "written freshWriter = []" "cclosed (demoClient pw input) = False"
  by (simp_all add: demoClient_def handleNewClient_def SetPassword_def NewServer_def freshWriter_def isLoading_def)

lemma demoEnv_fields [simp]:
  "envStorage demoEnv = memoryStorage (\<lambda>_. 0) plainOrders globalMatchingConfig" "envUpper demoEnv = id" "envVM demoEnv = demoVM"
  by (simp_all add: demoEnv_def)

lemma upper_names [simp]:
  "ToUpper id ''AUTH'' = ''AUTH''" "ToUpper id ''GET'' = ''GET''" "ToUpper id ''DEL'' = ''DEL''" "ToUpper id ''TYPE'' = ''TYPE''"
  "ToUpper id ''EVAL'' = ''EVAL''" "ToUpper id ''SCAN'' = ''SCAN''" "ToUpper id ''COUNT'' = ''COUNT''" "ToUpper id ''SELECT'' = ''SELECT''"
  by code_simp+

section \<open>Output and authentication\<close>

text \<open>
  Claim C12: whatever a client sends, malformed input included, and whatever the master answers to redirected
  writes, everything the server writes to the client is a sequence of complete RESP values in which no
  simple string or error contains a line feed, so a client never loses the boundary between two replies.
\<close>

theorem server_output_well_formed:
  assumes "handle env clock t c = Some c'" and "werr (cwriter c) = None"
  shows "\<exists>vs. list_all framed vs \<and> cwriter c' = (cwriter c)\<lparr>written := written (cwriter c) @ concat (map wire vs)\<rparr>"
  by (rule handle_output [OF assms])

theorem server_output_well_formed_witness:
  "\<exists>c' vs. handle demoEnv (\<lambda>_ _. 1) 0 (demoClient [] []) = Some c' \<and> list_all framed vs \<and> written (cwriter c') = concat (map wire vs)"
proof -
  obtain c' where c': "handle demoEnv (\<lambda>_ _. 1) 0 (demoClient [] []) = Some c'"
    by (simp add: handle.simps ReadNext.simps ReadByte_def Let_def)
  from server_output_well_formed [OF c'] c' show ?thesis by auto
qed

text \<open>
  Claim C5: on a connection that is not authenticated a command changes neither the data nor the scripts of
  the server, authenticates the connection exactly when it is \<^verbatim>\<open>AUTH\<close> with the configured password as its
  only argument, and is otherwise answered with an error.
\<close>

theorem authentication_gate:
  assumes "\<not> authenticated c"
  shows "\<exists>c'. executeClientCommand env clock cmd c = Some c' \<and> storageOf c' = storageOf c \<and> srvLua (csrv c') = srvLua (csrv c) \<and>
    (authenticated c' \<longleftrightarrow> ToUpper (envUpper env) (cmdName cmd) = ''AUTH'' \<and> srvPassword (csrv c) \<noteq> [] \<and> cmdArgs cmd = [srvPassword (csrv c)]) \<and>
    (werr (cwriter c) = None \<and> \<not> authenticated c' \<longrightarrow>
      (\<exists>m. cwriter c' = (cwriter c)\<lparr>written := written (cwriter c) @ wire (ErrorV m)\<rparr>))"
  using unauthenticated_step [OF assms, of env clock cmd] by blast

theorem authentication_gate_witness:
  "\<exists>c'. executeClientCommand demoEnv (\<lambda>_. 1) \<lparr>cmdName = ''AUTH'', cmdArgs = [''pw'']\<rparr> (demoClient ''pw'' []) = Some c' \<and> authenticated c'"
  using authentication_gate [of "demoClient ''pw'' []" demoEnv "\<lambda>_. 1" "\<lparr>cmdName = ''AUTH'', cmdArgs = [''pw'']\<rparr>"]
  by auto

text \<open>
  A connection that is not authenticated when it is closed has changed neither the data nor the
  scripts of the server, whatever bytes came over it.
\<close>

theorem unauthenticated_connection_harmless:
  assumes "handle env clock t c = Some c'" and "\<not> authenticated c'"
  shows "storageOf c' = storageOf c \<and> srvLua (csrv c') = srvLua (csrv c)"
  using auth.handle_keeps [OF refl assms(1), of "storageOf c" "srvLua (csrv c)"] assms(2) by simp

theorem unauthenticated_connection_harmless_witness:
  "\<exists>c'. handle demoEnv (\<lambda>_ _. 1) 0 (demoClient ''pw'' []) = Some c' \<and> storageOf c' = demo"
proof -
  obtain c' where c': "handle demoEnv (\<lambda>_ _. 1) 0 (demoClient ''pw'' []) = Some c'" "\<not> authenticated c'"
    by (simp add: handle.simps ReadNext.simps ReadByte_def closeConnection_def Let_def)
  from unauthenticated_connection_harmless [OF c'] c'(1) show ?thesis by simp
qed

section \<open>Reading\<close>

text \<open>
  Claim C13: the replica is read-only to its clients: no command but \<^verbatim>\<open>EVAL\<close> and \<^verbatim>\<open>EVALSHA\<close> changes what any
  client can read, in any database, now or later; at most keys that have expired go away. The invariant of the
  store survives.
\<close>

theorem read_only_replica:
  assumes "store_inv H (storageOf c)" and "envStorage env = memoryStorage H ords cfg" and "\<And>j. clock j \<le> later"
    and "\<not> isScript env cmd" and "executeClientCommand env clock cmd c = Some c'"
  shows "store_inv H (storageOf c') \<and> live later (storageOf c') = live later (storageOf c)"
  using mem_reads.execute_same [OF assms(1-5)] by (simp add: mem_reads.same_data_def live_unexpired)


theorem read_only_replica_witness:
  "\<exists>c'. executeClientCommand demoEnv (\<lambda>_. 1) \<lparr>cmdName = ''DEL'', cmdArgs = [''a'']\<rparr> (demoClient [] []) = Some c' \<and>
     live 9 (storageOf c') = live 9 demo"
proof -
  let ?cmd = "\<lparr>cmdName = ''DEL'', cmdArgs = [''a'']\<rparr>"
  obtain c' where c': "executeClientCommand demoEnv (\<lambda>_. 1) ?cmd (demoClient [] []) = Some c'"
    by (simp add: executeClientCommand_def dispatch_def Let_def)
  have "\<not> isScript demoEnv ?cmd" by (simp add: isScript_def)
  with read_only_replica [of "\<lambda>_. 0" "demoClient [] []" demoEnv plainOrders globalMatchingConfig "\<lambda>_. 1" 9 ?cmd c'] c'
  show ?thesis by (simp add: demo_inv)
qed

text \<open>
  What the reading commands mean, on the keys \<open>m\<close> that a client sees: \<open>None\<close> for what is left open here, the
  commands not listed and the rounding of a remaining time to seconds.
\<close>

definition answer :: "int \<Rightarrow> (string \<rightharpoonup> svalue) \<Rightarrow> string \<Rightarrow> string list \<Rightarrow> pvalue option" where
  "answer now m name args =
     (if name = ''GET'' \<and> length args = 1 then
        Some (case Option.bind (m (args ! 0)) stringData of None \<Rightarrow> NullBulkV | Some d \<Rightarrow> BulkV d)
      else if name = ''EXISTS'' \<and> args \<noteq> [] then Some (IntegerV (int (length (filter (\<lambda>k. m k \<noteq> None) args))))
      else if name = ''PTTL'' \<and> length args = 1 then
        Some (IntegerV (case m (args ! 0) of None \<Rightarrow> - 2 | Some v \<Rightarrow>
          (case valExpiry v of None \<Rightarrow> - 1 | Some t \<Rightarrow> Until now t sdiv 1000000)))
      else if name = ''TTL'' \<and> length args = 1 then
        (case m (args ! 0) of None \<Rightarrow> Some (IntegerV (- 2)) | Some v \<Rightarrow>
          (case valExpiry v of None \<Rightarrow> Some (IntegerV (- 1)) | Some t \<Rightarrow> None))
      else if name = ''TYPE'' \<and> length args = 1 then
        map_option (\<lambda>v. SimpleV (ValueType_String (valType v))) (m (args ! 0))
      else None)"

lemma reply_bytes:
  assumes "werr (cwriter c) = None"
  shows "cwriter (writeNull c) = (cwriter c)\<lparr>written := written (cwriter c) @ wire NullBulkV\<rparr>"
    and "cwriter (writeBulkString d c) = (cwriter c)\<lparr>written := written (cwriter c) @ wire (BulkV d)\<rparr>"
    and "cwriter (writeInteger i c) = (cwriter c)\<lparr>written := written (cwriter c) @ wire (IntegerV i)\<rparr>"
    and "cwriter (writeString m c) = (cwriter c)\<lparr>written := written (cwriter c) @ wire (SimpleV m)\<rparr>"
  using puts_ok [OF puts_WriteNullBulkString assms] puts_ok [OF puts_WriteBulkString assms] puts_ok [OF puts_WriteInteger assms]
    puts_ok [OF puts_WriteSimpleString assms]
  by (simp_all add: reply_defs send_def Flush_def)

lemma ttl_seconds: "truncate64 (Seconds (- (2 * Second))) = - 2" "truncate64 (Seconds (- Second)) = - 1"
  by code_simp+

lemma pttl_millis: "(- 2 * Millisecond) sdiv Millisecond = - 2" "(- Millisecond) sdiv Millisecond = - 1" "Millisecond = 1000000"
  by code_simp+

context storage_reads
begin

lemma dispatch_answers:
  assumes inv: "inv (storageOf c)" and st: "envStorage env = st" and loaded: "\<not> isLoading c" and ok: "werr (cwriter c) = None"
    and v: "answer (clock 0) (unexpired (clock 0) (view (storageOf c)) (stCurrentDB st (storageOf c)))
      (ToUpper (envUpper env) (cmdName cmd)) (cmdArgs cmd) = Some v"
  shows "\<exists>c'. dispatch env clock cmd c = Some c' \<and> cwriter c' = (cwriter c)\<lparr>written := written (cwriter c) @ wire v\<rparr> \<and>
    stCurrentDB st (storageOf c') = stCurrentDB st (storageOf c) \<and> cclosed c' = cclosed c"
proof -
  let ?name = "ToUpper (envUpper env) (cmdName cmd)" and ?m = "unexpired (clock 0) (view (storageOf c)) (stCurrentDB st (storageOf c))"
  let ?out = "\<lambda>h. \<exists>c'. h = Some c' \<and> cwriter c' = (cwriter c)\<lparr>written := written (cwriter c) @ wire v\<rparr> \<and>
    stCurrentDB st (storageOf c') = stCurrentDB st (storageOf c) \<and> cclosed c' = cclosed c"
  have bytes: "cwriter (putStorage s c) = cwriter c" "werr (cwriter (putStorage s c)) = None" for s using ok by simp_all
  consider "?name = ''GET''" "length (cmdArgs cmd) = 1" | "?name = ''EXISTS''" "cmdArgs cmd \<noteq> []"
    | "?name = ''PTTL''" "length (cmdArgs cmd) = 1" | "?name = ''TTL''" "length (cmdArgs cmd) = 1"
    | "?name = ''TYPE''" "length (cmdArgs cmd) = 1"
    using v by (auto simp: answer_def split: if_split_asm)
  then show ?thesis
  proof cases
    case 1
    obtain s' where "stGet st (clock 0) (cmdArgs cmd ! 0) (storageOf c) = Some (Option.bind (?m (cmdArgs cmd ! 0)) stringData, s')"
        "stCurrentDB st s' = stCurrentDB st (storageOf c)"
      using get_law [OF inv, of "clock 0" "cmdArgs cmd ! 0"] by blast
    then have "?out (handleGet env (clock 0) cmd c)"
      using 1 v loaded by (simp add: handleGet_def st answer_def reply_bytes [OF bytes(2)] bytes(1) split: option.split_asm option.split)
    with 1 show ?thesis by (simp add: dispatch_def Let_def)
  next
    case 2
    then have "?out (handleExists env (clock 0) cmd c)"
      using v by (simp add: handleExists_def st exists_law [OF inv] answer_def reply_bytes [OF ok])
    with 2 show ?thesis by (simp add: dispatch_def Let_def)
  next
    case 3
    then have "?out (handlePTTL env (clock 0) cmd c)"
      using v by (auto simp: handlePTTL_def st pttl_law [OF inv] answer_def reply_bytes [OF ok] pttl_millis split: option.splits)
    with 3 show ?thesis by (simp add: dispatch_def Let_def)
  next
    case 4
    then have "?out (handleTTL env (clock 0) cmd c)"
      using v by (auto simp: handleTTL_def st ttl_law [OF inv] answer_def reply_bytes [OF ok] ttl_seconds split: option.splits)
    with 4 show ?thesis by (simp add: dispatch_def Let_def)
  next
    case 5
    then have "?out (handleType env (clock 0) cmd c)"
      using v by (auto simp: handleType_def st type_law [OF inv] answer_def reply_bytes [OF ok] split: option.splits)
    with 5 show ?thesis by (simp add: dispatch_def Let_def)
  qed
qed

end

text \<open>
  A client that is authenticated gets, once the initial synchronisation is done, exactly the reply
  that the command means on the keys alive in the current database: the value or null for \<^verbatim>\<open>GET\<close>, the number of
  existing keys for \<^verbatim>\<open>EXISTS\<close>, \<open>- 2\<close>, \<open>- 1\<close> or the milliseconds left for \<^verbatim>\<open>PTTL\<close> and its like.
\<close>

theorem reading_commands_answered:
  assumes "store_inv H (storageOf c)" and "envStorage env = memoryStorage H ords cfg" and "authenticated c" and "\<not> isLoading c"
    and "werr (cwriter c) = None"
    and "answer (clock 0) (live (clock 0) (storageOf c) (currentDB (storageOf c))) (ToUpper (envUpper env) (cmdName cmd)) (cmdArgs cmd) = Some v"
  shows "\<exists>c'. executeClientCommand env clock cmd c = Some c' \<and>
    cwriter c' = (cwriter c)\<lparr>written := written (cwriter c) @ wire v\<rparr>"
proof -
  let ?c = "c\<lparr>csrv := (csrv c)\<lparr>commandCount := commandCount (csrv c) + 1\<rparr>\<rparr>"
  obtain c' where "dispatch env clock cmd ?c = Some c'" "cwriter c' = (cwriter ?c)\<lparr>written := written (cwriter ?c) @ wire v\<rparr>"
    using mem_reads.dispatch_answers [of H ?c env ords cfg clock cmd v] assms by (auto simp: isLoading_def live_unexpired)
  then show ?thesis using assms(3) by (simp add: executeClientCommand_def Let_def)
qed

theorem reading_commands_answered_witness:
  "\<exists>c'. executeClientCommand demoEnv (\<lambda>_. 1) \<lparr>cmdName = ''GET'', cmdArgs = [''a'']\<rparr> (demoClient [] []) = Some c' \<and>
     written (cwriter c') = ''$1'' @ CRLF @ ''1'' @ CRLF"
proof -
  have "answer 1 (live 1 demo 0) ''GET'' [''a''] = Some (BulkV ''1'')"
    by (simp add: answer_def live_def demo_contents stringData_def stored_def IsExpired_def)
  with reading_commands_answered [of "\<lambda>_. 0" "demoClient [] []" demoEnv plainOrders globalMatchingConfig "\<lambda>_. 1"
      "\<lparr>cmdName = ''GET'', cmdArgs = [''a'']\<rparr>" "BulkV ''1''"]
  show ?thesis by (auto simp: demo_inv FormatInt_def digit_def)
qed

section \<open>Panics\<close>

lemma decimal_texts: "ParseInt ''0'' = Some 0" "ParseInt ''9223372036854775807'' = Some 9223372036854775807"
  by (simp_all add: parse_magnitude_def is_digit_def digit_val_def range64_def in_int64_def int64_min_def int64_max_def)




text \<open>A number of keys so large that \<^verbatim>\<open>2+numKeys\<close> wraps around passes the guard, and the allocation of the keys panics.\<close>

theorem eval_key_count_wraps:
  "executeClientCommand demoEnv clock \<lparr>cmdName = ''EVAL'', cmdArgs = [''x'', ''9223372036854775807'']\<rparr> (demoClient [] []) = None"
proof -
  have "evalArgs ''eval'' [''x'', ''9223372036854775807''] = None"
    by (simp add: evalArgs_def decimal_texts wrap64_def makeSlice_def maxAlloc_def del: ParseInt.simps)
  then show ?thesis by (simp add: executeClientCommand_def dispatch_def handleEval_def Let_def)
qed

text \<open>The count of \<^verbatim>\<open>SCAN\<close> is used as a capacity without a bound.\<close>

theorem scan_count_stops_server:
  "executeClientCommand demoEnv clock \<lparr>cmdName = ''SCAN'', cmdArgs = [''0'', ''COUNT'', ''9223372036854775807'']\<rparr> (demoClient [] []) = None"
proof -
  have "ToUpper id ''COUNT'' \<noteq> ''MATCH''" by simp
  then have "scanOptions id [''COUNT'', ''9223372036854775807''] [] 10 = Inr ([], 9223372036854775807)"
    by (simp add: decimal_texts del: ParseInt.simps)
  moreover have "stScan (envStorage demoEnv) now 0 [] 9223372036854775807 demo = None" for now
    by (simp add: memoryStorage_def Scan_def makeSlice_def maxAlloc_def)
  ultimately show ?thesis
    by (simp add: executeClientCommand_def dispatch_def handleScan_def Let_def decimal_texts del: ParseInt.simps scanOptions.simps)
qed

text \<open>A script run by a client writes to the replica, although the replica refuses the same command sent directly.\<close>

theorem eval_writes_on_replica:
  "map_option (\<lambda>c'. live 2 (storageOf c') 0 ''k'')
     (executeClientCommand demoEnv (\<lambda>_. 1) \<lparr>cmdName = ''EVAL'', cmdArgs = [''redis.call'', ''0'']\<rparr> (demoClient [] [])) =
   Some (Some (stored 1 ''v'' None))"
proof -
  let ?st = "memoryStorage (\<lambda>_. 0) plainOrders globalMatchingConfig" and ?s = "setStep (\<lambda>_. 0) 1 ''k'' ''v'' None demo"
  have set: "stSet ?st 1 ''k'' ''v'' None demo = Some (None, ?s)"
    using Set_unlimited [OF demo_inv, of "\<lambda>_. 0" "evictOrder plainOrders" 1 "''k''" "''v''" None] by (simp add: memoryStorage_def)
  obtain r eng where "Eval demoVM ?st (\<lambda>_. 1) ''redis.call'' [] [] e demo = Some (Inr r, eng e, ?s)" for e
    by (simp add: Eval_def demoVM_def redisCall_def executeRedisCommand_def executeLuaCommand_def set case_prod_beta)
  moreover have "evalArgs ''eval'' [''redis.call'', ''0''] = Some (Inr (''redis.call'', [], []))"
    by (simp add: evalArgs_def decimal_texts wrap64_def makeSlice_def maxAlloc_def del: ParseInt.simps)
  moreover have "csrv (writeResult demoEnv r c) = csrv c" for c by (cases r) (simp_all add: writeResult_def)
  moreover have "contents ?s 0 ''k'' = Some (stored 1 ''v'' None)"
    using setStep_spec [OF demo_inv, of "\<lambda>_. 0" 1 "''k''" "''v''" None] by (simp add: upd_def)
  ultimately show ?thesis
    by (simp add: executeClientCommand_def dispatch_def handleEval_def scriptReply_def Let_def live_def stored_def IsExpired_def)
qed

text \<open>\<^verbatim>\<open>TYPE\<close> of a key that does not exist is answered with \<open>string\<close>.\<close>

theorem type_of_missing_key:
  "map_option (\<lambda>c'. written (cwriter c'))
     (executeClientCommand demoEnv (\<lambda>_. 1) \<lparr>cmdName = ''TYPE'', cmdArgs = [''nokey'']\<rparr> (demoClient [] [])) = Some (''+string'' @ CRLF)"
proof -
  have "stType (envStorage demoEnv) 1 ''nokey'' demo = Some ValueTypeString"
    using mem_reads.type_law [OF demo_inv, of "\<lambda>_. 0" plainOrders globalMatchingConfig 1 "''nokey''"]
    by (simp add: live_unexpired [symmetric] live_def demo_contents)
  moreover have "cwriter (writeString m c) = freshWriter\<lparr>written := ''+'' @ m @ CRLF\<rparr>" if "cwriter c = freshWriter" for m and c :: "memstore connection"
    using that reply_bytes(4) [of c m] by simp
  ultimately show ?thesis by (simp add: executeClientCommand_def dispatch_def handleType_def Let_def)
qed

end
