(* ===== verification/Lzf.thy ===== *)
theory Lzf
  imports Prelude
begin

text \<open>
  LZF decompression (\<^verbatim>\<open>src/replication/lzf.go\<close>). The output buffer and \<^verbatim>\<open>resultPos\<close> are kept as the list of the
  bytes written so far: the code writes at \<^verbatim>\<open>resultPos\<close> only and reads below it only. \<open>ctrl >> 5\<close> and
  \<open>ctrl & 31\<close> of a byte are its quotient and remainder by 32.

  The specification is the format itself: a compressed text is a sequence of instructions, a run of
  literal bytes or a reference back into the output.
\<close>

datatype lzferror = NotEnoughLiteral | OutputOverflow | MissingExtendedLength | MissingOffset
  | InvalidOffset | SizeMismatch int nat

text \<open>The copying loop of a back reference, byte by byte: it may read bytes it has just written.\<close>

fun copyRef :: "nat \<Rightarrow> nat \<Rightarrow> bytes \<Rightarrow> bytes" where
  "copyRef 0 offset out = out"
| "copyRef (Suc n) offset out = copyRef n offset (out @ [out ! (length out - offset)])"

text \<open>The offset byte and the copy of a back reference of the given length; \<open>hi\<close> are the upper offset bits.\<close>

definition backReference :: "nat \<Rightarrow> nat \<Rightarrow> bytes \<Rightarrow> int \<Rightarrow> bytes \<Rightarrow> lzferror + (bytes \<times> bytes)" where
  "backReference len hi input uncompressedLen out =
     (case input of
        [] \<Rightarrow> Inl MissingOffset
      | c # rest \<Rightarrow>
          (let offset = hi * 256 + byte_val c + 1 in
           if offset > length out then Inl InvalidOffset
           else if int (length out + len) > uncompressedLen then Inl OutputOverflow
           else Inr (rest, copyRef len offset out)))"

text \<open>One turn of the loop: what is left of the input and the output so far.\<close>

definition lzfStep :: "nat \<Rightarrow> bytes \<Rightarrow> int \<Rightarrow> bytes \<Rightarrow> lzferror + (bytes \<times> bytes)" where
  "lzfStep ctrl input uncompressedLen out =
     (if ctrl < 32 then
        (let literalLen = ctrl + 1 in
         if literalLen > length input then Inl NotEnoughLiteral
         else if int (length out + literalLen) > uncompressedLen then Inl OutputOverflow
         else Inr (drop literalLen input, out @ take literalLen input))
      else if ctrl div 32 = 7 then
        (case input of
           [] \<Rightarrow> Inl MissingExtendedLength
         | e # rest \<Rightarrow> backReference (7 + byte_val e + 2) (ctrl mod 32) rest uncompressedLen out)
      else backReference (ctrl div 32 + 2) (ctrl mod 32) input uncompressedLen out)"

lemma backReference_rest:
  "backReference n hi input u out = Inr (rest, out') \<Longrightarrow> length rest < length input"
  by (auto simp: backReference_def Let_def split: list.splits if_splits)

lemma lzfStep_rest: "lzfStep ctrl input u out = Inr (rest, out') \<Longrightarrow> length rest \<le> length input"
  by (auto simp: lzfStep_def Let_def split: if_splits list.splits dest!: backReference_rest)

function lzfLoop :: "bytes \<Rightarrow> int \<Rightarrow> bytes \<Rightarrow> lzferror + bytes" where
  "lzfLoop input uncompressedLen out =
     (if input \<noteq> [] \<and> int (length out) < uncompressedLen then
        (case lzfStep (byte_val (hd input)) (tl input) uncompressedLen out of
           Inl e \<Rightarrow> Inl e
         | Inr (rest, out') \<Rightarrow> lzfLoop rest uncompressedLen out')
      else if int (length out) \<noteq> uncompressedLen then Inl (SizeMismatch uncompressedLen (length out))
      else Inr out)"
  by pat_completeness auto
termination
proof (relation "measure (\<lambda>(input, u, out). length input)", simp)
  fix input :: bytes and u :: int and out rest out' and x
  assume "input \<noteq> [] \<and> int (length out) < u"
    and "lzfStep (byte_val (hd input)) (tl input) u out = Inr x" and "(rest, out') = x"
  then have "length rest \<le> length (tl input)" "input \<noteq> []"
    using lzfStep_rest [of "byte_val (hd input)" "tl input" u out rest out'] by auto
  then show "((rest, u, out'), (input, u, out)) \<in> measure (\<lambda>(input, u, out). length input)"
    by (cases input) auto
qed

declare lzfLoop.simps [simp del]

definition lzfDecompress :: "bytes \<Rightarrow> int \<Rightarrow> lzferror + bytes" where
  "lzfDecompress compressed uncompressedLen =
     (if compressed = [] then Inr [] else lzfLoop compressed uncompressedLen [])"

section \<open>The format\<close>

datatype instruction = Literal bytes | Reference nat nat

text \<open>\<open>Reference len offset\<close> copies \<open>len\<close> bytes from \<open>offset\<close> bytes back.\<close>

fun valid_instruction :: "nat \<Rightarrow> instruction \<Rightarrow> bool" where
  "valid_instruction pos (Literal bs) \<longleftrightarrow> 1 \<le> length bs \<and> length bs \<le> 32"
| "valid_instruction pos (Reference len offset) \<longleftrightarrow>
     3 \<le> len \<and> len \<le> 264 \<and> 1 \<le> offset \<and> offset \<le> 8192 \<and> offset \<le> pos"

fun encode_instruction :: "instruction \<Rightarrow> bytes" where
  "encode_instruction (Literal bs) = char_of (length bs - 1) # bs"
| "encode_instruction (Reference len offset) =
     (let o1 = offset - 1 in
      if len - 2 < 7 then [char_of ((len - 2) * 32 + o1 div 256), char_of (o1 mod 256)]
      else [char_of (7 * 32 + o1 div 256), char_of (len - 2 - 7), char_of (o1 mod 256)])"

fun execute :: "instruction \<Rightarrow> bytes \<Rightarrow> bytes" where
  "execute (Literal bs) out = out @ bs"
| "execute (Reference len offset) out = copyRef len offset out"

fun valid_instructions :: "instruction list \<Rightarrow> bytes \<Rightarrow> bool" where
  "valid_instructions [] out = True"
| "valid_instructions (i # is) out = (valid_instruction (length out) i \<and> valid_instructions is (execute i out))"

definition encode_instructions :: "instruction list \<Rightarrow> bytes" where
  "encode_instructions is = concat (map encode_instruction is)"

definition executes :: "instruction list \<Rightarrow> bytes \<Rightarrow> bytes" where
  "executes is out = fold execute is out"

lemma length_copyRef [simp]: "length (copyRef n offset out) = length out + n"
  by (induction n offset out rule: copyRef.induct) auto

lemma length_execute: "valid_instruction pos i \<Longrightarrow> length out < length (execute i out)"
  by (cases i) auto

lemma length_executes: "length out \<le> length (executes is out)"
proof (induction "is" arbitrary: out)
  case (Cons i "is")
  have "length out \<le> length (execute i out)" by (cases i) auto
  with Cons [of "execute i out"] show ?case by (simp add: executes_def)
qed (simp add: executes_def)

lemma encode_nonempty [simp]: "encode_instruction i \<noteq> []"
  by (cases i) (auto simp: Let_def)

lemma ctrl_split: "h < 32 \<Longrightarrow> (a * 32 + h) div 32 = a" "h < 32 \<Longrightarrow> (a * 32 + h) mod 32 = (h :: nat)"
  by simp_all

text \<open>One turn of the loop carries out one encoded instruction.\<close>

lemma lzfStep_encode:
  assumes "valid_instruction (length out) i" and "int (length (execute i out)) \<le> u"
  shows "lzfStep (byte_val (hd (encode_instruction i))) (tl (encode_instruction i) @ rest) u out =
    Inr (rest, execute i out)"
proof (cases i)
  case (Literal bs)
  with assms show ?thesis by (auto simp: lzfStep_def Let_def)
next
  case (Reference len offset)
  define o1 where "o1 = offset - 1"
  have o1: "offset = o1 + 1" "o1 < 8192" "Suc o1 \<le> length out" using assms(1) Reference by (auto simp: o1_def)
  then have hi: "o1 div 256 < 32" by auto
  have len: "3 \<le> len" "len \<le> 264" using assms(1) Reference by auto
  have off: "o1 div 256 * 256 + o1 mod 256 + 1 = offset" using o1(1) by simp
  have room: "int (length out + len) \<le> u" using assms(2) Reference by simp
  have ref: "backReference len (o1 div 256) (char_of (o1 mod 256) # rest) u out = Inr (rest, copyRef len offset out)"
    using off o1(3) room by (auto simp: backReference_def Let_def)
  show ?thesis
  proof (cases "len - 2 < 7")
    case True
    define c where "c = (len - 2) * 32 + o1 div 256"
    have c: "c < 256" "\<not> c < 32" "c div 32 = len - 2" "c mod 32 = o1 div 256"
      using True len hi by (auto simp: c_def)
    have enc: "encode_instruction i = [char_of c, char_of (o1 mod 256)]"
      using Reference True by (simp add: o1_def c_def Let_def)
    have "c div 32 + 2 = len" "c div 32 \<noteq> 7" using c(3) len True by auto
    with ref c show ?thesis unfolding enc unfolding Reference by (simp add: lzfStep_def)
  next
    case False
    define c where "c = 7 * 32 + o1 div 256"
    have c: "c < 256" "\<not> c < 32" "c div 32 = 7" "c mod 32 = o1 div 256"
      using hi ctrl_split(1) [OF hi, of 7] ctrl_split(2) [OF hi, of 7] unfolding c_def by (linarith, linarith, simp_all only:)
    have enc: "encode_instruction i = [char_of c, char_of (len - 2 - 7), char_of (o1 mod 256)]"
      using Reference False by (simp add: o1_def c_def Let_def)
    have "Suc (Suc (len - 2)) = len" "7 + (len - 2 - 7) = len - 2" "len - 2 - 7 < 256" using len False by auto
    with ref c show ?thesis unfolding enc unfolding Reference by (simp add: lzfStep_def)
  qed
qed

lemma lzfLoop_encode:
  "valid_instructions is out \<Longrightarrow> u = int (length (executes is out)) \<Longrightarrow>
     lzfLoop (encode_instructions is) u out = Inr (executes is out)"
proof (induction "is" arbitrary: out)
  case Nil
  then show ?case by (simp add: lzfLoop.simps encode_instructions_def executes_def)
next
  case (Cons i "is")
  let ?out = "execute i out" and ?enc = "encode_instruction i"
  have valid: "valid_instruction (length out) i" "valid_instructions is ?out" using Cons.prems by auto
  have u: "u = int (length (executes is ?out))" using Cons.prems by (simp add: executes_def)
  then have room: "int (length ?out) \<le> u" using length_executes [of ?out "is"] by simp
  have more: "int (length out) < u" using room length_execute [OF valid(1), of out] by simp
  have split: "encode_instructions (i # is) = hd ?enc # (tl ?enc @ encode_instructions is)"
    by (cases ?enc) (auto simp: encode_instructions_def)
  show ?case
    using lzfStep_encode [OF valid(1) room, of "encode_instructions is"] more Cons.IH [OF valid(2) u]
    by (subst lzfLoop.simps) (simp add: split executes_def)
qed

text \<open>
  Claim C16: decompression inverts the format: for every non-empty sequence of well-formed instructions
  (literal runs of 1 to 32 bytes, references of 3 to 264 bytes up to 8192 bytes back into the output, also
  overlapping ones) \<^verbatim>\<open>lzfDecompress\<close> applied to their encoding and the size of the text yields the text.
\<close>

theorem lzfDecompress_correct:
  assumes "valid_instructions is []" and "is \<noteq> []"
  shows "lzfDecompress (encode_instructions is) (int (length (executes is []))) = Inr (executes is [])"
proof -
  have "encode_instructions is \<noteq> []" using assms(2) by (cases "is") (auto simp: encode_instructions_def)
  with lzfLoop_encode [OF assms(1) refl] show ?thesis by (simp add: lzfDecompress_def)
qed

theorem lzfDecompress_correct_witness:
  "lzfDecompress (encode_instructions [Literal ''ab'', Reference 6 2]) 8 = Inr ''abababab''"
  using lzfDecompress_correct [of "[Literal ''ab'', Reference 6 2]"]
  by (simp add: executes_def eval_nat_numeral nth_append)

text \<open>Whatever the input, a successful run has written exactly the announced number of bytes.\<close>

lemma lzfLoop_length: "lzfLoop input u out = Inr res \<Longrightarrow> int (length res) = u"
proof (induction input u out rule: lzfLoop.induct)
  case (1 input u out)
  show ?case
  proof (cases "input \<noteq> [] \<and> int (length out) < u")
    case True
    with "1.prems" obtain rest out' where
      "lzfStep (byte_val (hd input)) (tl input) u out = Inr (rest, out')" "lzfLoop rest u out' = Inr res"
      by (subst (asm) lzfLoop.simps) (auto split: sum.splits)
    with True "1.IH" show ?thesis by blast
  next
    case False
    with "1.prems" show ?thesis by (subst (asm) lzfLoop.simps) (auto split: if_splits)
  qed
qed

text \<open>
  On arbitrary input \<^verbatim>\<open>lzfDecompress\<close> ends, and when it succeeds on a non-empty input the result has
  exactly the announced length; malformed input is reported as an error, never read or written out of
  bounds.
\<close>

theorem lzfDecompress_length:
  assumes "lzfDecompress compressed u = Inr res" and "compressed \<noteq> []"
  shows "int (length res) = u"
  using assms lzfLoop_length [of compressed u "[]" res] by (simp add: lzfDecompress_def)

theorem lzfDecompress_length_witness:
  "lzfDecompress [CHR 0x01, CHR ''h'', CHR ''i''] 2 = Inr ''hi'' \<and> int (length ''hi'') = 2"
proof
  show run: "lzfDecompress [CHR 0x01, CHR ''h'', CHR ''i''] 2 = Inr ''hi''" by code_simp
  show "int (length ''hi'') = 2" using lzfDecompress_length [OF run] by simp
qed

end
