(* ===== verification/Rdb_Parser.thy ===== *)
theory Rdb_Parser
  imports Resp_Stream Lzf
begin

text \<open>
  The streaming RDB parser (\<^verbatim>\<open>src/replication/rdb.go\<close>). A parser is its buffered reader, the strategy chosen
  from the version and the count of errors so far. A reading method returns its result or error with the
  parser it leaves, because the loop of \<^verbatim>\<open>Parse\<close> goes on after errors the strategy lets it skip. The handler is
  an interface of the program: a record of functions on a handler state, each returning an error text
  or none.

  Bytes are read as numbers: \<open>(b & 0xC0) >> 6\<close> and \<open>b & 0x3F\<close> are quotient and remainder by 64.
\<close>

section \<open>State, strategies, errors\<close>

record VersionStrategy =
  version :: int
  supportsBinaryAux :: bool
  requiresStrictParsing :: bool
  maxSkippableErrors :: int

definition MaxSupportedRDBVersion :: int where "MaxSupportedRDBVersion = 12"

definition versionStrategies :: "int \<Rightarrow> VersionStrategy option" where
  "versionStrategies =
     [9 \<mapsto> \<lparr>version = 9, supportsBinaryAux = False, requiresStrictParsing = True, maxSkippableErrors = 0\<rparr>,
      10 \<mapsto> \<lparr>version = 10, supportsBinaryAux = True, requiresStrictParsing = True, maxSkippableErrors = 1\<rparr>,
      11 \<mapsto> \<lparr>version = 11, supportsBinaryAux = True, requiresStrictParsing = False, maxSkippableErrors = 2\<rparr>,
      12 \<mapsto> \<lparr>version = 12, supportsBinaryAux = True, requiresStrictParsing = False, maxSkippableErrors = 3\<rparr>]"

datatype rdberror =
    RdbIO ioerror
  | InvalidMagic bytes
  | InvalidVersion bytes
  | UnsupportedVersion int
  | InvalidSpecialLength nat
  | UnsupportedStringEncoding nat
  | StringTooLarge nat
  | LzfError lzferror
  | UnsupportedRDBType nat
  | HandlerError string
  | Wrapped string rdberror

record RDBParser =
  br :: reader
  pstrategy :: VersionStrategy
  errors :: int

type_synonym 'a rd = "RDBParser \<Rightarrow> (rdberror + 'a) \<times> RDBParser"

definition rbind :: "'a rd \<Rightarrow> ('a \<Rightarrow> 'b rd) \<Rightarrow> 'b rd" where
  "rbind m f p = (case m p of (Inl e, p') \<Rightarrow> (Inl e, p') | (Inr x, p') \<Rightarrow> f x p')"

definition rreturn :: "'a \<Rightarrow> 'a rd" where "rreturn x p = (Inr x, p)"

definition rfail :: "rdberror \<Rightarrow> 'a rd" where "rfail e p = (Inl e, p)"

text \<open>\<^verbatim>\<open>fmt.Errorf("...: %w", err)\<close>.\<close>

definition wrap :: "string \<Rightarrow> 'a rd \<Rightarrow> 'a rd" where
  "wrap msg m p = (case m p of (Inl e, p') \<Rightarrow> (Inl (Wrapped msg e), p') | (Inr x, p') \<Rightarrow> (Inr x, p'))"

definition canSkipError :: "RDBParser \<Rightarrow> bool \<times> RDBParser" where
  "canSkipError p = (errors p + 1 \<le> maxSkippableErrors (pstrategy p), p\<lparr>errors := errors p + 1\<rparr>)"

text \<open>A failure that the strategy may let pass, with \<open>x\<close> in place of the result.\<close>

definition skipOr :: "'a \<Rightarrow> rdberror \<Rightarrow> 'a rd" where
  "skipOr x e p = (case canSkipError p of (skip, p') \<Rightarrow> (if skip then Inr x else Inl e, p'))"

section \<open>Bytes and integers\<close>

definition readByte :: "nat rd" where
  "readByte p = (case ReadByte (br p) of (res, r) \<Rightarrow>
     (case res of Inl e \<Rightarrow> Inl (RdbIO e) | Inr c \<Rightarrow> Inr (byte_val c), p\<lparr>br := r\<rparr>))"

definition readFull :: "nat \<Rightarrow> bytes rd" where
  "readFull n p = (case ReadFull n (br p) of (res, r) \<Rightarrow>
     (case res of Inl (_, e) \<Rightarrow> Inl (RdbIO e) | Inr bs \<Rightarrow> Inr bs, p\<lparr>br := r\<rparr>))"

fun bigEndian :: "bytes \<Rightarrow> nat \<Rightarrow> nat" where
  "bigEndian [] acc = acc"
| "bigEndian (c # cs) acc = bigEndian cs (acc * 256 + byte_val c)"

definition littleEndian :: "bytes \<Rightarrow> nat" where
  "littleEndian bs = bigEndian (rev bs) 0"

definition readUintBE :: "nat \<Rightarrow> nat rd" where
  "readUintBE n = rbind (readFull n) (\<lambda>bs. rreturn (bigEndian bs 0))"

definition readUintLE :: "nat \<Rightarrow> nat rd" where
  "readUintLE n = rbind (readFull n) (\<lambda>bs. rreturn (littleEndian bs))"

definition readLength :: "nat rd" where
  "readLength = rbind readByte (\<lambda>b.
     if b div 64 = 0 then rreturn (b mod 64)
     else if b div 64 = 1 then rbind readByte (\<lambda>b2. rreturn (b mod 64 * 256 + b2))
     else if b div 64 = 2 then readUintBE 4
     else if b mod 64 = 0 then readByte
     else if b mod 64 = 1 then readUintLE 2
     else if b mod 64 = 2 then readUintLE 4
     else rfail (InvalidSpecialLength (b mod 64)))"

section \<open>Strings\<close>

definition readStringData :: "nat \<Rightarrow> bytes rd" where
  "readStringData len =
     (if len = 0 then rreturn []
      else if len > 100000 then rfail (StringTooLarge len)
      else wrap ''failed to read string data'' (readFull len))"

definition readLZFString :: "bytes rd" where
  "readLZFString =
     rbind (wrap ''failed to read LZF compressed length'' readLength) (\<lambda>compressedLen.
     rbind (wrap ''failed to read LZF uncompressed length'' readLength) (\<lambda>uncompressedLen.
     rbind (wrap ''failed to read LZF compressed data'' (readFull compressedLen)) (\<lambda>compressedData.
     case lzfDecompress compressedData (int uncompressedLen) of
       Inr decompressed \<Rightarrow> rreturn decompressed
     | Inl e \<Rightarrow> skipOr (''LZF_DECOMPRESSION_FAILED_'' @ show_nat uncompressedLen @ ''_BYTES'')
                  (Wrapped ''LZF decompression failed'' (LzfError e)))))"

text \<open>The 32-bit integer encoding is signed, the shorter ones are not.\<close>

definition signed32 :: "nat \<Rightarrow> int" where
  "signed32 n = (if n < 2 ^ 31 then int n else int n - 2 ^ 32)"

definition readString :: "bytes rd" where
  "readString = rbind readByte (\<lambda>b.
     if b div 64 = 0 then readStringData (b mod 64)
     else if b div 64 = 1 then rbind readByte (\<lambda>b2. readStringData (b mod 64 * 256 + b2))
     else if b div 64 = 2 then rbind (readUintBE 4) readStringData
     else if b mod 64 = 0 then rbind readByte (\<lambda>v. rreturn (show_nat v))
     else if b mod 64 = 1 then rbind (readUintLE 2) (\<lambda>v. rreturn (show_nat v))
     else if b mod 64 = 2 then rbind (readUintLE 4) (\<lambda>v. rreturn (FormatInt (signed32 v)))
     else if b mod 64 = 3 then readLZFString
     else skipOr [] (UnsupportedStringEncoding (b mod 64)))"

definition readBinaryString :: "bytes rd" where
  "readBinaryString = readString"

section \<open>Values\<close>

text \<open>Go maps built here are association lists; a repeated field keeps the last value.\<close>

datatype rvalue = RString bytes | RList "bytes list" | RSet "string list" | RHash "(string \<times> bytes) list"

fun readStrings :: "nat \<Rightarrow> bytes list rd" where
  "readStrings 0 = rreturn []"
| "readStrings (Suc n) = rbind readString (\<lambda>x. rbind (readStrings n) (\<lambda>xs. rreturn (x # xs)))"

fun readSet :: "nat \<Rightarrow> string list \<Rightarrow> string list rd" where
  "readSet 0 acc = rreturn acc"
| "readSet (Suc n) acc = rbind readString (\<lambda>member. readSet n (if member \<in> set acc then acc else acc @ [member]))"

fun readHash :: "nat \<Rightarrow> (string \<times> bytes) list \<Rightarrow> (string \<times> bytes) list rd" where
  "readHash 0 hash = rreturn hash"
| "readHash (Suc n) hash = rbind readString (\<lambda>field. rbind readString (\<lambda>value.
     readHash n (filter (\<lambda>(f, _). f \<noteq> field) hash @ [(field, value)])))"

text \<open>A list or stream node whose reading fails is skipped if the strategy allows.\<close>

fun readQuicklistNodes :: "nat \<Rightarrow> bytes list \<Rightarrow> bytes list rd" where
  "readQuicklistNodes 0 acc = rreturn acc"
| "readQuicklistNodes (Suc n) acc = (\<lambda>p. case readString p of
     (Inr ziplistData, p') \<Rightarrow> readQuicklistNodes n (acc @ [ziplistData]) p'
   | (Inl e, p') \<Rightarrow> rbind (skipOr () e) (\<lambda>_. readQuicklistNodes n acc) p')"

definition readQuicklist :: "rvalue option rd" where
  "readQuicklist = rbind readLength (\<lambda>len. rbind (readQuicklistNodes len []) (\<lambda>xs. rreturn (Some (RList xs))))"

fun skipStrings :: "nat \<Rightarrow> unit rd" where
  "skipStrings 0 = rreturn ()"
| "skipStrings (Suc n) = (\<lambda>p. case readString p of
     (Inr _, p') \<Rightarrow> skipStrings n p'
   | (Inl e, p') \<Rightarrow> rbind (skipOr () e) (\<lambda>_. skipStrings n) p')"

definition skipStreamData :: "rvalue option rd" where
  "skipStreamData = rbind readLength (\<lambda>len. rbind (skipStrings len) (\<lambda>_. rreturn None))"

text \<open>Run \<open>m\<close>; on failure report the wrapped error unless it can be skipped.\<close>

definition orSkip :: "string \<Rightarrow> 'a rd \<Rightarrow> ('a \<Rightarrow> rvalue option rd) \<Rightarrow> rvalue option rd" where
  "orSkip msg m f p = (case m p of (Inl e, p') \<Rightarrow> skipOr None (Wrapped msg e) p' | (Inr x, p') \<Rightarrow> f x p')"

definition skipUnsupportedType :: "nat \<Rightarrow> rvalue option rd" where
  "skipUnsupportedType valueType =
     (if valueType < 16 then
        orSkip ''failed to skip unsupported RDB type'' readString (\<lambda>_. rreturn None)
      else if valueType < 32 then
        orSkip ''failed to read length for unsupported type'' readLength (\<lambda>len.
        orSkip ''failed to skip data for type'' (readFull len) (\<lambda>_. rreturn None))
      else (\<lambda>p. case canSkipError p of (skip, p') \<Rightarrow>
        (if skip then (Inr None, p')
         else if requiresStrictParsing (pstrategy p') then (Inl (UnsupportedRDBType valueType), p')
         else (Inr None, p'))))"

definition readValue :: "nat \<Rightarrow> rvalue option rd" where
  "readValue valueType =
     (if valueType = 0 then rbind readString (\<lambda>s. rreturn (Some (RString s)))
      else if valueType = 1 then
        rbind readLength (\<lambda>len. rbind (readStrings len) (\<lambda>xs. rreturn (Some (RList xs))))
      else if valueType = 2 then
        rbind readLength (\<lambda>len. rbind (readSet len []) (\<lambda>xs. rreturn (Some (RSet xs))))
      else if valueType = 4 then
        rbind readLength (\<lambda>len. rbind (readHash len []) (\<lambda>xs. rreturn (Some (RHash xs))))
      else if valueType = 14 then readQuicklist
      else if valueType \<in> {15, 19, 20} then skipStreamData
      else skipUnsupportedType valueType)"

section \<open>What a reading method leaves\<close>

text \<open>The rest of the stream, the same strategy, and no fewer errors.\<close>

definition later :: "RDBParser \<Rightarrow> RDBParser \<Rightarrow> bool" where
  "later p' p \<longleftrightarrow> rest_of (br p') (br p) \<and> pstrategy p' = pstrategy p \<and> errors p \<le> errors p'"

lemma later_refl [simp]: "later p p"
  by (simp add: later_def)

lemma later_trans: "later p2 p1 \<Longrightarrow> later p1 p0 \<Longrightarrow> later p2 p0"
  by (auto simp: later_def intro: rest_of_trans)

locale parser_op =
  fixes m :: "'a rd"
  assumes onward: "later (snd (m p)) p"
begin

lemma leaves: "m p = (x, p') \<Longrightarrow> later p' p"
  using onward [of p] by simp

lemma leaves_length: "m p = (x, p') \<Longrightarrow> length (pending (br p')) \<le> length (pending (br p))"
  by (drule leaves) (simp add: later_def rest_of_length)

end

lemma op_rbind: "parser_op m \<Longrightarrow> (\<And>x. parser_op (f x)) \<Longrightarrow> parser_op (rbind m f)"
proof
  fix p
  assume m: "parser_op m" and f: "\<And>x. parser_op (f x)"
  obtain r p1 where 1: "m p = (r, p1)" by (cases "m p")
  with m have l: "later p1 p" by (rule parser_op.leaves)
  show "later (snd (rbind m f p)) p"
  proof (cases r)
    case (Inr x)
    have "later (snd (f x p1)) p1" using f by (rule parser_op.onward)
    with l 1 Inr show ?thesis by (auto simp: rbind_def intro: later_trans)
  qed (use l 1 in \<open>simp add: rbind_def\<close>)
qed

lemma op_rreturn: "parser_op (rreturn x)"
  by unfold_locales (simp add: rreturn_def)

lemma op_rfail: "parser_op (rfail e)"
  by unfold_locales (simp add: rfail_def)

lemma op_wrap: "parser_op m \<Longrightarrow> parser_op (wrap msg m)"
proof
  fix p
  assume "parser_op m"
  then have "later (snd (m p)) p" by (rule parser_op.onward)
  then show "later (snd (wrap msg m p)) p" by (auto simp: wrap_def split: prod.split sum.split)
qed

lemma op_skipOr: "parser_op (skipOr x e)"
  by unfold_locales (simp add: skipOr_def canSkipError_def later_def)

lemma op_if: "parser_op m \<Longrightarrow> parser_op n \<Longrightarrow> parser_op (if b then m else n)"
  by simp

interpretation readByte: parser_op readByte
proof
  show "later (snd (readByte p)) p" for p
    using ReadByte.rest [of "br p"] by (simp add: readByte_def later_def split_def)
qed

interpretation readFull: parser_op "readFull n" for n
proof
  show "later (snd (readFull n p)) p" for p
    using ReadFull.rest [of n "br p"] by (simp add: readFull_def later_def split_def)
qed

lemmas op_basic = op_rbind op_rreturn op_rfail op_wrap op_skipOr op_if
  readByte.parser_op_axioms readFull.parser_op_axioms

lemma op_readUint: "parser_op (readUintBE n)" "parser_op (readUintLE n)"
  unfolding readUintBE_def readUintLE_def by (intro op_basic)+

interpretation readLength: parser_op readLength
  unfolding readLength_def by (intro op_basic op_readUint)

lemma op_readStringData: "parser_op (readStringData n)"
  unfolding readStringData_def by (intro op_basic)

lemma op_readLZFString: "parser_op readLZFString"
  unfolding readLZFString_def
  by (intro op_basic readLength.parser_op_axioms) (auto split: sum.split intro: op_basic)

interpretation readString: parser_op readString
  unfolding readString_def by (intro op_basic op_readUint op_readStringData op_readLZFString)

lemmas op_reads = op_basic op_readUint readLength.parser_op_axioms readString.parser_op_axioms

lemma op_readStrings: "parser_op (readStrings n)"
  by (induction n) (simp_all add: op_reads)

lemma op_readSet: "parser_op (readSet n acc)"
  by (induction n arbitrary: acc) (simp_all add: op_reads)

lemma op_readHash: "parser_op (readHash n acc)"
  by (induction n arbitrary: acc) (simp_all add: op_reads)

lemma op_case: "parser_op m \<Longrightarrow> (\<And>x. parser_op (f x)) \<Longrightarrow> (\<And>e. parser_op (g e)) \<Longrightarrow>
    parser_op (\<lambda>p. case m p of (Inr x, p') \<Rightarrow> f x p' | (Inl e, p') \<Rightarrow> g e p')"
proof
  fix p
  assume m: "parser_op m" and f: "\<And>x. parser_op (f x)" and g: "\<And>e. parser_op (g e)"
  obtain r p1 where 1: "m p = (r, p1)" by (cases "m p")
  with m have l: "later p1 p" by (rule parser_op.leaves)
  show "later (snd (case m p of (Inr x, p') \<Rightarrow> f x p' | (Inl e, p') \<Rightarrow> g e p')) p"
    using 1 l later_trans [OF parser_op.onward [OF f] l] later_trans [OF parser_op.onward [OF g] l]
    by (cases r) auto
qed

lemma op_readQuicklistNodes: "parser_op (readQuicklistNodes n acc)"
proof (induction n arbitrary: acc)
  case (Suc n)
  show ?case unfolding readQuicklistNodes.simps by (intro op_case op_reads Suc)
qed (simp add: op_reads)

lemma op_skipStrings: "parser_op (skipStrings n)"
proof (induction n)
  case (Suc n)
  show ?case unfolding skipStrings.simps by (intro op_case op_reads Suc)
qed (simp add: op_reads)

lemma op_orSkip: "parser_op m \<Longrightarrow> (\<And>x. parser_op (f x)) \<Longrightarrow> parser_op (orSkip msg m f)"
  unfolding orSkip_def [abs_def] by (rule op_case) (simp_all add: op_skipOr)

lemma op_skipUnsupportedType: "parser_op (skipUnsupportedType t)"
proof -
  have "parser_op (\<lambda>p. case canSkipError p of (skip, p') \<Rightarrow>
      (if skip then (Inr None, p')
       else if requiresStrictParsing (pstrategy p') then (Inl (UnsupportedRDBType t), p') else (Inr None, p')))"
    by unfold_locales (simp add: canSkipError_def later_def)
  then show ?thesis unfolding skipUnsupportedType_def by (intro op_orSkip op_reads)
qed

interpretation readValue: parser_op "readValue t" for t
  unfolding readValue_def readQuicklist_def skipStreamData_def
  by (intro op_reads op_readStrings op_readSet op_readHash op_readQuicklistNodes op_skipStrings op_skipUnsupportedType)

end
