(* ===== verification/Rdb_Parse.thy ===== *)
theory Rdb_Parse
  imports Rdb_Parser
begin

text \<open>
  The main loop of the RDB parser: opcodes, expiry times, auxiliary fields and key-value pairs, each
  handed to the handler (\<^verbatim>\<open>Parse\<close>, \<^verbatim>\<open>readAuxField\<close>, \<^verbatim>\<open>readKeyValue\<close> in \<^verbatim>\<open>src/replication/rdb.go\<close>). Times are
  nanoseconds since the epoch.
\<close>

record 'h RDBHandler =
  OnDatabase :: "int \<Rightarrow> 'h \<Rightarrow> string option \<times> 'h"
  OnKey :: "bytes \<Rightarrow> rvalue \<Rightarrow> int option \<Rightarrow> 'h \<Rightarrow> string option \<times> 'h"
  OnAux :: "bytes \<Rightarrow> bytes \<Rightarrow> 'h \<Rightarrow> string option \<times> 'h"
  OnEnd :: "'h \<Rightarrow> string option \<times> 'h"
  OnResizeDB :: "(nat \<Rightarrow> nat \<Rightarrow> 'h \<Rightarrow> string option \<times> 'h) option"

definition readAuxField :: "'h RDBHandler \<Rightarrow> 'h \<Rightarrow> RDBParser \<Rightarrow> rdberror option \<times> 'h \<times> RDBParser" where
  "readAuxField hnd h p =
     (case rbind (wrap ''failed to read aux key'' readString) (\<lambda>key.
           rbind (wrap (''failed to read aux value for key '' @ key)
             (if supportsBinaryAux (pstrategy p) then readBinaryString else readString)) (\<lambda>value.
           rreturn (key, value))) p of
        (Inl e, p') \<Rightarrow> (Some e, h, p')
      | (Inr (key, value), p') \<Rightarrow>
          (case OnAux hnd key value h of (err, h') \<Rightarrow> (map_option HandlerError err, h', p')))"

definition readKeyValue ::
  "'h RDBHandler \<Rightarrow> nat \<Rightarrow> int option \<Rightarrow> 'h \<Rightarrow> RDBParser \<Rightarrow> rdberror option \<times> 'h \<times> RDBParser"
where
  "readKeyValue hnd valueType expiry h p =
     (case rbind (wrap ''failed to read key'' readString) (\<lambda>key.
           rbind (wrap (''failed to read value for key '' @ key) (readValue valueType)) (\<lambda>value.
           rreturn (key, value))) p of
        (Inl e, p') \<Rightarrow> (Some e, h, p')
      | (Inr (key, None), p') \<Rightarrow> (None, h, p')
      | (Inr (key, Some value), p') \<Rightarrow>
          (case OnKey hnd key value expiry h of (err, h') \<Rightarrow> (map_option HandlerError err, h', p')))"

text \<open>How a turn of the loop ends: with a return of \<^verbatim>\<open>Parse\<close>, or going on with this expiry.\<close>

datatype outcome = Return "rdberror option" | Continue "int option"

definition tolerate :: "rdberror \<Rightarrow> int option \<Rightarrow> RDBParser \<Rightarrow> outcome \<times> RDBParser" where
  "tolerate e expiry p = (case canSkipError p of (skip, p') \<Rightarrow>
     (if skip then Continue expiry else Return (Some e), p'))"

text \<open>The length arguments of a size hint: an error that is skipped leaves the value 0.\<close>

definition readHint :: "RDBParser \<Rightarrow> (rdberror + nat) \<times> RDBParser" where
  "readHint p = (case readLength p of
     (Inr n, p') \<Rightarrow> (Inr n, p')
   | (Inl e, p') \<Rightarrow> skipOr 0 e p')"

definition handled :: "string option \<times> 'h \<Rightarrow> int option \<Rightarrow> RDBParser \<Rightarrow> outcome \<times> 'h \<times> RDBParser" where
  "handled r expiry p = (case r of
     (Some err, h') \<Rightarrow> (Return (Some (HandlerError err)), h', p)
   | (None, h') \<Rightarrow> (Continue expiry, h', p))"

definition parseStep ::
  "'h RDBHandler \<Rightarrow> nat \<Rightarrow> int option \<Rightarrow> 'h \<Rightarrow> RDBParser \<Rightarrow> outcome \<times> 'h \<times> RDBParser"
where
  "parseStep hnd opcode expiry h p =
     (if opcode = 254 then
        (case readLength p of
           (Inl e, p') \<Rightarrow> (case tolerate (Wrapped ''failed to read database number'' e) expiry p' of (out, p'') \<Rightarrow> (out, h, p''))
         | (Inr db, p') \<Rightarrow> handled (OnDatabase hnd (int db) h) expiry p')
      else if opcode = 253 then
        (case readUintLE 4 p of
           (Inl e, p') \<Rightarrow> (case tolerate (Wrapped ''failed to read expiry timestamp'' e) None p' of (out, p'') \<Rightarrow> (out, h, p''))
         | (Inr timestamp, p') \<Rightarrow> (Continue (Some (int timestamp * 1000000000)), h, p'))
      else if opcode = 252 then
        (case readUintLE 8 p of
           (Inl e, p') \<Rightarrow> (case tolerate (Wrapped ''failed to read expiry timestamp'' e) None p' of (out, p'') \<Rightarrow> (out, h, p''))
         | (Inr timestamp, p') \<Rightarrow>
             (Continue (Some (int (timestamp div 1000) * 1000000000 + int (timestamp mod 1000) * 1000000)), h, p'))
      else if opcode = 251 then
        (case readHint p of
           (Inl e, p') \<Rightarrow> (Return (Some e), h, p')
         | (Inr dbSize, p') \<Rightarrow>
             (case readHint p' of
                (Inl e, p'') \<Rightarrow> (Return (Some e), h, p'')
              | (Inr expiresSize, p'') \<Rightarrow>
                  (case OnResizeDB hnd of
                     None \<Rightarrow> (Continue expiry, h, p'')
                   | Some resize \<Rightarrow> handled (resize dbSize expiresSize h) expiry p'')))
      else if opcode = 250 then
        (case readAuxField hnd h p of
           (None, h', p') \<Rightarrow> (Continue expiry, h', p')
         | (Some e, h', p') \<Rightarrow>
             (case tolerate (Wrapped ''failed to read aux field'' e) expiry p' of (out, p'') \<Rightarrow> (out, h', p'')))
      else
        (case readKeyValue hnd opcode expiry h p of
           (None, h', p') \<Rightarrow> (Continue None, h', p')
         | (Some e, h', p') \<Rightarrow> (case tolerate e None p' of (out, p'') \<Rightarrow> (out, h', p''))))"

definition finish :: "'h RDBHandler \<Rightarrow> 'h \<Rightarrow> RDBParser \<Rightarrow> rdberror option \<times> 'h \<times> RDBParser" where
  "finish hnd h p = (case OnEnd hnd h of (err, h') \<Rightarrow> (map_option HandlerError err, h', p))"

section \<open>Every turn makes progress\<close>

lemma later_errors: "later p' p \<Longrightarrow> errors p \<le> errors p'"
  by (simp add: later_def)

lemma later_canSkip: "later (snd (canSkipError p)) p"
  by (simp add: canSkipError_def later_def)

lemma later_tolerate: "tolerate e x p = (out, p') \<Longrightarrow> later p' p"
  by (auto simp: tolerate_def canSkipError_def later_def)

lemma later_readHint: "readHint p = (r, p') \<Longrightarrow> later p' p"
proof -
  assume eq: "readHint p = (r, p')"
  obtain r1 p1 where 1: "readLength p = (r1, p1)" by (cases "readLength p")
  then have "later p1 p" by (rule readLength.leaves)
  with eq 1 show ?thesis
    by (cases r1) (auto simp: readHint_def skipOr_def canSkipError_def later_def)
qed

lemma later_readAuxField: "readAuxField hnd h p = (e, h', p') \<Longrightarrow> later p' p"
proof -
  assume eq: "readAuxField hnd h p = (e, h', p')"
  let ?m = "rbind (wrap ''failed to read aux key'' readString) (\<lambda>key.
      rbind (wrap (''failed to read aux value for key '' @ key)
        (if supportsBinaryAux (pstrategy p) then readBinaryString else readString)) (\<lambda>value. rreturn (key, value)))"
  have "parser_op ?m" unfolding readBinaryString_def by (intro op_reads)
  then have "later (snd (?m p)) p" by (rule parser_op.onward)
  with eq show ?thesis
    by (auto simp: readAuxField_def split: prod.splits sum.splits)
qed

lemma later_readKeyValue: "readKeyValue hnd t x h p = (e, h', p') \<Longrightarrow> later p' p"
proof -
  assume eq: "readKeyValue hnd t x h p = (e, h', p')"
  let ?m = "rbind (wrap ''failed to read key'' readString) (\<lambda>key.
      rbind (wrap (''failed to read value for key '' @ key) (readValue t)) (\<lambda>value. rreturn (key, value)))"
  have "parser_op ?m" by (intro op_reads readValue.parser_op_axioms)
  then have "later (snd (?m p)) p" by (rule parser_op.onward)
  with eq show ?thesis
    by (auto simp: readKeyValue_def split: prod.splits sum.splits option.splits)
qed

lemma later_parseStep:
  assumes "parseStep hnd opcode x h p = (out, h', p')"
  shows "later p' p"
proof -
  consider (db) "opcode = 254" | (sec) "opcode = 253" | (ms) "opcode = 252" | (resize) "opcode = 251"
    | (aux) "opcode = 250" | (key) "opcode \<notin> {250, 251, 252, 253, 254}" by auto
  then show ?thesis
  proof cases
    case db
    obtain r p1 where 1: "readLength p = (r, p1)" by (cases "readLength p")
    with assms db readLength.leaves [OF 1] show ?thesis
      by (cases r) (auto simp: parseStep_def handled_def split: prod.splits option.splits
          dest!: later_tolerate intro: later_trans)
  next
    case sec
    obtain r p1 where 1: "readUintLE 4 p = (r, p1)" by (cases "readUintLE 4 p")
    with assms sec parser_op.leaves [OF op_readUint(2) 1] show ?thesis
      by (cases r) (auto simp: parseStep_def split: prod.splits dest!: later_tolerate intro: later_trans)
  next
    case ms
    obtain r p1 where 1: "readUintLE 8 p = (r, p1)" by (cases "readUintLE 8 p")
    with assms ms parser_op.leaves [OF op_readUint(2) 1] show ?thesis
      by (cases r) (auto simp: parseStep_def split: prod.splits dest!: later_tolerate intro: later_trans)
  next
    case resize
    obtain r p1 where 1: "readHint p = (r, p1)" by (cases "readHint p")
    obtain r2 p2 where 2: "readHint p1 = (r2, p2)" by (cases "readHint p1")
    with 1 assms resize later_readHint [OF 1] later_trans [OF later_readHint [OF 2] later_readHint [OF 1]]
    show ?thesis
      by (cases r; cases r2) (auto simp: parseStep_def handled_def split: prod.splits option.splits)
  next
    case aux
    obtain e h1 p1 where 1: "readAuxField hnd h p = (e, h1, p1)" by (cases "readAuxField hnd h p")
    with assms aux later_readAuxField [OF 1] show ?thesis
      by (cases e) (auto simp: parseStep_def split: prod.splits dest!: later_tolerate intro: later_trans)
  next
    case key
    obtain e h1 p1 where 1: "readKeyValue hnd opcode x h p = (e, h1, p1)" by (cases "readKeyValue hnd opcode x h p")
    with assms key later_readKeyValue [OF 1] show ?thesis
      by (cases e) (auto simp: parseStep_def split: prod.splits dest!: later_tolerate intro: later_trans)
  qed
qed

section \<open>The loop\<close>

text \<open>
  The loop ends: a turn takes a byte off the stream, or the stream failed with an error other than the
  end of file and the count of skipped errors goes up to its limit.
\<close>

definition parseFuel :: "RDBParser \<Rightarrow> nat" where
  "parseFuel p = length (pending (br p)) + nat (maxSkippableErrors (pstrategy p) + 1 - errors p)"

function parseLoop :: "'h RDBHandler \<Rightarrow> int option \<Rightarrow> 'h \<Rightarrow> RDBParser \<Rightarrow> rdberror option \<times> 'h \<times> RDBParser" where
  "parseLoop hnd expiry h p =
     (case ReadByte (br p) of
        (Inl e, r) \<Rightarrow>
          (if e = EOF then finish hnd h (p\<lparr>br := r\<rparr>)
           else (case tolerate (Wrapped ''failed to read opcode'' (RdbIO e)) expiry (p\<lparr>br := r\<rparr>) of
               (Return err, p') \<Rightarrow> (err, h, p')
             | (Continue expiry', p') \<Rightarrow> parseLoop hnd expiry' h p'))
      | (Inr c, r) \<Rightarrow>
          (if byte_val c = 255 then finish hnd h (p\<lparr>br := r\<rparr>)
           else (case parseStep hnd (byte_val c) expiry h (p\<lparr>br := r\<rparr>) of
               (Return err, h', p') \<Rightarrow> (err, h', p')
             | (Continue expiry', h', p') \<Rightarrow> parseLoop hnd expiry' h' p')))"
  by pat_completeness auto

lemma parseFuel_later: "later p' p \<Longrightarrow> parseFuel p' \<le> parseFuel p"
  using rest_of_length [of "br p'" "br p"] by (auto simp: later_def parseFuel_def)

lemma parseFuel_skip:
  assumes "tolerate e x (p\<lparr>br := r\<rparr>) = (Continue y, p')" and "ReadByte (br p) = (Inl err, r)"
  shows "parseFuel p' < parseFuel p"
  using assms by (auto simp: tolerate_def canSkipError_def parseFuel_def ReadByte_def split: list.splits if_splits)

termination parseLoop
proof (relation "measure (\<lambda>(hnd, x, h, p). parseFuel p)", simp)
  fix hnd :: "'h RDBHandler" and x h p a r e out p' y
  assume "(a, r) = ReadByte (br p)" "a = Inl e" "e \<noteq> EOF"
    "(out, p') = tolerate (Wrapped ''failed to read opcode'' (RdbIO e)) x (p\<lparr>br := r\<rparr>)" "out = Continue y"
  then show "((hnd, y, h, p'), hnd, x, h, p) \<in> measure (\<lambda>(hnd, x, h, p). parseFuel p)"
    using parseFuel_skip [of _ x r p y p' e] by simp
next
  fix hnd :: "'h RDBHandler" and x h p a r c out rest h' p' y
  assume "(a, r) = ReadByte (br p)" "a = Inr c"
    "(out, rest) = parseStep hnd (byte_val c) x h (p\<lparr>br := r\<rparr>)" "(h', p') = rest" "out = Continue y"
  then have read: "ReadByte (br p) = (Inr c, r)" and step: "parseStep hnd (byte_val c) x h (p\<lparr>br := r\<rparr>) = (Continue y, h', p')"
    by auto
  have "parseFuel p' \<le> parseFuel (p\<lparr>br := r\<rparr>)" by (rule parseFuel_later) (rule later_parseStep [OF step])
  also have "\<dots> < parseFuel p" using ReadByte_shorter [OF read] by (simp add: parseFuel_def)
  finally show "((hnd, y, h', p'), hnd, x, h, p) \<in> measure (\<lambda>(hnd, x, h, p). parseFuel p)" by simp
qed

declare parseLoop.simps [simp del]

definition NewRDBParser :: "reader \<Rightarrow> RDBParser" where
  "NewRDBParser r = \<lparr>br = r, pstrategy = \<lparr>version = 0, supportsBinaryAux = False, requiresStrictParsing = False,
     maxSkippableErrors = 0\<rparr>, errors = 0\<rparr>"

definition strategyFor :: "int \<Rightarrow> VersionStrategy" where
  "strategyFor v = (case versionStrategies v of
     Some st \<Rightarrow> st
   | None \<Rightarrow> \<lparr>version = v, supportsBinaryAux = True, requiresStrictParsing = False, maxSkippableErrors = 5\<rparr>)"

definition Parse :: "'h RDBHandler \<Rightarrow> 'h \<Rightarrow> RDBParser \<Rightarrow> rdberror option \<times> 'h \<times> RDBParser" where
  "Parse hnd h p =
     (case wrap ''failed to read RDB header'' (readFull 9) p of
        (Inl e, p') \<Rightarrow> (Some e, h, p')
      | (Inr header, p') \<Rightarrow>
          (if take 5 header \<noteq> ''REDIS'' then (Some (InvalidMagic (take 5 header)), h, p')
           else case ParseInt (drop 5 header) of
               None \<Rightarrow> (Some (InvalidVersion (drop 5 header)), h, p')
             | Some ver \<Rightarrow>
                 (if ver > MaxSupportedRDBVersion then (Some (UnsupportedVersion ver), h, p')
                  else parseLoop hnd None h (p'\<lparr>pstrategy := strategyFor ver\<rparr>))))"

definition ParseRDB :: "reader \<Rightarrow> 'h RDBHandler \<Rightarrow> 'h \<Rightarrow> rdberror option \<times> 'h" where
  "ParseRDB r hnd h = (case Parse hnd h (NewRDBParser r) of (err, h', _) \<Rightarrow> (err, h'))"

end
