(* ===== verification/Rdb_Correct.thy ===== *)
theory Rdb_Correct
  imports Rdb_Parse
begin

text \<open>
  The parser against the file format: a writer for RDB files (lengths, strings, expiry times, database
  selectors, size hints, auxiliary fields, string entries), and the theorem that the parser hands exactly the
  written items to the handler.
\<close>

section \<open>The format written\<close>

fun encBE :: "nat \<Rightarrow> nat \<Rightarrow> bytes" where
  "encBE 0 n = []"
| "encBE (Suc k) n = encBE k (n div 256) @ [char_of (n mod 256)]"

definition encLE :: "nat \<Rightarrow> nat \<Rightarrow> bytes" where
  "encLE k n = rev (encBE k n)"

definition encLength :: "nat \<Rightarrow> bytes" where
  "encLength n =
     (if n < 64 then [char_of n]
      else if n < 16384 then [char_of (64 + n div 256), char_of (n mod 256)]
      else char_of (128 :: nat) # encBE 4 n)"

definition encString :: "bytes \<Rightarrow> bytes" where
  "encString s = encLength (length s) @ s"

datatype rdbitem =
    SelectItem nat
  | ResizeItem nat nat
  | AuxItem bytes bytes
  | Entry "nat option" bytes bytes

fun encItem :: "rdbitem \<Rightarrow> bytes" where
  "encItem (SelectItem d) = char_of (254 :: nat) # encLength d"
| "encItem (ResizeItem a b) = char_of (251 :: nat) # encLength a @ encLength b"
| "encItem (AuxItem k v) = char_of (250 :: nat) # encString k @ encString v"
| "encItem (Entry t k v) = (case t of None \<Rightarrow> [] | Some ms \<Rightarrow> char_of (252 :: nat) # encLE 8 ms)
     @ char_of (0 :: nat) # encString k @ encString v"

text \<open>What the format and the parser can carry: 32-bit lengths, strings of at most 100000 bytes.\<close>

fun writable_item :: "rdbitem \<Rightarrow> bool" where
  "writable_item (SelectItem d) \<longleftrightarrow> d < 2 ^ 32"
| "writable_item (ResizeItem a b) \<longleftrightarrow> a < 2 ^ 32 \<and> b < 2 ^ 32"
| "writable_item (AuxItem k v) \<longleftrightarrow> length k \<le> 100000 \<and> length v \<le> 100000"
| "writable_item (Entry t k v) \<longleftrightarrow> length k \<le> 100000 \<and> length v \<le> 100000 \<and>
     (case t of None \<Rightarrow> True | Some ms \<Rightarrow> ms < 2 ^ 64)"

definition encFile :: "string \<Rightarrow> rdbitem list \<Rightarrow> bytes \<Rightarrow> bytes" where
  "encFile ver items checksum = ''REDIS'' @ ver @ concat (map encItem items) @ char_of (255 :: nat) # checksum"

text \<open>What the handler is to be told.\<close>

fun deliver :: "'h RDBHandler \<Rightarrow> rdbitem \<Rightarrow> 'h \<Rightarrow> string option \<times> 'h" where
  "deliver hnd (SelectItem d) h = OnDatabase hnd (int d) h"
| "deliver hnd (ResizeItem a b) h = (case OnResizeDB hnd of None \<Rightarrow> (None, h) | Some f \<Rightarrow> f a b h)"
| "deliver hnd (AuxItem k v) h = OnAux hnd k v h"
| "deliver hnd (Entry t k v) h = OnKey hnd k (RString v) (map_option (\<lambda>ms. int ms * 1000000) t) h"

text \<open>The items in turn, then the end; \<open>None\<close> when the handler objects to one of them.\<close>

fun deliverAll :: "'h RDBHandler \<Rightarrow> rdbitem list \<Rightarrow> 'h \<Rightarrow> 'h option" where
  "deliverAll hnd [] h = Some h"
| "deliverAll hnd (i # is) h = (case deliver hnd i h of
     (None, h') \<Rightarrow> deliverAll hnd is h'
   | (Some err, h') \<Rightarrow> None)"

section \<open>Reading back the primitives\<close>

abbreviation at :: "VersionStrategy \<Rightarrow> int \<Rightarrow> ioerror \<Rightarrow> bytes \<Rightarrow> RDBParser" where
  "at st n e bs \<equiv> \<lparr>br = \<lparr>pending = bs, endErr = e\<rparr>, pstrategy = st, errors = n\<rparr>"

lemma readByte_at [simp]: "readByte (at st n e (c # bs)) = (Inr (byte_val c), at st n e bs)"
  by (simp add: readByte_def)

lemma readFull_at: "length d = k \<Longrightarrow> readFull k (at st n e (d @ bs)) = (Inr d, at st n e bs)"
  by (simp add: readFull_def ReadFull_prefix)

lemma length_encBE [simp]: "length (encBE k n) = k"
  by (induction k arbitrary: n) auto

lemma bigEndian_append: "bigEndian (xs @ ys) acc = bigEndian ys (bigEndian xs acc)"
  by (induction xs arbitrary: acc) auto

lemma bigEndian_encBE: "n < 256 ^ k \<Longrightarrow> bigEndian (encBE k n) 0 = n"
proof (induction k arbitrary: n)
  case (Suc k)
  then have "n div 256 < 256 ^ k" by (simp add: less_mult_imp_div_less mult.commute)
  with Suc.IH [of "n div 256"] show ?case by (simp add: bigEndian_append)
qed simp

lemma readUintBE_at: "v < 256 ^ k \<Longrightarrow> readUintBE k (at st n e (encBE k v @ bs)) = (Inr v, at st n e bs)"
  by (simp add: readUintBE_def rbind_def readFull_at rreturn_def bigEndian_encBE)

lemma readUintLE_at: "v < 256 ^ k \<Longrightarrow> readUintLE k (at st n e (encLE k v @ bs)) = (Inr v, at st n e bs)"
  by (simp add: readUintLE_def rbind_def readFull_at rreturn_def encLE_def littleEndian_def bigEndian_encBE)

lemma readLength_at:
  assumes "v < 2 ^ 32"
  shows "readLength (at st n e (encLength v @ bs)) = (Inr v, at st n e bs)"
proof -
  consider (small) "v < 64" | (medium) "64 \<le> v" "v < 16384" | (large) "16384 \<le> v" by linarith
  then show ?thesis
  proof cases
    case small
    then show ?thesis by (simp add: encLength_def readLength_def rbind_def rreturn_def)
  next
    case medium
    define q where "q = v div 256"
    have q: "q < 64" "v = q * 256 + v mod 256" using medium by (auto simp: q_def)
    then have byte: "(64 + q) mod 256 = 64 + q" "(64 + q) div 64 = 1" "(64 + q) mod 64 = q" by auto
    have "encLength v = [char_of (64 + q), char_of (v mod 256)]"
      using medium by (simp add: encLength_def q_def)
    with byte q(2) show ?thesis by (simp add: readLength_def rbind_def rreturn_def)
  next
    case large
    with assms readUintBE_at [of v 4 bs e st n] show ?thesis
      by (simp add: encLength_def readLength_def rbind_def)
  qed
qed

lemma readStringData_at:
  assumes "length s \<le> 100000"
  shows "readStringData (length s) (at st n e (s @ bs)) = (Inr s, at st n e bs)"
  using assms readFull_at [of s "length s" bs e st n] by (simp add: readStringData_def rreturn_def wrap_def)

lemma readString_at:
  assumes "length s \<le> 100000"
  shows "readString (at st n e (encString s @ bs)) = (Inr s, at st n e bs)"
proof -
  note data = readStringData_at [OF assms, of bs e st n]
  consider (small) "length s < 64" | (medium) "64 \<le> length s" "length s < 16384" | (large) "16384 \<le> length s"
    by linarith
  then show ?thesis
  proof cases
    case small
    with data show ?thesis by (simp add: encString_def encLength_def readString_def rbind_def)
  next
    case medium
    define q where "q = length s div 256"
    have q: "q < 64" "length s = q * 256 + length s mod 256" using medium by (auto simp: q_def)
    then have byte: "(64 + q) mod 256 = 64 + q" "(64 + q) div 64 = 1" "(64 + q) mod 64 = q" by auto
    have "encLength (length s) = [char_of (64 + q), char_of (length s mod 256)]"
      using medium by (simp add: encLength_def q_def)
    with byte q(2) [symmetric] data show ?thesis by (simp add: encString_def readString_def rbind_def)
  next
    case large
    with assms data readUintBE_at [of "length s" 4 "s @ bs" e st n] show ?thesis
      by (simp add: encString_def encLength_def readString_def rbind_def)
  qed
qed

section \<open>Reading back the items\<close>

lemma parseLoop_opcode:
  assumes "op < 255"
  shows "parseLoop hnd x h (at st n e (char_of op # bs)) =
    (case parseStep hnd op x h (at st n e bs) of
       (Return err, h', p') \<Rightarrow> (err, h', p') | (Continue x', h', p') \<Rightarrow> parseLoop hnd x' h' p')"
  using assms by (subst parseLoop.simps) simp

lemma wrap_at: "m p = (Inr x, p') \<Longrightarrow> wrap msg m p = (Inr x, p')"
  by (simp add: wrap_def)

lemma readKeyValue_at:
  assumes "length k \<le> 100000" and "length v \<le> 100000"
  shows "readKeyValue hnd 0 x h (at st n e (encString k @ encString v @ bs)) =
    (case OnKey hnd k (RString v) x h of (err, h') \<Rightarrow> (map_option HandlerError err, h', at st n e bs))"
proof -
  have "readValue 0 (at st n e (encString v @ bs)) = (Inr (Some (RString v)), at st n e bs)"
    using readString_at [OF assms(2), of bs e st n] by (simp add: readValue_def rbind_def rreturn_def)
  then show ?thesis
    using readString_at [OF assms(1), of "encString v @ bs" e st n]
    by (simp add: readKeyValue_def rbind_def rreturn_def wrap_at)
qed

lemma readAuxField_at:
  assumes "length k \<le> 100000" and "length v \<le> 100000"
  shows "readAuxField hnd h (at st n e (encString k @ encString v @ bs)) =
    (case OnAux hnd k v h of (err, h') \<Rightarrow> (map_option HandlerError err, h', at st n e bs))"
  using readString_at [OF assms(1), of "encString v @ bs" e st n] readString_at [OF assms(2), of bs e st n]
  by (simp add: readAuxField_def readBinaryString_def rbind_def rreturn_def wrap_at)

lemma ms_time: "int (ms div 1000) * 1000000000 + int (ms mod 1000) * 1000000 = int ms * 1000000"
proof -
  have "int ms = int (ms div 1000) * 1000 + int (ms mod 1000)" by (simp add: zdiv_int zmod_int)
  then show ?thesis by (simp add: algebra_simps)
qed

lemma parse_entry:
  assumes "length k \<le> 100000" and "length v \<le> 100000" and "OnKey hnd k (RString v) x h = (None, h')"
  shows "parseLoop hnd x h (at st n e (char_of (0 :: nat) # encString k @ encString v @ bs)) =
    parseLoop hnd None h' (at st n e bs)"
  using parseLoop_opcode [of 0 hnd x h "encString k @ encString v @ bs" e st n]
    readKeyValue_at [OF assms(1,2), of hnd x h bs e st n] assms(3)
  by (simp add: parseStep_def)

lemma parse_item:
  assumes "writable_item i" and "deliver hnd i h = (None, h')"
  shows "parseLoop hnd None h (at st n e (encItem i @ bs)) = parseLoop hnd None h' (at st n e bs)"
proof (cases i)
  case (SelectItem d)
  with assms readLength_at [of d bs e st n] parseLoop_opcode [of 254 hnd None h "encLength d @ bs" e st n]
  show ?thesis by (simp add: parseStep_def handled_def)
next
  case (ResizeItem a b)
  with assms readLength_at [of a "encLength b @ bs" e st n] readLength_at [of b bs e st n]
    parseLoop_opcode [of 251 hnd None h "encLength a @ encLength b @ bs" e st n]
  show ?thesis by (auto simp: parseStep_def handled_def readHint_def split: option.splits)
next
  case (AuxItem k v)
  with assms readAuxField_at [of k v hnd h bs e st n]
    parseLoop_opcode [of 250 hnd None h "encString k @ encString v @ bs" e st n]
  show ?thesis by (simp add: parseStep_def)
next
  case (Entry t k v)
  show ?thesis
  proof (cases t)
    case None
    with assms Entry parse_entry [of k v hnd None h h' bs e st n] show ?thesis by simp
  next
    case (Some ms)
    let ?rest = "char_of (0 :: nat) # encString k @ encString v @ bs"
    have "parseLoop hnd None h (at st n e (encItem i @ bs)) =
        parseLoop hnd (Some (int ms * 1000000)) h (at st n e ?rest)"
      using assms(1) Entry Some readUintLE_at [of ms 8 ?rest e st n]
        parseLoop_opcode [of 252 hnd None h "encLE 8 ms @ ?rest" e st n]
      by (simp add: parseStep_def ms_time)
    with assms Entry Some parse_entry [of k v hnd "Some (int ms * 1000000)" h h' bs e st n]
    show ?thesis by simp
  qed
qed

lemma parse_items:
  "list_all writable_item items \<Longrightarrow> deliverAll hnd items h = Some h' \<Longrightarrow>
     parseLoop hnd None h (at st n e (concat (map encItem items) @ bs)) = parseLoop hnd None h' (at st n e bs)"
proof (induction items arbitrary: h)
  case (Cons i items)
  obtain h1 where step: "deliver hnd i h = (None, h1)" "deliverAll hnd items h1 = Some h'"
    using Cons.prems(2) by (auto split: prod.splits option.splits)
  with Cons.prems(1) parse_item [of i hnd h h1 "concat (map encItem items) @ bs" e st n] Cons.IH [of h1]
  show ?case by simp
qed simp

lemma parse_file:
  assumes "length ver = 4" and "ParseInt ver = Some v" and "v \<le> 12"
    and "list_all writable_item items" and "deliverAll hnd items h = Some h'"
  shows "ParseRDB \<lparr>pending = encFile ver items checksum, endErr = e\<rparr> hnd h =
    (case OnEnd hnd h' of (err, h'') \<Rightarrow> (map_option HandlerError err, h''))"
proof -
  let ?body = "concat (map encItem items) @ char_of (255 :: nat) # checksum"
  let ?st0 = "pstrategy (NewRDBParser \<lparr>pending = [], endErr = e\<rparr>)"
  have "readFull 9 (at ?st0 0 e ((''REDIS'' @ ver) @ ?body)) = (Inr (''REDIS'' @ ver), at ?st0 0 e ?body)"
    by (rule readFull_at) (simp add: assms(1))
  then have header: "wrap ''failed to read RDB header'' (readFull 9)
      (NewRDBParser \<lparr>pending = encFile ver items checksum, endErr = e\<rparr>) = (Inr (''REDIS'' @ ver), at ?st0 0 e ?body)"
    by (simp add: wrap_def NewRDBParser_def encFile_def)
  have "parseLoop hnd None h' (at (strategyFor v) 0 e (char_of (255 :: nat) # checksum)) =
      finish hnd h' (at (strategyFor v) 0 e checksum)"
    by (subst parseLoop.simps) simp
  then show ?thesis
    using header assms(2,3) parse_items [OF assms(4,5), of "char_of (255 :: nat) # checksum" e "strategyFor v" 0]
    by (simp add: ParseRDB_def Parse_def MaxSupportedRDBVersion_def finish_def split: prod.split)
qed


text \<open>A handler that writes down what it is told.\<close>

definition tracer :: "rdbitem list RDBHandler" where
  "tracer = \<lparr>OnDatabase = (\<lambda>d h. (None, h @ [SelectItem (nat d)])),
     OnKey = (\<lambda>k v x h. case v of RString s \<Rightarrow> (None, h @ [Entry (map_option (\<lambda>t. nat (t div 1000000)) x) k s]) | _ \<Rightarrow> (None, h)),
     OnAux = (\<lambda>k v h. (None, h @ [AuxItem k v])),
     OnEnd = (\<lambda>h. (None, h)),
     OnResizeDB = None\<rparr>"


text \<open>
  Every other input is dealt with too: \<^verbatim>\<open>Parse\<close> ends on any stream and with any handler,
  and what it leaves is a tail of the stream.
\<close>

theorem parse_ends_moving_forward:
  "rest_of (br (snd (snd (Parse hnd h p)))) (br p)"
proof -
  have loop: "later (snd (snd (parseLoop hnd x h p))) p" for x h and p :: RDBParser
  proof (induction hnd x h p rule: parseLoop.induct)
    case (1 hnd x h p)
    obtain a r where ar: "ReadByte (br p) = (a, r)" by (cases "ReadByte (br p)")
    have r: "later (p\<lparr>br := r\<rparr>) p" using ReadByte.leftover [OF ar] by (simp add: later_def)
    show ?case
    proof (cases a)
      case (Inl e)
      obtain out p1 where t: "tolerate (Wrapped ''failed to read opcode'' (RdbIO e)) x (p\<lparr>br := r\<rparr>) = (out, p1)"
        by (cases "tolerate (Wrapped ''failed to read opcode'' (RdbIO e)) x (p\<lparr>br := r\<rparr>)")
      have p1: "later p1 p" using later_trans [OF later_tolerate [OF t] r] .
      have "later (snd (snd (parseLoop hnd y h p1))) p" if "out = Continue y" "e \<noteq> EOF" for y
        using later_trans [OF "1.IH"(1) [OF ar [symmetric] Inl that(2) t [symmetric] that(1)] p1] .
      with ar Inl t p1 r show ?thesis
        by (subst parseLoop.simps) (auto simp: finish_def split: outcome.split prod.split)
    next
      case (Inr c)
      obtain out h1 p1 where t: "parseStep hnd (byte_val c) x h (p\<lparr>br := r\<rparr>) = (out, h1, p1)"
        by (cases "parseStep hnd (byte_val c) x h (p\<lparr>br := r\<rparr>)")
      have p1: "later p1 p" using later_trans [OF later_parseStep [OF t] r] .
      have "later (snd (snd (parseLoop hnd y h1 p1))) p" if "out = Continue y" "byte_val c \<noteq> 255" for y
        using later_trans [OF "1.IH"(2) [OF ar [symmetric] Inr that(2) t [symmetric] that(1) refl] p1] .
      with ar Inr t p1 r show ?thesis
        by (subst parseLoop.simps) (auto simp: finish_def split: outcome.split prod.split)
    qed
  qed
  have "parser_op (wrap ''failed to read RDB header'' (readFull 9))" by (intro op_reads)
  then have head: "later (snd (wrap ''failed to read RDB header'' (readFull 9) p)) p" by (rule parser_op.onward)
  obtain a p1 where ap: "wrap ''failed to read RDB header'' (readFull 9) p = (a, p1)"
    by (cases "wrap ''failed to read RDB header'' (readFull 9) p")
  have "rest_of (br (snd (snd (parseLoop hnd x h (p1\<lparr>pstrategy := st\<rparr>))))) (br p)" for x h st
    using loop [of x h "p1\<lparr>pstrategy := st\<rparr>"] head ap by (auto simp: later_def intro: rest_of_trans)
  with head ap show ?thesis
    by (auto simp: Parse_def later_def split: sum.split option.split)
qed

text \<open>
  An 8-bit or 16-bit integer string is printed without its sign, unlike a 32-bit one: the byte
  0xFF, which stands for -1 in the encoding of the 32-bit form, is read as 255.
\<close>

theorem readString_small_ints_unsigned:
  "fst (readString (at st n e (map char_of [0xC0, 0xFF :: nat]))) = Inr ''255'' \<and>
   fst (readString (at st n e (map char_of [0xC1, 0xFF, 0xFF :: nat]))) = Inr ''65535'' \<and>
   fst (readString (at st n e (map char_of [0xC2, 0xFF, 0xFF, 0xFF, 0xFF :: nat]))) = Inr ''-1''"
proof -
  have "show_nat 255 = ''255''" "show_nat 65535 = ''65535''" "FormatInt (- 1) = ''-1''"
    by (simp_all add: show_nat.simps digit_def FormatInt_def)
  then show ?thesis
    by (simp add: readString_def rbind_def rreturn_def readUintLE_def readFull_def ReadFull_def littleEndian_def signed32_def)
qed

end
