(* ===== verification/Rdb_Load.thy ===== *)
theory Rdb_Load
  imports Storage_Interface Rdb_Correct
begin

text \<open>
  Loading a snapshot into the store: the handler \<^verbatim>\<open>rdbStorageHandler\<close> with its batches and its load statistics
  (\<^verbatim>\<open>src/replication/client.go\<close>). The log lines are in \<open>Reporting\<close>. The handler's store is \<open>None\<close> after an operation of
  the storage panicked.
\<close>

section \<open>Load statistics\<close>

record DatabaseStats =
  dbKeys :: int
  typeCounts :: "(string \<times> int) list"
  dbErrorCount :: int

record RDBLoadStats =
  ProcessedKeys :: int
  ErrorCount :: int
  databaseStats :: "(int \<times> DatabaseStats) list"

definition NewRDBLoadStats :: RDBLoadStats where
  "NewRDBLoadStats = \<lparr>ProcessedKeys = 0, ErrorCount = 0, databaseStats = []\<rparr>"

definition lookupOr :: "'v \<Rightarrow> 'k \<Rightarrow> ('k \<times> 'v) list \<Rightarrow> 'v" where
  "lookupOr v k m = (case map_of m k of None \<Rightarrow> v | Some w \<Rightarrow> w)"

definition RecordKey :: "int \<Rightarrow> string \<Rightarrow> RDBLoadStats \<Rightarrow> RDBLoadStats" where
  "RecordKey db keyType stats =
     (let dbStats = lookupOr \<lparr>dbKeys = 0, typeCounts = [], dbErrorCount = 0\<rparr> db (databaseStats stats);
          dbStats = dbStats\<lparr>dbKeys := dbKeys dbStats + 1,
            typeCounts := AList.update keyType (lookupOr 0 keyType (typeCounts dbStats) + 1) (typeCounts dbStats)\<rparr>
      in stats\<lparr>ProcessedKeys := ProcessedKeys stats + 1,
           databaseStats := AList.update db dbStats (databaseStats stats)\<rparr>)"

definition RecordError :: "int \<Rightarrow> RDBLoadStats \<Rightarrow> RDBLoadStats" where
  "RecordError db stats =
     (let stats = stats\<lparr>ErrorCount := ErrorCount stats + 1\<rparr>
      in case map_of (databaseStats stats) db of
           None \<Rightarrow> stats
         | Some d \<Rightarrow> stats\<lparr>databaseStats := AList.update db (d\<lparr>dbErrorCount := dbErrorCount d + 1\<rparr>) (databaseStats stats)\<rparr>)"

section \<open>The handler\<close>

record 's rdbStorageHandler =
  hstore :: "'s option"
  hdatabases :: "int list"
  hcurrentDB :: int
  hstats :: RDBLoadStats
  batchSize :: nat
  keyBatch :: "string list"
  valueBatch :: "bytes list"
  expiryBatch :: "int option list"

definition newRDBStorageHandler :: "'s \<Rightarrow> int list \<Rightarrow> 's rdbStorageHandler" where
  "newRDBStorageHandler s dbs = \<lparr>hstore = Some s, hdatabases = dbs, hcurrentDB = 0, hstats = NewRDBLoadStats,
     batchSize = 100, keyBatch = [], valueBatch = [], expiryBatch = []\<rparr>"

text \<open>A database is replicated when there is no filter or the filter has it.\<close>

definition allowedDB :: "int list \<Rightarrow> int \<Rightarrow> bool" where
  "allowedDB dbs d \<longleftrightarrow> dbs = [] \<or> d \<in> set dbs"

text \<open>The loop of \<^verbatim>\<open>flushBatch\<close> over the batched entries: store and statistics after it.\<close>

fun flushEntries ::
  "'s Storage \<Rightarrow> int \<Rightarrow> int \<Rightarrow> (string \<times> bytes \<times> int option) list \<Rightarrow> 's option \<Rightarrow> RDBLoadStats \<Rightarrow> 's option \<times> RDBLoadStats"
where
  "flushEntries st now db [] s stats = (s, stats)"
| "flushEntries st now db ((k, v, x) # es) s stats =
     (case Option.bind s (stSet st now k v x) of
        None \<Rightarrow> (None, stats)
      | Some (err, s') \<Rightarrow>
          flushEntries st now db es (Some s') (if err = None then stats else RecordError db stats))"

definition flushBatch :: "'s Storage \<Rightarrow> int \<Rightarrow> 's rdbStorageHandler \<Rightarrow> 's rdbStorageHandler" where
  "flushBatch st now h =
     (if keyBatch h = [] then h
      else (case flushEntries st now (hcurrentDB h) (zip (keyBatch h) (zip (valueBatch h) (expiryBatch h))) (hstore h) (hstats h) of
        (s, stats) \<Rightarrow> h\<lparr>hstore := s, hstats := stats, keyBatch := [], valueBatch := [], expiryBatch := []\<rparr>))"

definition handlerOnDatabase :: "'s Storage \<Rightarrow> int \<Rightarrow> int \<Rightarrow> 's rdbStorageHandler \<Rightarrow> string option \<times> 's rdbStorageHandler" where
  "handlerOnDatabase st now index h =
     (let h = (flushBatch st now h)\<lparr>hcurrentDB := index\<rparr>
      in if \<not> allowedDB (hdatabases h) index then (None, h)
         else (case Option.bind (hstore h) (stSelectDB st index) of
             None \<Rightarrow> (None, h\<lparr>hstore := None\<rparr>)
           | Some (err, s) \<Rightarrow> (err, h\<lparr>hstore := Some s\<rparr>)))"

fun valueTypeName :: "rvalue \<Rightarrow> string" where
  "valueTypeName (RString _) = ''string''"
| "valueTypeName (RHash _) = ''hash''"
| "valueTypeName (RList _) = ''list''"
| "valueTypeName (RSet _) = ''set''"

definition handlerOnKey ::
  "'s Storage \<Rightarrow> int \<Rightarrow> bytes \<Rightarrow> rvalue \<Rightarrow> int option \<Rightarrow> 's rdbStorageHandler \<Rightarrow> string option \<times> 's rdbStorageHandler"
where
  "handlerOnKey st now key value expiry h =
     (if \<not> allowedDB (hdatabases h) (hcurrentDB h) then (None, h)
      else
        (let h = h\<lparr>hstats := RecordKey (hcurrentDB h) (valueTypeName value) (hstats h)\<rparr>
         in case value of
              RString v \<Rightarrow>
                (let h = h\<lparr>keyBatch := keyBatch h @ [key], valueBatch := valueBatch h @ [v], expiryBatch := expiryBatch h @ [expiry]\<rparr>
                 in if length (keyBatch h) \<ge> batchSize h then (None, flushBatch st now h) else (None, h))
            | _ \<Rightarrow> (None, h)))"

definition handlerOnAux :: "bytes \<Rightarrow> bytes \<Rightarrow> 's rdbStorageHandler \<Rightarrow> string option \<times> 's rdbStorageHandler" where
  "handlerOnAux key value h = (None, h)"

text \<open>
  The capacities of the batch slices start at 100, the batch size, so \<^verbatim>\<open>cap(h.keyBatch) < capacity\<close> never
  holds and the slices are never replaced.
\<close>

definition handlerOnResizeDB :: "nat \<Rightarrow> nat \<Rightarrow> 's rdbStorageHandler \<Rightarrow> string option \<times> 's rdbStorageHandler" where
  "handlerOnResizeDB dbSize expiresSize h = (None, h)"

definition handlerOnEnd :: "'s Storage \<Rightarrow> int \<Rightarrow> 's rdbStorageHandler \<Rightarrow> string option \<times> 's rdbStorageHandler" where
  "handlerOnEnd st now h = (None, flushBatch st now h)"

definition storageHandler :: "'s Storage \<Rightarrow> int \<Rightarrow> 's rdbStorageHandler RDBHandler" where
  "storageHandler st now = \<lparr>OnDatabase = handlerOnDatabase st now, OnKey = handlerOnKey st now,
     OnAux = handlerOnAux, OnEnd = handlerOnEnd st now, OnResizeDB = Some handlerOnResizeDB\<rparr>"

section \<open>What a snapshot stands for\<close>

text \<open>
  The meaning of the items of a file: the map of the store after loading them, starting in database
  \<open>d\<close> from the map \<open>m\<close>, taking the databases that the filter allows.
\<close>

fun loadItems ::
  "int list \<Rightarrow> int \<Rightarrow> int \<Rightarrow> rdbitem list \<Rightarrow> (int \<Rightarrow> string \<Rightarrow> svalue option) \<Rightarrow> int \<Rightarrow> string \<Rightarrow> svalue option"
where
  "loadItems dbs now d [] m = m"
| "loadItems dbs now d (SelectItem n # is) m = loadItems dbs now (int n) is m"
| "loadItems dbs now d (ResizeItem a b # is) m = loadItems dbs now d is m"
| "loadItems dbs now d (AuxItem k v # is) m = loadItems dbs now d is m"
| "loadItems dbs now d (Entry t k v # is) m =
     loadItems dbs now d is
       (if allowedDB dbs d then upd d k (Some (stored now v (map_option (\<lambda>ms. int ms * 1000000) t))) m else m)"

fun loadable_item :: "int list \<Rightarrow> rdbitem \<Rightarrow> bool" where
  "loadable_item dbs (SelectItem n) \<longleftrightarrow> \<not> allowedDB dbs (int n) \<or> n \<le> 15"
| "loadable_item dbs _ \<longleftrightarrow> True"

section \<open>The handler builds that map\<close>

text \<open>The batch of a handler and its effect on a map once it is flushed.\<close>

definition batch :: "'s rdbStorageHandler \<Rightarrow> (string \<times> bytes \<times> int option) list" where
  "batch h = zip (keyBatch h) (zip (valueBatch h) (expiryBatch h))"

definition applyEntries ::
  "int \<Rightarrow> int \<Rightarrow> (string \<times> bytes \<times> int option) list \<Rightarrow> (int \<Rightarrow> string \<Rightarrow> svalue option) \<Rightarrow> int \<Rightarrow> string \<Rightarrow> svalue option"
where
  "applyEntries now d es m = fold (\<lambda>(k, v, x) m. upd d k (Some (stored now v x)) m) es m"

definition batch_ok :: "'s rdbStorageHandler \<Rightarrow> bool" where
  "batch_ok h \<longleftrightarrow> length (valueBatch h) = length (keyBatch h) \<and> length (expiryBatch h) = length (keyBatch h) \<and>
     batchSize h = 100"

context storage_laws
begin

text \<open>
  The handler stands for database \<open>d\<close> and map \<open>m\<close>: its store with the pending batch applied is \<open>m\<close>, and the
  store has the handler's database selected whenever entries of it are to be written.
\<close>

definition represents :: "int \<Rightarrow> int list \<Rightarrow> 's rdbStorageHandler \<Rightarrow> int \<Rightarrow> (int \<Rightarrow> string \<Rightarrow> svalue option) \<Rightarrow> bool" where
  "represents now dbs h d m \<longleftrightarrow> hdatabases h = dbs \<and> hcurrentDB h = d \<and> batch_ok h \<and>
     (\<exists>s. hstore h = Some s \<and> inv s \<and> roomy s \<and> (allowedDB dbs d \<longrightarrow> stCurrentDB st s = d) \<and>
        (\<not> allowedDB dbs d \<longrightarrow> keyBatch h = []) \<and> m = applyEntries now d (batch h) (view s))"

lemma flushEntries_law:
  "inv s \<Longrightarrow> roomy s \<Longrightarrow> stCurrentDB st s = d \<Longrightarrow>
     \<exists>s'. flushEntries st now db es (Some s) stats = (Some s', stats) \<and> inv s' \<and> roomy s' \<and>
       stCurrentDB st s' = d \<and> view s' = applyEntries now d es (view s)"
proof (induction es arbitrary: s)
  case (Cons e es)
  obtain k v x where e: "e = (k, v, x)" by (cases e)
  obtain s1 where s1: "stSet st now k v x s = Some (None, s1)" "inv s1" "roomy s1" "stCurrentDB st s1 = d"
      "view s1 = upd d k (Some (stored now v x)) (view s)"
    using set_law [OF Cons.prems(1,2), of now k v x] Cons.prems(3) by auto
  from Cons.IH [OF s1(2-4)] show ?case using s1(1,5) e by (simp add: applyEntries_def)
qed (simp add: applyEntries_def)

lemma flushBatch_law:
  assumes "represents now dbs h d m"
  shows "represents now dbs (flushBatch st now h) d m" and "keyBatch (flushBatch st now h) = []"
proof -
  obtain s where s: "hstore h = Some s" "inv s" "roomy s" "allowedDB dbs d \<longrightarrow> stCurrentDB st s = d"
      "\<not> allowedDB dbs d \<longrightarrow> keyBatch h = []" "m = applyEntries now d (batch h) (view s)"
    and h: "hdatabases h = dbs" "hcurrentDB h = d" "batch_ok h"
    using assms by (auto simp: represents_def)
  show "keyBatch (flushBatch st now h) = []"
    by (auto simp: flushBatch_def split: prod.split)
  show "represents now dbs (flushBatch st now h) d m"
  proof (cases "keyBatch h = []")
    case True
    with assms show ?thesis by (simp add: flushBatch_def)
  next
    case False
    then have cur: "stCurrentDB st s = d" using s(4,5) by blast
    obtain s' where "flushEntries st now d (batch h) (Some s) (hstats h) = (Some s', hstats h)"
        "inv s'" "roomy s'" "stCurrentDB st s' = d" "view s' = applyEntries now d (batch h) (view s)"
      using flushEntries_law [OF s(2,3) cur] by blast
    with False s(1,6) h show ?thesis
      by (auto simp: flushBatch_def represents_def batch_def batch_ok_def applyEntries_def)
  qed
qed

lemma deliver_select_law:
  assumes rep: "represents now dbs h d m" and ok: "loadable_item dbs (SelectItem n)"
  shows "\<exists>h'. deliver (storageHandler st now) (SelectItem n) h = (None, h') \<and> represents now dbs h' (int n) m"
proof -
  let ?h = "flushBatch st now h"
  note flush = flushBatch_law [OF rep]
  obtain s where s: "hstore ?h = Some s" "inv s" "roomy s" "m = view s" and h: "hdatabases ?h = dbs" "batch_ok ?h"
    using flush by (auto simp: represents_def batch_def applyEntries_def)
  show ?thesis
  proof (cases "allowedDB dbs (int n)")
    case True
    with ok have "int n \<le> 15" by simp
    then obtain s' where s': "stSelectDB st (int n) s = Some (None, s')" "inv s'" "roomy s'"
        "stCurrentDB st s' = int n" "view s' = view s"
      using select_valid [OF s(2), of "int n"] s(3) by auto
    let ?h' = "?h\<lparr>hcurrentDB := int n, hstore := Some s'\<rparr>"
    have "deliver (storageHandler st now) (SelectItem n) h = (None, ?h')"
      using True s(1) h(1) s'(1) by (simp add: storageHandler_def handlerOnDatabase_def)
    moreover have "represents now dbs ?h' (int n) m"
      using True s(4) s' h flush(2) by (simp add: represents_def batch_def applyEntries_def batch_ok_def)
    ultimately show ?thesis by blast
  next
    case False
    then have "deliver (storageHandler st now) (SelectItem n) h = (None, ?h\<lparr>hcurrentDB := int n\<rparr>)"
      using h(1) by (simp add: storageHandler_def handlerOnDatabase_def)
    moreover have "represents now dbs (?h\<lparr>hcurrentDB := int n\<rparr>) (int n) m"
      using False s h flush(2) by (simp add: represents_def batch_def applyEntries_def batch_ok_def)
    ultimately show ?thesis by blast
  qed
qed

text \<open>A key of a replicated database joins the batch, which is written once it is full.\<close>

lemma deliver_entry_law:
  assumes rep: "represents now dbs h d m" and allowed: "allowedDB dbs d"
  shows "\<exists>h'. deliver (storageHandler st now) (Entry t k v) h = (None, h') \<and>
    represents now dbs h' d (upd d k (Some (stored now v (map_option (\<lambda>ms. int ms * 1000000) t))) m)"
proof -
  let ?x = "map_option (\<lambda>ms. int ms * 1000000) t"
  obtain s where s: "hstore h = Some s" "inv s" "roomy s" "stCurrentDB st s = d" "m = applyEntries now d (batch h) (view s)"
    and h: "hdatabases h = dbs" "hcurrentDB h = d" "batch_ok h"
    using rep allowed by (auto simp: represents_def)
  define h1 where "h1 = h\<lparr>hstats := RecordKey d ''string'' (hstats h), keyBatch := keyBatch h @ [k],
      valueBatch := valueBatch h @ [v], expiryBatch := expiryBatch h @ [?x]\<rparr>"
  have "batch h1 = batch h @ [(k, v, ?x)]" using h(3) by (simp add: batch_def batch_ok_def h1_def)
  then have rep1: "represents now dbs h1 d (upd d k (Some (stored now v ?x)) m)"
    using allowed s h by (simp add: represents_def applyEntries_def h1_def batch_ok_def)
  have "deliver (storageHandler st now) (Entry t k v) h =
      (None, if batchSize h1 \<le> length (keyBatch h1) then flushBatch st now h1 else h1)"
    using allowed h by (simp add: storageHandler_def handlerOnKey_def h1_def Let_def)
  with rep1 flushBatch_law(1) [OF rep1] show ?thesis by simp
qed

lemma deliver_law:
  assumes rep: "represents now dbs h d m" and ok: "loadable_item dbs i"
  shows "\<exists>h' d' m'. deliver (storageHandler st now) i h = (None, h') \<and> represents now dbs h' d' m' \<and>
    loadItems dbs now d (i # is) m = loadItems dbs now d' is m'"
proof -
  have here: ?thesis if "deliver (storageHandler st now) i h = (None, h)" "loadItems dbs now d (i # is) m = loadItems dbs now d is m"
    using rep that by blast
  show ?thesis
  proof (cases i)
    case (SelectItem n)
    then show ?thesis using deliver_select_law [OF rep, of n] ok by fastforce
  next
    case (ResizeItem a b)
    then show ?thesis by (intro here) (simp_all add: storageHandler_def handlerOnResizeDB_def)
  next
    case (AuxItem k v)
    then show ?thesis by (intro here) (simp_all add: storageHandler_def handlerOnAux_def)
  next
    case (Entry t k v)
    then show ?thesis
      using deliver_entry_law [OF rep, of t k v] rep
      by (cases "allowedDB dbs d") (fastforce, auto intro!: here simp: storageHandler_def handlerOnKey_def represents_def)
  qed
qed

lemma deliverAll_law:
  "represents now dbs h d m \<Longrightarrow> list_all (loadable_item dbs) items \<Longrightarrow>
     \<exists>h' d'. deliverAll (storageHandler st now) items h = Some h' \<and>
       represents now dbs h' d' (loadItems dbs now d items m)"
proof (induction items arbitrary: h d m)
  case (Cons i items)
  obtain h1 d1 m1 where 1: "deliver (storageHandler st now) i h = (None, h1)" "represents now dbs h1 d1 m1"
      "loadItems dbs now d (i # items) m = loadItems dbs now d1 items m1"
    using deliver_law [OF Cons.prems(1), of i items] Cons.prems(2) by auto
  with Cons.IH [OF 1(2)] Cons.prems(2) show ?case by simp
qed auto

text \<open>Loading a whole file.\<close>

lemma load_file_law:
  assumes "inv s" and "roomy s" and "stCurrentDB st s = 0"
    and "length ver = 4" and "ParseInt ver = Some n" and "n \<le> 12"
    and "list_all writable_item items" and "list_all (loadable_item dbs) items"
  shows "\<exists>h s'. ParseRDB \<lparr>pending = encFile ver items checksum, endErr = e\<rparr> (storageHandler st now)
      (newRDBStorageHandler s dbs) = (None, h) \<and> hstore h = Some s' \<and> inv s' \<and> roomy s' \<and>
    view s' = loadItems dbs now 0 items (view s)"
proof -
  have "represents now dbs (newRDBStorageHandler s dbs) 0 (view s)"
    using assms(1-3) by (simp add: represents_def newRDBStorageHandler_def batch_ok_def batch_def applyEntries_def)
  then obtain h d where h: "deliverAll (storageHandler st now) items (newRDBStorageHandler s dbs) = Some h"
      "represents now dbs h d (loadItems dbs now 0 items (view s))"
    using deliverAll_law [OF _ assms(8)] by blast
  let ?h = "flushBatch st now h"
  have "ParseRDB \<lparr>pending = encFile ver items checksum, endErr = e\<rparr> (storageHandler st now)
      (newRDBStorageHandler s dbs) = (None, ?h)"
    using parse_file [OF assms(4-7) h(1), of checksum e] by (simp add: storageHandler_def handlerOnEnd_def)
  moreover obtain s' where "hstore ?h = Some s'" "inv s'" "roomy s'" "view s' = loadItems dbs now 0 items (view s)"
    using flushBatch_law [OF h(2)] by (auto simp: represents_def batch_def applyEntries_def)
  ultimately show ?thesis by blast
qed

end



end
