(* ===== verification/Repl_Client.thy ===== *)
theory Repl_Client
  imports Rdb_Load Resp_Correct
begin

text \<open>
  The replication client (\<^verbatim>\<open>src/replication/client.go\<close>): the handshake with the master, the full
  synchronisation from a snapshot, and the command stream. A client is its storage, the reader and writer of
  its connection, the replication state, the filters and the statistics. The reader holds every byte the
  master will send on the connection. Log lines and time-outs are left out, and so is the stop channel, which
  \<open>Repl_Stop\<close> adds. The calls to a metrics collector are kept as a list, oldest first, without the durations they carry;
  \<open>U\<close> is \<^verbatim>\<open>strings.ToUpper\<close> and \<open>F\<close> is \<^verbatim>\<open>strings.Fields\<close> on texts that are not ASCII.
\<close>

section \<open>State\<close>

text \<open>The calls of the interface \<^verbatim>\<open>MetricsCollector\<close> that the client makes.\<close>

datatype metricCall = MetricSyncDuration | MetricCommandProcessed string | MetricReconnection | MetricError string

record 's client =
  cStorage :: 's
  cReader :: reader
  cWriter :: writer
  masterPassword :: string
  replID :: string
  replOffset :: int
  commandFilters :: "string list"
  cDatabases :: "int list"
  CommandsProcessed :: int
  ReplicationOffset :: int
  InitialSyncCompleted :: bool
  InitialSyncProgress :: rat
  LastSyncTime :: int
  syncing :: bool
  syncCallbacks :: nat
  cMetrics :: "metricCall list option"

datatype clienterror =
    SetArity | SelectArity | InvalidDatabase bytes | StorageError string
  | ParseFailed cmderror | ExecuteFailed clienterror
  | WriteFailed writeerror | ReadFailed perror | AuthFailed string
  | PsyncFailed clienterror | PsyncClosed | PsyncReadFailed perror | PsyncError string
  | InvalidPsync string | InvalidFullResync string | InvalidOffset string | UnsupportedPsync string
  | RDBReadFailed perror | RDBParseFailed rdberror
  | ConnectionClosed | UnexpectedlyClosed perror | Desynchronised nat perror | CommandReadFailed perror

definition SetCommandFilters :: "(string \<Rightarrow> string) \<Rightarrow> string list \<Rightarrow> 's client \<Rightarrow> 's client" where
  "SetCommandFilters U commands c = c\<lparr>commandFilters := remdups (map (ToUpper U) commands)\<rparr>"

definition SetDatabases :: "int list \<Rightarrow> 's client \<Rightarrow> 's client" where
  "SetDatabases dbs c = c\<lparr>cDatabases := remdups dbs\<rparr>"

text \<open>A collector is optional.\<close>

definition recordMetric :: "metricCall \<Rightarrow> 's client \<Rightarrow> 's client" where
  "recordMetric m c = c\<lparr>cMetrics := map_option (\<lambda>ms. ms @ [m]) (cMetrics c)\<rparr>"

definition recordMetricError :: "string \<Rightarrow> 's client \<Rightarrow> 's client" where
  "recordMetricError errorType c = recordMetric (MetricError errorType) c"

lemma recordMetric_fields [simp]:
  "cStorage (recordMetric m c) = cStorage c" "cReader (recordMetric m c) = cReader c" "cWriter (recordMetric m c) = cWriter c"
  "masterPassword (recordMetric m c) = masterPassword c" "replID (recordMetric m c) = replID c"
  "replOffset (recordMetric m c) = replOffset c" "commandFilters (recordMetric m c) = commandFilters c"
  "cDatabases (recordMetric m c) = cDatabases c" "CommandsProcessed (recordMetric m c) = CommandsProcessed c"
  "InitialSyncCompleted (recordMetric m c) = InitialSyncCompleted c" "syncing (recordMetric m c) = syncing c"
  by (simp_all add: recordMetric_def)

section \<open>Commands\<close>

definition dataCommands :: "string list" where
  "dataCommands = [''SET'', ''DEL'', ''EXPIRE'', ''PERSIST'', ''INCR'', ''DECR'', ''INCRBY'', ''DECRBY'',
     ''APPEND'', ''SETRANGE'', ''GETSET'', ''SETNX'', ''SETEX'', ''PSETEX'', ''MSET'', ''MSETNX'',
     ''LPUSH'', ''RPUSH'', ''LPOP'', ''RPOP'', ''LSET'', ''LTRIM'', ''LINSERT'', ''LREM'',
     ''SADD'', ''SREM'', ''SPOP'', ''SMOVE'', ''SINTERSTORE'', ''SUNIONSTORE'', ''SDIFFSTORE'',
     ''ZADD'', ''ZREM'', ''ZINCRBY'', ''ZREMRANGEBYRANK'', ''ZREMRANGEBYSCORE'', ''ZREMRANGEBYLEX'',
     ''ZINTERSTORE'', ''ZUNIONSTORE'', ''HSET'', ''HDEL'', ''HINCRBY'', ''HINCRBYFLOAT'', ''HMSET'']"

definition isDataCommand :: "string \<Rightarrow> bool" where
  "isDataCommand cmd \<longleftrightarrow> cmd \<in> set dataCommands"

text \<open>The outer \<open>None\<close> is a panic of the storage.\<close>

definition executeCommand :: "'s Storage \<Rightarrow> int \<Rightarrow> command \<Rightarrow> 's \<Rightarrow> (clienterror option \<times> 's) option" where
  "executeCommand st now cmd s =
     (let args = cmdArgs cmd in
      if cmdName cmd = ''SET'' then
        (if length args < 2 then Some (Some SetArity, s)
         else map_option (\<lambda>(err, s'). (map_option StorageError err, s')) (stSet st now (args ! 0) (args ! 1) None s))
      else if cmdName cmd = ''DEL'' then map_option (\<lambda>(_, s'). (None, s')) (stDel st args s)
      else if cmdName cmd = ''SELECT'' then
        (if length args \<noteq> 1 then Some (Some SelectArity, s)
         else case Atoi (args ! 0) of
             None \<Rightarrow> Some (Some (InvalidDatabase (args ! 0)), s)
           | Some db \<Rightarrow> map_option (\<lambda>(err, s'). (map_option StorageError err, s')) (stSelectDB st db s))
      else Some (None, s))"

text \<open>A \<^verbatim>\<open>SELECT\<close> of a database outside the filter.\<close>

definition skippedSelect :: "int list \<Rightarrow> command \<Rightarrow> bool" where
  "skippedSelect dbs cmd \<longleftrightarrow> cmdName cmd = ''SELECT'' \<and> dbs \<noteq> [] \<and> length (cmdArgs cmd) = 1 \<and>
     (case Atoi (cmdArgs cmd ! 0) of None \<Rightarrow> False | Some db \<Rightarrow> db \<notin> set dbs)"

definition processCommand ::
  "(string \<Rightarrow> string) \<Rightarrow> 's Storage \<Rightarrow> int \<Rightarrow> pvalue \<Rightarrow> 's client \<Rightarrow> (clienterror option \<times> 's client) option"
where
  "processCommand U st now value c =
     (case ParseCommand U value of
        Inl e \<Rightarrow> Some (Some (ParseFailed e), c)
      | Inr cmd \<Rightarrow>
          (if commandFilters c \<noteq> [] \<and> cmdName cmd \<notin> set (commandFilters c) then Some (None, c)
           else if skippedSelect (cDatabases c) cmd then Some (None, c)
           else if cDatabases c \<noteq> [] \<and> isDataCommand (cmdName cmd) \<and> stCurrentDB st (cStorage c) \<notin> set (cDatabases c)
           then Some (None, c)
           else case executeCommand st now cmd (cStorage c) of
               None \<Rightarrow> None
             | Some (Some err, s') \<Rightarrow> Some (Some (ExecuteFailed err), c\<lparr>cStorage := s'\<rparr>)
             | Some (None, s') \<Rightarrow>
                 Some (None, recordMetric (MetricCommandProcessed (cmdName cmd))
                   (c\<lparr>cStorage := s', CommandsProcessed := CommandsProcessed c + 1, ReplicationOffset := ReplicationOffset c + 1\<rparr>))))"

section \<open>The command stream\<close>

definition isProtocolError :: "perror \<Rightarrow> bool" where
  "isProtocolError err \<longleftrightarrow>
     (let errStr = perror_text err in
      Contains errStr ''unknown RESP type'' \<or> Contains errStr ''expected CRLF terminator'' \<or>
      Contains errStr ''expected bulk string'' \<or> Contains errStr ''empty byte'' \<or>
      Contains errStr ''invalid length'' \<or> Contains errStr ''protocol error'')"

text \<open>
  The loop of \<^verbatim>\<open>streamCommands\<close> with its count of protocol errors, until it returns with an error. Errors of
  single commands are logged and the loop goes on. \<open>clock t\<close> is the time at which the value with number \<open>t\<close> is
  processed.
\<close>

definition maxProtocolErrors :: nat where "maxProtocolErrors = 3"

function streamLoop ::
  "(string \<Rightarrow> string) \<Rightarrow> 's Storage \<Rightarrow> (nat \<Rightarrow> int) \<Rightarrow> nat \<Rightarrow> nat \<Rightarrow> 's client \<Rightarrow> (clienterror \<times> 's client) option"
where
  "streamLoop U st clock t protocolErrorCount c =
     (case ReadNext (cReader c) of
        (Inl err, r) \<Rightarrow>
          (let c = c\<lparr>cReader := r\<rparr> in
           if err = IOErr EOF then Some (ConnectionClosed, c)
           else if Contains (perror_text err) ''use of closed network connection'' then Some (UnexpectedlyClosed err, c)
           else if isProtocolError err then
             (if protocolErrorCount + 1 \<ge> maxProtocolErrors then Some (Desynchronised (protocolErrorCount + 1) err, c)
              else streamLoop U st clock t (protocolErrorCount + 1) c)
           else Some (CommandReadFailed err, c))
      | (Inr value, r) \<Rightarrow>
          (case processCommand U st (clock t) value (c\<lparr>cReader := r\<rparr>) of
             None \<Rightarrow> None
           | Some (_, c') \<Rightarrow> streamLoop U st clock (t + 1) 0 c'))"
  by pat_completeness auto

lemma processCommand_reader:
  "processCommand U st now value c = Some (e, c') \<Longrightarrow> cReader c' = cReader c"
  by (auto simp: processCommand_def split: sum.splits if_splits option.splits prod.splits)

termination streamLoop
proof (relation "measures [\<lambda>(U, st, clock, t, n, c). length (pending (cReader c)),
    \<lambda>(U, st, clock, t, n, c). maxProtocolErrors - n]", simp)
  fix U :: "string \<Rightarrow> string" and st :: "'s Storage" and clock :: "nat \<Rightarrow> int" and t n and c c1 :: "'s client" and a r err
  assume "(a, r) = ReadNext (cReader c)" "a = Inl err" "c1 = c\<lparr>cReader := r\<rparr>" "err \<noteq> IOErr EOF"
    "\<not> maxProtocolErrors \<le> n + 1"
  moreover from this have "length (pending r) \<le> length (pending (cReader c))"
    using ReadNext.leftover_length [of "cReader c" a r] by simp
  ultimately show "((U, st, clock, t, n + 1, c1), U, st, clock, t, n, c) \<in>
      measures [\<lambda>(U, st, clock, t, n, c). length (pending (cReader c)), \<lambda>(U, st, clock, t, n, c). maxProtocolErrors - n]"
    by auto
next
  fix U :: "string \<Rightarrow> string" and st :: "'s Storage" and clock :: "nat \<Rightarrow> int" and t n and c c' :: "'s client" and a r v x e
  assume "(a, r) = ReadNext (cReader c)" "a = Inr v"
    "processCommand U st (clock t) v (c\<lparr>cReader := r\<rparr>) = Some x" "(e, c') = x"
  then have read: "ReadNext (cReader c) = (Inr v, r)"
    and cmd: "processCommand U st (clock t) v (c\<lparr>cReader := r\<rparr>) = Some (e, c')" by auto
  have "pending (cReader c) \<noteq> []" using read ReadNext_empty [of "cReader c"] by auto
  then have "length (pending r) < length (pending (cReader c))" using ReadNext_shorter [OF read] by simp
  with processCommand_reader [OF cmd] show "((U, st, clock, t + 1, 0, c'), U, st, clock, t, n, c) \<in>
      measures [\<lambda>(U, st, clock, t, n, c). length (pending (cReader c)), \<lambda>(U, st, clock, t, n, c). maxProtocolErrors - n]"
    by simp
qed

declare streamLoop.simps [simp del]

text \<open>
  \<^verbatim>\<open>streamCommands\<close> makes a fresh reader on the connection: the \<open>buffered\<close> bytes that the old reader had
  already taken from the connection are gone.
\<close>

definition freshReader :: "nat \<Rightarrow> 's client \<Rightarrow> 's client" where
  "freshReader buffered c = c\<lparr>cReader := (cReader c)\<lparr>pending := drop buffered (pending (cReader c))\<rparr>\<rparr>"

definition streamCommands ::
  "(string \<Rightarrow> string) \<Rightarrow> 's Storage \<Rightarrow> (nat \<Rightarrow> int) \<Rightarrow> nat \<Rightarrow> 's client \<Rightarrow> (clienterror \<times> 's client) option"
where
  "streamCommands U st clock buffered c = streamLoop U st clock 0 0 (freshReader buffered c)"

section \<open>Handshake and full synchronisation\<close>

definition authenticate :: "'s client \<Rightarrow> clienterror option \<times> 's client" where
  "authenticate c =
     (case wseq (WriteCommand ''AUTH'' [masterPassword c]) Flush (cWriter c) of
        (Some e, w) \<Rightarrow> (Some (WriteFailed e), c\<lparr>cWriter := w\<rparr>)
      | (None, w) \<Rightarrow>
          (case ReadNext (cReader c) of
             (Inl e, r) \<Rightarrow> (Some (ReadFailed e), c\<lparr>cWriter := w, cReader := r\<rparr>)
           | (Inr response, r) \<Rightarrow>
               (if valueIsError response then Some (AuthFailed (valueError response)) else None,
                c\<lparr>cWriter := w, cReader := r\<rparr>)))"

definition sendPSYNC :: "'s client \<Rightarrow> writeerror option \<times> 's client" where
  "sendPSYNC c =
     (let args = (if replID c \<noteq> [] \<and> replOffset c > 0 then [replID c, FormatInt (replOffset c)] else [''?'', ''-1'']) in
      case wseq (WriteCommand ''PSYNC'' args) Flush (cWriter c) of (err, w) \<Rightarrow> (err, c\<lparr>cWriter := w\<rparr>))"

text \<open>\<^verbatim>\<open>strings.Fields\<close>.\<close>

definition isSpace :: "char \<Rightarrow> bool" where
  "isSpace c \<longleftrightarrow> byte_val c \<in> {9, 10, 11, 12, 13, 32}"

function fieldsASCII :: "string \<Rightarrow> string list" where
  "fieldsASCII s =
     (case dropWhile isSpace s of
        [] \<Rightarrow> []
      | c # cs \<Rightarrow> (c # takeWhile (\<lambda>x. \<not> isSpace x) cs) # fieldsASCII (dropWhile (\<lambda>x. \<not> isSpace x) cs))"
  by pat_completeness auto
termination
proof (relation "measure length", simp)
  fix s :: string and c cs
  assume "dropWhile isSpace s = c # cs"
  then have "length cs < length s" using length_dropWhile_le [of isSpace s] by simp
  moreover have "length (dropWhile (\<lambda>x. \<not> isSpace x) cs) \<le> length cs" by (rule length_dropWhile_le)
  ultimately show "(dropWhile (\<lambda>x. \<not> isSpace x) cs, s) \<in> measure length" by simp
qed

declare fieldsASCII.simps [simp del]

definition Fields :: "(string \<Rightarrow> string list) \<Rightarrow> string \<Rightarrow> string list" where
  "Fields F s = (if isASCII s then fieldsASCII s else F s)"

section \<open>The snapshot buffer\<close>

text \<open>
  \<^verbatim>\<open>rdbStreamBuffer\<close> keeps the chunks of a snapshot and gives them out again as an \<^verbatim>\<open>io.Reader\<close>; \<open>n\<close> is the
  length of the slice to fill. \<open>readAll\<close> is what a \<^verbatim>\<open>bufio.Reader\<close> of buffer size \<open>n\<close> sees of it: reads of up to
  \<open>n\<close> bytes until the first error.
\<close>

record rdbStreamBuffer =
  sbChunks :: "bytes list"
  sbPos :: nat
  chunkIdx :: nat
  chunkPos :: nat

function bufferLoop :: "nat \<Rightarrow> bytes \<Rightarrow> rdbStreamBuffer \<Rightarrow> bytes \<times> rdbStreamBuffer" where
  "bufferLoop n copied b =
     (if length copied < n \<and> chunkIdx b < length (sbChunks b) then
        (let currentChunk = sbChunks b ! chunkIdx b in
         if chunkPos b \<ge> length currentChunk then bufferLoop n copied (b\<lparr>chunkIdx := chunkIdx b + 1, chunkPos := 0\<rparr>)
         else
           (let remaining = length currentChunk - chunkPos b;
                toCopy = n - length copied;
                toCopy = (if toCopy > remaining then remaining else toCopy) in
            bufferLoop n (copied @ take toCopy (drop (chunkPos b) currentChunk))
              (b\<lparr>chunkPos := chunkPos b + toCopy, sbPos := sbPos b + toCopy\<rparr>)))
      else (copied, b))"
  by pat_completeness auto
termination
  by (relation "measures [\<lambda>(n, copied, b). length (sbChunks b) - chunkIdx b, \<lambda>(n, copied, b). n - length copied]") auto

declare bufferLoop.simps [simp del]

definition bufferRead :: "nat \<Rightarrow> rdbStreamBuffer \<Rightarrow> (ioerror + bytes) \<times> rdbStreamBuffer" where
  "bufferRead n b =
     (if chunkIdx b \<ge> length (sbChunks b) then (Inl EOF, b)
      else case bufferLoop n [] b of (copied, b') \<Rightarrow> (if copied = [] then Inl EOF else Inr copied, b'))"

text \<open>The bytes still in the buffer; a read takes a prefix of them.\<close>

definition unread :: "rdbStreamBuffer \<Rightarrow> bytes" where
  "unread b = (if chunkIdx b < length (sbChunks b)
     then drop (chunkPos b) (sbChunks b ! chunkIdx b) @ concat (drop (chunkIdx b + 1) (sbChunks b)) else [])"

lemma unread_next:
  assumes "chunkIdx b < length (sbChunks b)" and "length (sbChunks b ! chunkIdx b) \<le> chunkPos b"
  shows "unread (b\<lparr>chunkIdx := chunkIdx b + 1, chunkPos := 0\<rparr>) = unread b"
proof (cases "chunkIdx b + 1 < length (sbChunks b)")
  case True
  then have "drop (chunkIdx b + 1) (sbChunks b) = sbChunks b ! (chunkIdx b + 1) # drop (chunkIdx b + 2) (sbChunks b)"
    using Cons_nth_drop_Suc [OF True] by simp
  with True assms show ?thesis by (simp add: unread_def)
qed (use assms in \<open>simp add: unread_def\<close>)

lemma bufferLoop_takes:
  "bufferLoop n copied b = (copied', b') \<Longrightarrow>
     copied' = copied @ take (n - length copied) (unread b) \<and> unread b' = drop (n - length copied) (unread b)"
proof (induction n copied b rule: bufferLoop.induct)
  case (1 n copied b)
  let ?chunk = "sbChunks b ! chunkIdx b"
  consider (full) "n \<le> length copied" | (empty) "length (sbChunks b) \<le> chunkIdx b"
    | (next_chunk) "length copied < n" "chunkIdx b < length (sbChunks b)" "length ?chunk \<le> chunkPos b"
    | (copy) "length copied < n" "chunkIdx b < length (sbChunks b)" "chunkPos b < length ?chunk"
    by linarith
  then show ?case
  proof cases
    case full
    with "1.prems" show ?thesis by (simp add: bufferLoop.simps)
  next
    case empty
    with "1.prems" show ?thesis by (simp add: bufferLoop.simps [of n copied b] unread_def)
  next
    case next_chunk
    then have "bufferLoop n copied (b\<lparr>chunkIdx := chunkIdx b + 1, chunkPos := 0\<rparr>) = (copied', b')"
      using "1.prems" by (simp add: bufferLoop.simps [of n copied b])
    with "1.IH"(1) [OF _ refl next_chunk(3)] next_chunk unread_next [OF next_chunk(2,3)] show ?thesis by simp
  next
    case copy
    define k where "k = min (n - length copied) (length ?chunk - chunkPos b)"
    have k: "(if length ?chunk - chunkPos b < n - length copied then length ?chunk - chunkPos b else n - length copied) = k"
      by (simp add: k_def)
    let ?b = "b\<lparr>chunkPos := chunkPos b + k, sbPos := sbPos b + k\<rparr>"
    have loop: "bufferLoop n (copied @ take k (drop (chunkPos b) ?chunk)) ?b = (copied', b')"
      using "1.prems" copy by (simp add: bufferLoop.simps [of n copied b] Let_def k)
    have unread: "unread ?b = drop k (unread b)" and piece: "take k (drop (chunkPos b) ?chunk) = take k (unread b)"
      and len: "k \<le> length (unread b)"
      using copy by (simp_all add: unread_def k_def add.commute)
    have "copied' = (copied @ take k (unread b)) @ take (n - length (copied @ take k (unread b))) (unread ?b) \<and>
        unread b' = drop (n - length (copied @ take k (unread b))) (unread ?b)"
      using "1.IH"(2) [OF _ refl _ refl refl] copy loop k piece by (simp add: not_le)
    moreover have "k + (n - (length copied + k)) = n - length copied" using copy(1) by (simp add: k_def min_def)
    moreover have "n - (length copied + k) + k = n - length copied" using calculation(2) by simp
    ultimately show ?thesis using len
      by (simp add: unread min_absorb2 flip: take_add)
  qed
qed

lemma bufferRead_takes:
  assumes "bufferRead n b = (x, b')"
  shows "unread b' = drop n (unread b)" and "x = (if n = 0 \<or> unread b = [] then Inl EOF else Inr (take n (unread b)))"
  using assms bufferLoop_takes [of n "[]" b]
  by (auto simp: bufferRead_def unread_def split: if_splits prod.splits)

function readAll :: "nat \<Rightarrow> rdbStreamBuffer \<Rightarrow> bytes \<times> ioerror" where
  "readAll n b = (case bufferRead n b of
      (Inl e, _) \<Rightarrow> ([], e)
    | (Inr d, b') \<Rightarrow> (case readAll n b' of (ds, e) \<Rightarrow> (d @ ds, e)))"
  by pat_completeness auto
termination
proof (relation "measure (\<lambda>(n, b). length (unread b))", simp)
  fix n b x d b'
  assume "(x, b') = bufferRead n b" "x = Inr d"
  then have "bufferRead n b = (Inr d, b')" by simp
  from bufferRead_takes [OF this] show "((n, b'), n, b) \<in> measure (\<lambda>(n, b). length (unread b))"
    by (auto split: if_splits)
qed

declare readAll.simps [simp del]

text \<open>Whatever the size of the buffer, the parser reads the chunks one after the other and then end of file.\<close>

lemma readAll_unread: "0 < n \<Longrightarrow> readAll n b = (unread b, EOF)"
proof (induction n b rule: readAll.induct)
  case (1 n b)
  obtain x b' where read: "bufferRead n b = (x, b')" by (cases "bufferRead n b")
  note takes = bufferRead_takes [OF read]
  show ?case
  proof (cases "unread b = []")
    case True
    with takes read show ?thesis by (simp add: readAll.simps)
  next
    case False
    with takes "1.prems" have x: "x = Inr (take n (unread b))" by simp
    from "1.IH" [OF read [symmetric] x "1.prems"] takes(1) show ?thesis
      by (subst readAll.simps) (simp add: read x)
  qed
qed

definition newRDBStreamBuffer :: "bytes list \<Rightarrow> rdbStreamBuffer" where
  "newRDBStreamBuffer chunks = \<lparr>sbChunks = chunks, sbPos = 0, chunkIdx = 0, chunkPos = 0\<rparr>"

lemma unread_new: "unread (newRDBStreamBuffer chunks) = concat chunks"
  by (cases chunks) (simp_all add: unread_def newRDBStreamBuffer_def)

text \<open>The stream the parser gets: a \<^verbatim>\<open>bufio.Reader\<close> with its default buffer size on the collected chunks.\<close>

definition bufioSize :: nat where "bufioSize = 4096"

definition snapshotStream :: "bytes list \<Rightarrow> reader" where
  "snapshotStream chunks = (case readAll bufioSize (newRDBStreamBuffer chunks) of (d, e) \<Rightarrow> \<lparr>pending = d, endErr = e\<rparr>)"

lemma snapshotStream_concat: "snapshotStream chunks = \<lparr>pending = concat chunks, endErr = EOF\<rparr>"
  by (simp add: snapshotStream_def readAll_unread bufioSize_def unread_new)

text \<open>
  \<^verbatim>\<open>performFullSync\<close>: the snapshot is collected in chunks, which \<^verbatim>\<open>rdbStreamBuffer\<close> then gives to the parser one
  after the other. A parsing error is ignored when the snapshot is shorter than 500 bytes.
\<close>

definition performFullSync :: "'s Storage \<Rightarrow> int \<Rightarrow> 's client \<Rightarrow> (clienterror option \<times> 's client) option" where
  "performFullSync st now c =
     (case ReadBulkStringForReplication collect (cReader c) [] of
        (Inl e, r, _) \<Rightarrow> Some (Some (RDBReadFailed e), c\<lparr>cReader := r\<rparr>)
      | (Inr _, r, chunks) \<Rightarrow>
          (case ParseRDB (snapshotStream chunks) (storageHandler st now)
                  (newRDBStorageHandler (cStorage c) (cDatabases c)) of
             (err, h) \<Rightarrow>
               (case hstore h of
                  None \<Rightarrow> None
                | Some s \<Rightarrow>
                    Some (case err of
                        None \<Rightarrow> None
                      | Some e \<Rightarrow> (if length (concat chunks) < 500 then None else Some (RDBParseFailed e)),
                      c\<lparr>cReader := r, cStorage := s\<rparr>))))"

text \<open>
  The end of a successful synchronisation: the metric, the statistics and a round of the callbacks, which
  \<open>syncCallbacks\<close> counts.
\<close>

definition syncSucceeded :: "int \<Rightarrow> 's client \<Rightarrow> 's client" where
  "syncSucceeded now c = (recordMetric MetricSyncDuration c)\<lparr>InitialSyncCompleted := True, InitialSyncProgress := 1,
     LastSyncTime := now, syncCallbacks := syncCallbacks c + 1\<rparr>"

text \<open>The body of \<^verbatim>\<open>performSync\<close>, and its guard: a synchronisation that finds another one in progress does nothing.\<close>

definition synchronise ::
  "(string \<Rightarrow> string list) \<Rightarrow> 's Storage \<Rightarrow> int \<Rightarrow> 's client \<Rightarrow> (clienterror option \<times> 's client) option"
where
  "synchronise F st now c =
     (case sendPSYNC c of
        (Some e, c) \<Rightarrow> Some (Some (PsyncFailed (WriteFailed e)), c)
      | (None, c) \<Rightarrow>
          (case ReadNext (cReader c) of
             (Inl e, r) \<Rightarrow> Some (Some (if e = IOErr EOF then PsyncClosed else PsyncReadFailed e), c\<lparr>cReader := r\<rparr>)
           | (Inr response, r) \<Rightarrow>
               (let c = c\<lparr>cReader := r\<rparr>;
                    responseStr = valueString response;
                    parts = Fields F responseStr in
                if valueIsError response then Some (Some (PsyncError (valueError response)), c)
                else if parts = [] then Some (Some (InvalidPsync responseStr), c)
                else if hd parts = ''FULLRESYNC'' then
                  (if length parts < 3 then Some (Some (InvalidFullResync responseStr), c)
                   else
                     (let c = c\<lparr>replID := parts ! 1\<rparr> in
                      case Atoi (parts ! 2) of
                        None \<Rightarrow> Some (Some (InvalidOffset (parts ! 2)), c)
                      | Some offset \<Rightarrow>
                          (case performFullSync st now (c\<lparr>replOffset := offset\<rparr>) of
                             None \<Rightarrow> None
                           | Some (Some e, c') \<Rightarrow> Some (Some e, c')
                           | Some (None, c') \<Rightarrow> Some (None, syncSucceeded now c'))))
                else if hd parts = ''CONTINUE'' then Some (None, syncSucceeded now c)
                else Some (Some (UnsupportedPsync responseStr), c))))"

definition performSync ::
  "(string \<Rightarrow> string list) \<Rightarrow> 's Storage \<Rightarrow> int \<Rightarrow> 's client \<Rightarrow> (clienterror option \<times> 's client) option"
where
  "performSync F st now c =
     (if syncing c then Some (None, c)
      else map_option (map_prod id (\<lambda>c'. c'\<lparr>syncing := False\<rparr>)) (synchronise F st now (c\<lparr>syncing := True\<rparr>)))"

end
