(* ===== verification/Repl_Correct.thy ===== *)
theory Repl_Correct
  imports Repl_Client
begin

text \<open>
  What the replication client achieves: the writes of a master, as an abstract machine on the map of the
  databases, and the client's store following them, first for the command stream alone and then for a whole
  session of handshake, snapshot and stream. The laws of \<open>storage_laws\<close> carry the proofs; the in-memory
  engine enters by the interpretation \<open>mem\<close>.
\<close>

section \<open>The writes of a master\<close>

datatype mwrite = MSet string bytes | MDel "string list" | MSelect nat | MPing

fun commandOf :: "mwrite \<Rightarrow> string \<times> string list" where
  "commandOf (MSet k v) = (''SET'', [k, v])"
| "commandOf (MDel ks) = (''DEL'', ks)"
| "commandOf (MSelect n) = (''SELECT'', [FormatInt (int n)])"
| "commandOf MPing = (''PING'', [])"

text \<open>Selected database and map after a write that happens at time \<open>now\<close>.\<close>

fun masterStep :: "int \<Rightarrow> mwrite \<Rightarrow> int \<times> dbmap \<Rightarrow> int \<times> dbmap" where
  "masterStep now (MSet k v) (d, m) = (d, upd d k (Some (stored now v None)) m)"
| "masterStep now (MDel ks) (d, m) = (d, without d (set ks) m)"
| "masterStep now (MSelect n) (d, m) = (int n, m)"
| "masterStep now MPing (d, m) = (d, m)"

fun masterRun :: "(nat \<Rightarrow> int) \<Rightarrow> nat \<Rightarrow> mwrite list \<Rightarrow> int \<times> dbmap \<Rightarrow> int \<times> dbmap" where
  "masterRun clock t [] x = x"
| "masterRun clock t (w # ws) x = masterRun clock (t + 1) ws (masterStep (clock t) w x)"

definition commandWire :: "mwrite \<Rightarrow> bytes" where
  "commandWire w = (case commandOf w of (cmd, args) \<Rightarrow> wire (ArrayV (map BulkV (cmd # args))))"

text \<open>A write that fits the protocol's bounds and stays within the replicated databases.\<close>

definition in_scope :: "int list \<Rightarrow> mwrite \<Rightarrow> bool" where
  "in_scope dbs w \<longleftrightarrow> command_ok (commandOf w) \<and>
     (case w of MSelect n \<Rightarrow> n \<le> 15 \<and> allowedDB dbs (int n) | _ \<Rightarrow> True)"

text \<open>The client is in a replicated database, or the next write that is not a ping selects one.\<close>

fun entersScope :: "int list \<Rightarrow> int \<Rightarrow> mwrite list \<Rightarrow> bool" where
  "entersScope dbs d [] \<longleftrightarrow> True"
| "entersScope dbs d (MPing # ws) \<longleftrightarrow> entersScope dbs d ws"
| "entersScope dbs d (MSelect n # ws) \<longleftrightarrow> True"
| "entersScope dbs d (w # ws) \<longleftrightarrow> allowedDB dbs d"

lemma entersScope_allowed: "allowedDB dbs d \<Longrightarrow> entersScope dbs d ws"
  by (induction dbs d ws rule: entersScope.induct) auto

lemma ToUpper_names:
  "ToUpper U ''SET'' = ''SET''" "ToUpper U ''DEL'' = ''DEL''" "ToUpper U ''SELECT'' = ''SELECT''"
  "ToUpper U ''PING'' = ''PING''"
  by (simp_all add: ToUpper_def isASCII_def upperASCII_def)

lemma ToUpper_commandOf: "ToUpper U (fst (commandOf w)) = fst (commandOf w)"
  by (cases w) (simp_all add: ToUpper_names)

lemma read_commandWire:
  assumes "command_ok (commandOf w)"
  shows "ReadNext \<lparr>pending = commandWire w @ rest, endErr = e\<rparr> =
    (Inr (ArrayV (map BulkV (fst (commandOf w) # snd (commandOf w)))), \<lparr>pending = rest, endErr = e\<rparr>)"
  using resp.roundtrip [OF sendable_command] assms by (cases "commandOf w") (simp add: commandWire_def del: wire.simps)

lemma parse_command: "ParseCommand U (ArrayV (map BulkV (fst (commandOf w) # snd (commandOf w)))) =
    Inr \<lparr>cmdName = fst (commandOf w), cmdArgs = snd (commandOf w)\<rparr>"
  by (simp add: ParseCommand_def ToUpper_commandOf)

section \<open>The stream follows the master\<close>

context storage_laws
begin

definition follows :: "'s client \<Rightarrow> int \<times> dbmap \<Rightarrow> bool" where
  "follows c x \<longleftrightarrow> inv (cStorage c) \<and> roomy (cStorage c) \<and> x = (stCurrentDB st (cStorage c), view (cStorage c)) \<and>
     commandFilters c = []"

lemma executeCommand_law:
  assumes "inv s" and "roomy s" and "in_scope dbs w"
  shows "\<exists>s'. executeCommand st now \<lparr>cmdName = fst (commandOf w), cmdArgs = snd (commandOf w)\<rparr> s = Some (None, s') \<and>
    inv s' \<and> roomy s' \<and> (stCurrentDB st s', view s') = masterStep now w (stCurrentDB st s, view s)"
proof (cases w)
  case (MSet k v)
  with set_law [OF assms(1,2), of now k v None] show ?thesis by (auto simp: executeCommand_def)
next
  case (MDel ks)
  with del_law [OF assms(1), of ks] assms(2) show ?thesis by (auto simp: executeCommand_def)
next
  case (MSelect n)
  then have "in_int64 (int n)" "0 \<le> int n" "int n \<le> 15"
    using assms(3) by (auto simp: in_scope_def in_int64_def int64_bounds)
  with MSelect select_valid [OF assms(1), of "int n"] assms(2) show ?thesis
    by (auto simp: executeCommand_def ParseInt_FormatInt)
next
  case MPing
  with assms show ?thesis by (simp add: executeCommand_def)
qed

text \<open>
  A write is taken when the client is in a replicated database or the write selects one; the client is in a
  replicated database afterwards.
\<close>

lemma processCommand_law:
  assumes fol: "follows c x" and w: "in_scope (cDatabases c) w" and entry: "entersScope (cDatabases c) (fst x) (w # ws)"
  shows "\<exists>c'. processCommand U st now (ArrayV (map BulkV (fst (commandOf w) # snd (commandOf w)))) c = Some (None, c') \<and>
    follows c' (masterStep now w x) \<and> entersScope (cDatabases c) (fst (masterStep now w x)) ws \<and> cDatabases c' = cDatabases c"
proof -
  let ?cmd = "\<lparr>cmdName = fst (commandOf w), cmdArgs = snd (commandOf w)\<rparr>"
  obtain s' where s': "executeCommand st now ?cmd (cStorage c) = Some (None, s')" "inv s'" "roomy s'"
      "(stCurrentDB st s', view s') = masterStep now w x"
    using executeCommand_law [OF _ _ w, of "cStorage c" now] fol unfolding follows_def by auto
  have "\<not> skippedSelect (cDatabases c) ?cmd"
  proof (cases w)
    case (MSelect n)
    then have "in_int64 (int n)" "allowedDB (cDatabases c) (int n)"
      using w by (auto simp: in_scope_def in_int64_def int64_bounds)
    with MSelect show ?thesis by (simp add: skippedSelect_def ParseInt_FormatInt allowedDB_def)
  qed (simp_all add: skippedSelect_def)
  moreover have "\<not> (cDatabases c \<noteq> [] \<and> isDataCommand (fst (commandOf w)) \<and> stCurrentDB st (cStorage c) \<notin> set (cDatabases c))"
    using fol entry unfolding follows_def by (cases w) (auto simp: allowedDB_def isDataCommand_def dataCommands_def)
  moreover have "entersScope (cDatabases c) (fst (masterStep now w x)) ws"
    using w entry by (cases w; cases x) (auto simp: in_scope_def entersScope_allowed)
  ultimately show ?thesis
    using fol s' parse_command [of U w]
    by (auto simp: processCommand_def follows_def simp del: list.map(2) dest!: sym [of "(_, _)"])
qed

text \<open>The next write of the stream is read and carried out.\<close>

lemma next_write:
  assumes "follows c x" and "list_all (in_scope (cDatabases c)) (w # ws)" and "entersScope (cDatabases c) (fst x) (w # ws)"
    and "cReader c = \<lparr>pending = concat (map commandWire (w # ws)), endErr = e\<rparr>"
  shows "\<exists>v r c'. ReadNext (cReader c) = (Inr v, r) \<and> processCommand U st now v (c\<lparr>cReader := r\<rparr>) = Some (None, c') \<and>
    follows c' (masterStep now w x) \<and> list_all (in_scope (cDatabases c')) ws \<and>
    entersScope (cDatabases c') (fst (masterStep now w x)) ws \<and> cReader c' = \<lparr>pending = concat (map commandWire ws), endErr = e\<rparr>"
proof -
  let ?v = "ArrayV (map BulkV (fst (commandOf w) # snd (commandOf w)))"
  define r where "r = \<lparr>pending = concat (map commandWire ws), endErr = e\<rparr>"
  have read: "ReadNext (cReader c) = (Inr ?v, r)"
    using read_commandWire [of w "concat (map commandWire ws)" e] assms(2,4) by (simp add: in_scope_def r_def)
  have "follows (c\<lparr>cReader := r\<rparr>) x" using assms(1) by (auto simp: follows_def)
  then obtain c' where c': "processCommand U st now ?v (c\<lparr>cReader := r\<rparr>) = Some (None, c')"
      "follows c' (masterStep now w x)" "entersScope (cDatabases c) (fst (masterStep now w x)) ws"
      "cDatabases c' = cDatabases c"
    using processCommand_law [of "c\<lparr>cReader := r\<rparr>" x w ws U now] assms(2,3) by auto
  with read assms(2) processCommand_reader [OF c'(1)] show ?thesis
    by (intro exI [of _ ?v] exI [of _ r] exI [of _ c']) (simp add: r_def)
qed

lemma stream_law:
  assumes "follows c x" and "list_all (in_scope (cDatabases c)) ws" and "entersScope (cDatabases c) (fst x) ws"
    and "cReader c = \<lparr>pending = concat (map commandWire ws), endErr = EOF\<rparr>"
  shows "\<exists>c'. streamLoop U st clock t n c = Some (ConnectionClosed, c') \<and> follows c' (masterRun clock t ws x)"
  using assms
proof (induction ws arbitrary: c x t n)
  case Nil
  then show ?case
    by (subst streamLoop.simps) (auto simp: ReadNext_empty follows_def)
next
  case (Cons w ws)
  obtain v r c' where step: "ReadNext (cReader c) = (Inr v, r)" "processCommand U st (clock t) v (c\<lparr>cReader := r\<rparr>) = Some (None, c')"
      "follows c' (masterStep (clock t) w x)" "list_all (in_scope (cDatabases c')) ws"
      "entersScope (cDatabases c') (fst (masterStep (clock t) w x)) ws" "cReader c' = \<lparr>pending = concat (map commandWire ws), endErr = EOF\<rparr>"
    using next_write [OF Cons.prems] by blast
  from Cons.IH [OF step(3-6), of "t + 1" 0] step(1,2) show ?case by (subst streamLoop.simps) simp
qed

lemma performFullSync_law:
  assumes "inv (cStorage c)" and "roomy (cStorage c)" and "stCurrentDB st (cStorage c) = 0"
    and "cReader c = \<lparr>pending = ''$'' @ FormatInt (int (length file)) @ CRLF @ file @ rest, endErr = e\<rparr>"
    and "file = encFile ver items checksum" and "int (length file) \<le> maxBulkSize"
    and "length ver = 4" and "ParseInt ver = Some n" and "n \<le> 12"
    and "list_all writable_item items" and "list_all (loadable_item (cDatabases c)) items"
  shows "\<exists>s'. performFullSync st now c = Some (None, c\<lparr>cReader := \<lparr>pending = rest, endErr = e\<rparr>, cStorage := s'\<rparr>) \<and>
    inv s' \<and> roomy s' \<and> view s' = loadItems (cDatabases c) now 0 items (view (cStorage c))"
proof -
  obtain cs where cs: "ReadBulkStringForReplication collect (cReader c) [] = (Inr (), \<lparr>pending = rest, endErr = e\<rparr>, cs)"
      "concat cs = file"
    using ReadBulk_collect [OF assms(6), of rest e] assms(4) by auto
  obtain h s' where "ParseRDB (snapshotStream cs) (storageHandler st now)
      (newRDBStorageHandler (cStorage c) (cDatabases c)) = (None, h)" "hstore h = Some s'" "inv s'" "roomy s'"
      "view s' = loadItems (cDatabases c) now 0 items (view (cStorage c))"
    using load_file_law [OF assms(1-3,7-11), of checksum EOF now] cs(2) assms(5) by (auto simp: snapshotStream_concat)
  with cs(1) show ?thesis by (intro exI [of _ s']) (simp add: performFullSync_def)
qed

end

section \<open>The handshake\<close>

lemma fieldsASCII_Nil [simp]: "fieldsASCII [] = []"
  by (simp add: fieldsASCII.simps)

lemma fieldsASCII_space [simp]: "isSpace x \<Longrightarrow> fieldsASCII (x # s) = fieldsASCII s"
  by (simp add: fieldsASCII.simps [of "x # s"] fieldsASCII.simps [of s])

lemma fieldsASCII_word:
  assumes "w \<noteq> []" and "\<forall>x \<in> set w. \<not> isSpace x" and "s = [] \<or> isSpace (hd s)"
  shows "fieldsASCII (w @ s) = w # fieldsASCII s"
proof -
  obtain x xs where w: "w = x # xs" using assms(1) by (cases w) auto
  have "takeWhile (\<lambda>x. \<not> isSpace x) (xs @ s) = xs" "dropWhile (\<lambda>x. \<not> isSpace x) (xs @ s) = s"
    using assms(2,3) w by (cases s; simp add: takeWhile_append2 dropWhile_append2)+
  with assms(2) w show ?thesis by (simp add: fieldsASCII.simps [of "x # xs @ s"])
qed

lemma digit_plain: "is_digit c \<or> c = CHR ''-'' \<Longrightarrow> \<not> isSpace c \<and> byte_val c < 128"
  by (auto simp: is_digit_def isSpace_def)

lemma Fields_resync:
  assumes "rid \<noteq> []" and "isASCII rid" and "\<forall>x \<in> set rid. \<not> isSpace x"
  shows "Fields F (''FULLRESYNC '' @ rid @ '' '' @ FormatInt off) = [''FULLRESYNC'', rid, FormatInt off]"
proof -
  have off: "\<forall>x \<in> set (FormatInt off). \<not> isSpace x \<and> byte_val x < 128"
    using FormatInt_chars digit_plain by blast
  have "fieldsASCII (''FULLRESYNC'' @ '' '' @ rid @ '' '' @ FormatInt off) =
      ''FULLRESYNC'' # fieldsASCII ('' '' @ rid @ '' '' @ FormatInt off)"
    by (intro fieldsASCII_word) (simp_all add: isSpace_def)
  also have "fieldsASCII ('' '' @ rid @ '' '' @ FormatInt off) = rid # fieldsASCII (FormatInt off)"
    using fieldsASCII_word [OF assms(1,3), of "'' '' @ FormatInt off"] by (simp add: isSpace_def)
  also have "fieldsASCII (FormatInt off) = [FormatInt off]"
    using fieldsASCII_word [of "FormatInt off" "[]"] off by simp
  finally have "fieldsASCII (''FULLRESYNC '' @ rid @ '' '' @ FormatInt off) = [''FULLRESYNC'', rid, FormatInt off]"
    by simp
  moreover have "isASCII (''FULLRESYNC '' @ rid @ '' '' @ FormatInt off)"
    using assms(2) off by (auto simp: isASCII_def)
  ultimately show ?thesis by (simp add: Fields_def)
qed

text \<open>
  What a master sends in a session: the answer to \<^verbatim>\<open>PSYNC\<close>, the snapshot, and its writes.
\<close>

definition sessionBytes :: "string \<Rightarrow> int \<Rightarrow> bytes \<Rightarrow> mwrite list \<Rightarrow> bytes" where
  "sessionBytes rid off file ws =
     wire (SimpleV (''FULLRESYNC '' @ rid @ '' '' @ FormatInt off)) @
     ''$'' @ FormatInt (int (length file)) @ CRLF @ file @ concat (map commandWire ws)"

lemma sendPSYNC_ok: "werr (cWriter c) = None \<Longrightarrow> \<exists>w. sendPSYNC c = (None, c\<lparr>cWriter := w\<rparr>)"
proof -
  assume ok: "werr (cWriter c) = None"
  have "\<exists>w. wseq (WriteCommand cmd args) Flush (cWriter c) = (None, w)" for cmd args
    using puts_ok [OF puts_WriteCommand ok] ok by (simp add: wseq_def Flush_def)
  then obtain w where "wseq (WriteCommand ''PSYNC'' (if replID c \<noteq> [] \<and> replOffset c > 0
      then [replID c, FormatInt (replOffset c)] else [''?'', ''-1''])) Flush (cWriter c) = (None, w)"
    by blast
  then show ?thesis by (intro exI [of _ w]) (simp add: sendPSYNC_def Let_def split del: if_split)
qed

lemma not_space_plain: "\<not> isSpace x \<Longrightarrow> x \<noteq> LF"
  by (auto simp: isSpace_def)

lemma performSync_runs:
  assumes "\<not> syncing c" and "synchronise F st now (c\<lparr>syncing := True\<rparr>) = Some (e, c')"
  shows "performSync F st now c = Some (e, c'\<lparr>syncing := False\<rparr>)"
  using assms by (simp add: performSync_def)

lemma synchronise_answer:
  assumes "rid \<noteq> []" and "isASCII rid" and "\<forall>x \<in> set rid. \<not> isSpace x" and "in_int64 off" and "werr (cWriter c) = None"
    and "cReader c = \<lparr>pending = wire (SimpleV (''FULLRESYNC '' @ rid @ '' '' @ FormatInt off)) @ rest, endErr = e\<rparr>"
  shows "\<exists>w. synchronise F st now c = (case performFullSync st now
      (c\<lparr>cWriter := w, cReader := \<lparr>pending = rest, endErr = e\<rparr>, replID := rid, replOffset := off\<rparr>) of
        None \<Rightarrow> None | Some (Some err, c') \<Rightarrow> Some (Some err, c')
      | Some (None, c') \<Rightarrow> Some (None, syncSucceeded now c'))"
proof -
  let ?answer = "''FULLRESYNC '' @ rid @ '' '' @ FormatInt off"
  obtain w where w: "sendPSYNC c = (None, c\<lparr>cWriter := w\<rparr>)" using sendPSYNC_ok [OF assms(5)] by blast
  have "LF \<notin> set rid" using assms(3) not_space_plain by blast
  then have "sendable (SimpleV ?answer)" using FormatInt_no_LF [of off] by simp
  then have "ReadNext (cReader c) = (Inr (SimpleV ?answer), \<lparr>pending = rest, endErr = e\<rparr>)"
    using resp.roundtrip assms(6) by metis
  then show ?thesis
    using w Fields_resync [OF assms(1-3)] ParseInt_FormatInt [OF assms(4)]
    by (intro exI [of _ w]) (simp add: synchronise_def valueIsError_def Let_def)
qed

lemma streamCommands_fresh: "streamCommands U st clock 0 c = streamLoop U st clock 0 0 c"
  by (cases c; cases "cReader c") (simp add: streamCommands_def freshReader_def)

context storage_laws
begin

lemma session_law:
  assumes store: "inv (cStorage c)" "roomy (cStorage c)" "stCurrentDB st (cStorage c) = 0"
    and client: "werr (cWriter c) = None" "commandFilters c = []" "\<not> syncing c"
      "cReader c = \<lparr>pending = sessionBytes rid off file ws, endErr = EOF\<rparr>"
    and answer: "rid \<noteq> []" "isASCII rid" "\<forall>x \<in> set rid. \<not> isSpace x" "in_int64 off"
    and snapshot: "file = encFile ver items checksum" "int (length file) \<le> maxBulkSize"
      "length ver = 4" "ParseInt ver = Some n" "n \<le> 12"
      "list_all writable_item items" "list_all (loadable_item (cDatabases c)) items"
    and writes: "list_all (in_scope (cDatabases c)) ws" "ws = MSelect d # ws'"
  shows "\<exists>c1 c2. performSync F st now c = Some (None, c1) \<and> InitialSyncCompleted c1 \<and> replID c1 = rid \<and> replOffset c1 = off \<and>
    cDatabases c1 = cDatabases c \<and> streamCommands U st clock 0 c1 = Some (ConnectionClosed, c2) \<and>
    follows c2 (masterRun clock 0 ws (0, loadItems (cDatabases c) now 0 items (view (cStorage c))))"
proof -
  let ?rest = "concat (map commandWire ws)"
  let ?snap = "''$'' @ FormatInt (int (length file)) @ CRLF @ file @ ?rest"
  let ?c = "c\<lparr>syncing := True\<rparr>"
  obtain w where sync: "synchronise F st now ?c = (case performFullSync st now
      (?c\<lparr>cWriter := w, cReader := \<lparr>pending = ?snap, endErr = EOF\<rparr>, replID := rid, replOffset := off\<rparr>) of
        None \<Rightarrow> None | Some (Some err, c') \<Rightarrow> Some (Some err, c')
      | Some (None, c') \<Rightarrow> Some (None, syncSucceeded now c'))"
    using synchronise_answer [OF answer, of ?c ?snap EOF F st now] client(1,4)
    by (auto simp: sessionBytes_def simp del: wire.simps)
  define c0 where "c0 = ?c\<lparr>cWriter := w, cReader := \<lparr>pending = ?snap, endErr = EOF\<rparr>, replID := rid, replOffset := off\<rparr>"
  have c0: "cStorage c0 = cStorage c" "cDatabases c0 = cDatabases c" "commandFilters c0 = []"
      "cReader c0 = \<lparr>pending = ?snap, endErr = EOF\<rparr>" "replID c0 = rid" "replOffset c0 = off"
    using client(2) by (simp_all add: c0_def)
  obtain s' where full: "performFullSync st now c0 = Some (None, c0\<lparr>cReader := \<lparr>pending = ?rest, endErr = EOF\<rparr>, cStorage := s'\<rparr>)"
      "inv s'" "roomy s'" "view s' = loadItems (cDatabases c) now 0 items (view (cStorage c))"
    using performFullSync_law [of c0 "file" ?rest EOF, OF _ _ _ c0(4) snapshot(1-6)] store snapshot(7) c0 by auto
  define c1 where "c1 = (syncSucceeded now (c0\<lparr>cReader := \<lparr>pending = ?rest, endErr = EOF\<rparr>, cStorage := s'\<rparr>))\<lparr>syncing := False\<rparr>"
  have "performSync F st now c = Some (None, c1)"
    using performSync_runs [OF client(3)] sync full(1) by (simp add: c0_def c1_def)
  moreover have c1: "cReader c1 = \<lparr>pending = ?rest, endErr = EOF\<rparr>" "cDatabases c1 = cDatabases c"
    using c0 by (simp_all add: c1_def syncSucceeded_def)
  moreover have fol: "follows c1 (stCurrentDB st s', view s')" using full c0 by (simp add: follows_def c1_def syncSucceeded_def)
  obtain c2 where "streamCommands U st clock 0 c1 = Some (ConnectionClosed, c2)"
      "follows c2 (masterRun clock 0 ws (stCurrentDB st s', view s'))"
    using stream_law [OF fol, of ws U clock 0 0] writes c1 by (auto simp: streamCommands_fresh)
  moreover have "masterRun clock 0 ws (stCurrentDB st s', view s') = masterRun clock 0 ws (0, view s')"
    using writes(2) by simp
  moreover have "InitialSyncCompleted c1" "replID c1 = rid" "replOffset c1 = off"
    using c0 by (simp_all add: c1_def syncSucceeded_def)
  ultimately show ?thesis unfolding full(4) by metis
qed

end


definition demoSession :: "memstore client" where
  "demoSession = \<lparr>cStorage = demo,
     cReader = \<lparr>pending = sessionBytes ''a1'' 5 (encFile ''0011'' [SelectItem 0, Entry None ''k'' ''v''] [])
       [MSelect 0, MSet ''x'' ''y'', MDel [''a'']], endErr = EOF\<rparr>,
     cWriter = \<lparr>written = [], werr = None\<rparr>, masterPassword = [], replID = [], replOffset = 0, commandFilters = [],
     cDatabases = [], CommandsProcessed = 0, ReplicationOffset = 0, InitialSyncCompleted = False,
     InitialSyncProgress = 0, LastSyncTime = 0, syncing = False, syncCallbacks = 0, cMetrics = None\<rparr>"

lemma demoSession_premises:
  defines "F \<equiv> encFile ''0011'' [SelectItem 0, Entry None ''k'' ''v''] []" and "W \<equiv> [MSelect 0, MSet ''x'' ''y'', MDel [''a'']]"
  shows "store_inv (\<lambda>_. 0) (cStorage demoSession)" "memoryLimit (cStorage demoSession) \<le> 0"
    "currentDB (cStorage demoSession) = 0" "werr (cWriter demoSession) = None" "commandFilters demoSession = []" "\<not> syncing demoSession"
    "cReader demoSession = \<lparr>pending = sessionBytes ''a1'' 5 F W, endErr = EOF\<rparr>"
    "''a1'' \<noteq> []" "isASCII ''a1''" "\<forall>x \<in> set ''a1''. \<not> isSpace x" "in_int64 5"
    "F = encFile ''0011'' [SelectItem 0, Entry None ''k'' ''v''] []" "int (length F) \<le> maxBulkSize"
    "length ''0011'' = 4" "ParseInt ''0011'' = Some 11" "(11 :: int) \<le> 12"
    "list_all writable_item [SelectItem 0, Entry None ''k'' ''v'']"
    "list_all (loadable_item (cDatabases demoSession)) [SelectItem 0, Entry None ''k'' ''v'']"
    "list_all (in_scope (cDatabases demoSession)) W" "W = MSelect 0 # [MSet ''x'' ''y'', MDel [''a'']]"
proof -
  show "int (length F) \<le> maxBulkSize" "ParseInt ''0011'' = Some 11" unfolding F_def by code_simp+
qed (use demo_inv in \<open>simp_all add: demoSession_def F_def W_def isASCII_def isSpace_def in_int64_def int64_bounds in_scope_def
    command_ok_def allowedDB_def FormatInt_def\<close>)


section \<open>Any stream\<close>

context storage_laws
begin

lemma executeCommand_safe: "inv s \<Longrightarrow> \<exists>e s'. executeCommand st now cmd s = Some (e, s') \<and> inv s'"
proof -
  assume inv: "inv s"
  show ?thesis
    using set_safe [OF inv] del_law [OF inv, of "cmdArgs cmd"] select_total [OF inv] inv
    by (fastforce simp: executeCommand_def Let_def split: option.split)
qed

lemma processCommand_safe:
  assumes "inv (cStorage c)"
  shows "\<exists>e c'. processCommand U st now v c = Some (e, c') \<and> inv (cStorage c')"
proof (cases "ParseCommand U v")
  case (Inr cmd)
  obtain e s' where "executeCommand st now cmd (cStorage c) = Some (e, s')" "inv s'"
    using executeCommand_safe [OF assms] by blast
  then show ?thesis using assms Inr by (cases e) (auto simp: processCommand_def)
qed (use assms in \<open>simp add: processCommand_def\<close>)

lemma streamLoop_safe:
  "st' = st \<Longrightarrow> inv (cStorage c) \<Longrightarrow> \<exists>e c'. streamLoop U st' clock t n c = Some (e, c') \<and> inv (cStorage c')"
proof (induction U st' clock t n c rule: streamLoop.induct)
  case (1 U st' clock t n c)
  obtain x r where read: "ReadNext (cReader c) = (x, r)" by (cases "ReadNext (cReader c)")
  show ?case
  proof (cases x)
    case (Inl err)
    have "inv (cStorage (c\<lparr>cReader := r\<rparr>))" using "1.prems" by simp
    with "1.IH"(1) [OF read [symmetric] Inl refl _ _ _ _ "1.prems"(1)] show ?thesis
      by (subst streamLoop.simps) (simp add: read Inl Let_def)
  next
    case (Inr v)
    obtain e c' where c': "processCommand U st' (clock t) v (c\<lparr>cReader := r\<rparr>) = Some (e, c')" "inv (cStorage c')"
      using processCommand_safe [of "c\<lparr>cReader := r\<rparr>"] "1.prems" by force
    from "1.IH"(2) [OF read [symmetric] Inr c'(1) refl "1.prems"(1) c'(2)] show ?thesis
      by (subst streamLoop.simps) (simp add: read Inr c'(1))
  qed
qed

text \<open>A \<^verbatim>\<open>SELECT\<close> of a database outside the filter is dropped, and what follows is taken for the old database.\<close>

lemma stream_skips_select:
  assumes "follows c x" and "list_all (in_scope (cDatabases c)) ws" and "allowedDB (cDatabases c) (fst x)"
    and "\<not> allowedDB (cDatabases c) (int d)" and "command_ok (commandOf (MSelect d))" and "in_int64 (int d)"
    and "cReader c = \<lparr>pending = concat (map commandWire (MSelect d # ws)), endErr = EOF\<rparr>"
  shows "\<exists>c'. streamLoop U st clock t n c = Some (ConnectionClosed, c') \<and> follows c' (masterRun clock (t + 1) ws x)"
proof -
  let ?v = "ArrayV (map BulkV (fst (commandOf (MSelect d)) # snd (commandOf (MSelect d))))"
  define r where "r = \<lparr>pending = concat (map commandWire ws), endErr = EOF\<rparr>"
  have read: "ReadNext (cReader c) = (Inr ?v, r)"
    using read_commandWire [OF assms(5)] assms(7) by (simp add: r_def)
  have "skippedSelect (cDatabases c) \<lparr>cmdName = ''SELECT'', cmdArgs = [FormatInt (int d)]\<rparr>"
    using assms(4,6) by (simp add: skippedSelect_def ParseInt_FormatInt allowedDB_def)
  then have skip: "processCommand U st (clock t) ?v (c\<lparr>cReader := r\<rparr>) = Some (None, c\<lparr>cReader := r\<rparr>)"
    using parse_command [of U "MSelect d"] assms(1) by (simp add: processCommand_def follows_def)
  have "follows (c\<lparr>cReader := r\<rparr>) x" using assms(1) by (auto simp: follows_def)
  from stream_law [OF this, of ws U clock "t + 1" 0] assms(2,3) entersScope_allowed [of "cDatabases c" "fst x" ws] read skip
  show ?thesis by (subst streamLoop.simps) (simp add: r_def)
qed

end

text \<open>
  Whatever bytes arrive after the synchronisation, the stream loop ends with an error that makes the
  client reconnect; no value on the stream makes the in-memory store panic, and its invariant survives, with or
  without a memory limit, and whatever was lost in the old reader's buffer.
\<close>

theorem stream_survives_any_bytes:
  assumes "store_inv H (cStorage c)"
  shows "\<exists>e c'. streamCommands U (memoryStorage H ords cfg) clock buffered c = Some (e, c') \<and> store_inv H (cStorage c')"
  using mem.streamLoop_safe [OF refl] assms by (simp add: streamCommands_def freshReader_def)

theorem stream_survives_any_bytes_witness:
  "\<exists>e c'. streamCommands (\<lambda>s. s) (memoryStorage (\<lambda>_. 0) plainOrders globalMatchingConfig) (\<lambda>_. 1) 7 demoSession = Some (e, c') \<and>
     store_inv (\<lambda>_. 0) (cStorage c')"
  by (rule stream_survives_any_bytes) (simp add: demoSession_def demo_inv)

text \<open>
  With a database filter the stream writes into the wrong database. A \<^verbatim>\<open>SELECT\<close> of a database that is not
  replicated is skipped, so the store stays in the database selected before; the writes that follow, which the
  master made in the other database, are applied there.
\<close>

theorem filtered_select_misroutes:
  assumes "store_inv H (cStorage c)" and "memoryLimit (cStorage c) \<le> 0" and "commandFilters c = []"
    and "list_all (in_scope (cDatabases c)) ws" and "allowedDB (cDatabases c) (currentDB (cStorage c))"
    and "\<not> allowedDB (cDatabases c) (int d)" and "command_ok (commandOf (MSelect d))" and "in_int64 (int d)"
    and "cReader c = \<lparr>pending = concat (map commandWire (MSelect d # ws)), endErr = EOF\<rparr>"
  shows "\<exists>c'. streamCommands U (memoryStorage H ords cfg) clock 0 c = Some (ConnectionClosed, c') \<and>
    (currentDB (cStorage c'), contents (cStorage c')) = masterRun clock 1 ws (currentDB (cStorage c), contents (cStorage c))"
proof -
  have "mem.follows H ords cfg c (currentDB (cStorage c), contents (cStorage c))"
    using assms(1-3) by (simp add: mem.follows_def)
  from mem.stream_skips_select [OF this assms(4) _ assms(6-9), of U clock 0 0] assms(5) show ?thesis
    by (auto simp: streamCommands_fresh mem.follows_def)
qed

theorem filtered_select_misroutes_witness:
  "\<exists>c'. streamCommands (\<lambda>s. s) (memoryStorage (\<lambda>_. 0) plainOrders globalMatchingConfig) (\<lambda>t. 2) 0 (demoSession\<lparr>cDatabases := [0],
       cReader := \<lparr>pending = concat (map commandWire [MSelect 1, MSet ''x'' ''y'']), endErr = EOF\<rparr>\<rparr>) = Some (ConnectionClosed, c') \<and>
     contents (cStorage c') 0 ''x'' = Some (stored 2 ''y'' None) \<and>
     snd (masterRun (\<lambda>t. 2) 0 [MSelect 1, MSet ''x'' ''y''] (0, contents demo)) 0 ''x'' = None"
proof -
  let ?c = "demoSession\<lparr>cDatabases := [0], cReader := \<lparr>pending = concat (map commandWire [MSelect 1, MSet ''x'' ''y'']), endErr = EOF\<rparr>\<rparr>"
  have "list_all (in_scope (cDatabases ?c)) [MSet ''x'' ''y'']" "command_ok (commandOf (MSelect 1))"
    by (simp_all add: in_scope_def command_ok_def FormatInt_def)
  then have "\<exists>c'. streamCommands (\<lambda>s. s) (memoryStorage (\<lambda>_. 0) plainOrders globalMatchingConfig) (\<lambda>t. 2) 0 ?c = Some (ConnectionClosed, c') \<and>
      (currentDB (cStorage c'), contents (cStorage c')) =
        masterRun (\<lambda>t. 2) 1 [MSet ''x'' ''y''] (currentDB (cStorage ?c), contents (cStorage ?c))"
    by (intro filtered_select_misroutes [where d = 1])
      (simp_all add: demoSession_def demo_inv allowedDB_def in_int64_def int64_bounds)
  then show ?thesis by (auto simp: demoSession_def upd_apply demo_contents)
qed

end
