(* ===== verification/Repl_Run.thy ===== *)
theory Repl_Run
  imports Repl_Correct
begin

text \<open>
  The life of the replication client (\<^verbatim>\<open>src/replication/client.go\<close>): its settings, the connection to the
  master, the loop of \<^verbatim>\<open>run\<close> that connects, synchronises and streams until it is stopped, the statistics and
  the heartbeat. A node is the client of \<open>Repl_Client\<close> with the rest of its fields. The network is a
  list with the outcome of each attempt to dial; when it is used up the stop channel is closed. Waiting
  times between attempts are left out.
\<close>

section \<open>State and settings\<close>

type_synonym duration = int

record tlsConfig =
  tlsServerName :: string
  tlsInsecureSkipVerify :: bool
  tlsMinVersion :: "16 word"
  tlsCipherSuites :: "16 word list"

record 's node =
  nClient :: "'s client"
  masterAddr :: string
  nTLS :: "tlsConfig option"
  syncTimeout :: duration
  connectTimeout :: duration
  readTimeout :: duration
  writeTimeout :: duration
  heartbeatInterval :: duration
  connected :: bool
  statConnected :: bool
  ReconnectCount :: int
  stopped :: bool
  stopClosed :: bool
  runEnded :: bool
  doneClosed :: bool
  heartbeatFailures :: int
  maxHeartbeatFailures :: int

text \<open>The zero \<^verbatim>\<open>time.Time\<close>, the first of January of the year 1, in nanoseconds from the epoch.\<close>

definition zeroTime :: int where "zeroTime = - 62135596800 * Second"

definition NewClient :: "string \<Rightarrow> 's \<Rightarrow> reader \<Rightarrow> writer \<Rightarrow> 's node" where
  "NewClient addr stor r w =
     \<lparr>nClient = \<lparr>cStorage = stor, cReader = r, cWriter = w, masterPassword = [], replID = [], replOffset = 0,
        commandFilters = [], cDatabases = [], CommandsProcessed = 0, ReplicationOffset = 0,
        InitialSyncCompleted = False, InitialSyncProgress = 0, LastSyncTime = zeroTime, syncing = False, syncCallbacks = 0,
        cMetrics = None\<rparr>,
      masterAddr = addr, nTLS = None, syncTimeout = 30 * Second, connectTimeout = 5 * Second, readTimeout = 30 * Second,
      writeTimeout = 10 * Second, heartbeatInterval = 10 * Second, connected = False, statConnected = False, ReconnectCount = 0,
      stopped = False, stopClosed = False, runEnded = False, doneClosed = False, heartbeatFailures = 0,
      maxHeartbeatFailures = 3\<rparr>"

definition onClient :: "('s client \<Rightarrow> 's client) \<Rightarrow> 's node \<Rightarrow> 's node" where
  "onClient f n = n\<lparr>nClient := f (nClient n)\<rparr>"

definition SetAuth :: "string \<Rightarrow> 's node \<Rightarrow> 's node" where
  "SetAuth pw = onClient (\<lambda>c. c\<lparr>masterPassword := pw\<rparr>)"

definition SetMetrics :: "'s node \<Rightarrow> 's node" where
  "SetMetrics = onClient (\<lambda>c. c\<lparr>cMetrics := Some []\<rparr>)"

definition SetTLS :: "tlsConfig option \<Rightarrow> 's node \<Rightarrow> 's node" where
  "SetTLS cfg n = n\<lparr>nTLS := cfg\<rparr>"

definition SetSyncTimeout :: "duration \<Rightarrow> 's node \<Rightarrow> 's node" where
  "SetSyncTimeout t n = n\<lparr>syncTimeout := t\<rparr>"

definition SetConnectTimeout :: "duration \<Rightarrow> 's node \<Rightarrow> 's node" where
  "SetConnectTimeout t n = n\<lparr>connectTimeout := t\<rparr>"

definition SetReadTimeout :: "duration \<Rightarrow> 's node \<Rightarrow> 's node" where
  "SetReadTimeout t n = n\<lparr>readTimeout := t\<rparr>"

definition SetWriteTimeout :: "duration \<Rightarrow> 's node \<Rightarrow> 's node" where
  "SetWriteTimeout t n = n\<lparr>writeTimeout := t\<rparr>"

definition SetHeartbeatInterval :: "duration \<Rightarrow> 's node \<Rightarrow> 's node" where
  "SetHeartbeatInterval t n = n\<lparr>heartbeatInterval := (if t > 0 then t else if t = 0 then 10 * Second else - 1)\<rparr>"

section \<open>Connection\<close>

text \<open>
  What dialling gives: an error, or a connection with the errors of setting its deadlines (for the
  handshake, for the stream, for a heartbeat), the bytes the master will send on it, a writer, and how many of
  the bytes the first reader has already taken when the stream begins.
\<close>

record netconn =
  readDeadlineErr :: "string option"
  writeDeadlineErr :: "string option"
  streamDeadlineErr :: "string option"
  ackDeadlineErr :: "string option"
  connReader :: reader
  connWriter :: writer
  connBuffered :: nat

datatype timeouterror = ReadTooSmall duration | ReadTooLarge duration | ReadDeadline string
  | WriteTooSmall duration | WriteTooLarge duration | WriteDeadline string

datatype connecterror = DialFailed string | TimeoutsFailed timeouterror | AuthenticationFailed clienterror

definition setConnectionTimeouts :: "netconn \<Rightarrow> 's node \<Rightarrow> timeouterror option" where
  "setConnectionTimeouts conn n =
     (if readTimeout n > 0 \<and> readTimeout n < Millisecond then Some (ReadTooSmall (readTimeout n))
      else if readTimeout n > 0 \<and> readTimeout n > 24 * 3600 * Second then Some (ReadTooLarge (readTimeout n))
      else if readTimeout n > 0 \<and> readDeadlineErr conn \<noteq> None then map_option ReadDeadline (readDeadlineErr conn)
      else if writeTimeout n > 0 \<and> writeTimeout n < Millisecond then Some (WriteTooSmall (writeTimeout n))
      else if writeTimeout n > 0 \<and> writeTimeout n > 24 * 3600 * Second then Some (WriteTooLarge (writeTimeout n))
      else if writeTimeout n > 0 then map_option WriteDeadline (writeDeadlineErr conn)
      else None)"

definition disconnect :: "'s node \<Rightarrow> 's node" where
  "disconnect n = n\<lparr>connected := False, statConnected := False\<rparr>"

definition connectSucceeded :: "'s node \<Rightarrow> 's node" where
  "connectSucceeded n =
     onClient (recordMetric MetricReconnection) (n\<lparr>statConnected := True, ReconnectCount := ReconnectCount n + 1\<rparr>)"

definition connect :: "(string + netconn) \<Rightarrow> 's node \<Rightarrow> connecterror option \<times> 's node" where
  "connect dial n =
     (case dial of
        Inl e \<Rightarrow> (Some (DialFailed e), n)
      | Inr conn \<Rightarrow>
          (case setConnectionTimeouts conn n of
             Some e \<Rightarrow> (Some (TimeoutsFailed e), n)
           | None \<Rightarrow>
               (let n = n\<lparr>nClient := (nClient n)\<lparr>cReader := connReader conn, cWriter := connWriter conn\<rparr>, connected := True\<rparr> in
                if masterPassword (nClient n) \<noteq> [] then
                  (case authenticate (nClient n) of
                     (Some e, c) \<Rightarrow> (Some (AuthenticationFailed e), disconnect (n\<lparr>nClient := c\<rparr>))
                   | (None, c) \<Rightarrow> (None, connectSucceeded (n\<lparr>nClient := c\<rparr>)))
                else (None, connectSucceeded n))))"

section \<open>The replication loop\<close>

text \<open>The stream begins with a new heartbeat, whose ticks are below.\<close>

definition startHeartbeat :: "'s node \<Rightarrow> 's node" where
  "startHeartbeat n = (if heartbeatInterval n \<le> 0 then n else n\<lparr>heartbeatFailures := 0\<rparr>)"

text \<open>One turn of the loop of \<^verbatim>\<open>run\<close> on the given attempt to dial; \<open>now\<close> is the time of the synchronisation.\<close>

definition runOnce ::
  "(string \<Rightarrow> string) \<Rightarrow> (string \<Rightarrow> string list) \<Rightarrow> 's Storage \<Rightarrow> int \<Rightarrow> (nat \<Rightarrow> int) \<Rightarrow> (string + netconn) \<Rightarrow> 's node \<Rightarrow> 's node option"
where
  "runOnce U F st now clock dial n =
     (case connect dial n of
        (Some err, n) \<Rightarrow> Some (onClient (recordMetricError ''connection'') n)
      | (None, n) \<Rightarrow>
          (case performSync F st now (nClient n) of
             None \<Rightarrow> None
           | Some (Some err, c) \<Rightarrow> Some (disconnect (n\<lparr>nClient := recordMetricError ''sync'' c\<rparr>))
           | Some (None, c) \<Rightarrow>
               (let n = n\<lparr>nClient := c\<rparr>; conn = projr dial in
                if streamDeadlineErr conn \<noteq> None
                then Some (disconnect (onClient (recordMetricError ''streaming'' \<circ> freshReader (connBuffered conn)) n))
                else let n = startHeartbeat n in
                  case streamCommands U st clock (connBuffered conn) (nClient n) of
                    None \<Rightarrow> None
                  | Some (err, c) \<Rightarrow> Some (disconnect (n\<lparr>nClient := recordMetricError ''streaming'' c\<rparr>)))))"

fun runLoop ::
  "(string \<Rightarrow> string) \<Rightarrow> (string \<Rightarrow> string list) \<Rightarrow> 's Storage \<Rightarrow> (nat \<Rightarrow> int) \<Rightarrow> (nat \<Rightarrow> nat \<Rightarrow> int) \<Rightarrow> nat \<Rightarrow> (string + netconn) list
     \<Rightarrow> 's node \<Rightarrow> 's node option"
where
  "runLoop U F st now clock i [] n = Some (disconnect n)"
| "runLoop U F st now clock i (dial # dials) n =
     (case runOnce U F st (now i) (clock i) dial n of
        None \<Rightarrow> None
      | Some n' \<Rightarrow> runLoop U F st now clock (i + 1) dials n')"

definition finishRun :: "'s node \<Rightarrow> 's node" where
  "finishRun n = (if runEnded n then n else n\<lparr>runEnded := True, doneClosed := True\<rparr>)"

definition run ::
  "(string \<Rightarrow> string) \<Rightarrow> (string \<Rightarrow> string list) \<Rightarrow> 's Storage \<Rightarrow> (nat \<Rightarrow> int) \<Rightarrow> (nat \<Rightarrow> nat \<Rightarrow> int) \<Rightarrow> (string + netconn) list
     \<Rightarrow> 's node \<Rightarrow> 's node option"
where
  "run U F st now clock dials n = map_option finishRun (runLoop U F st now clock 0 dials n)"

section \<open>Stopping\<close>

text \<open>
  \<^verbatim>\<open>Stop\<close> closes the stop channel once and waits for the loop to end; \<open>ends\<close> says whether it ends within five
  seconds. A client whose loop was never started does not.
\<close>

definition Stop :: "('s node \<Rightarrow> bool) \<Rightarrow> 's node \<Rightarrow> string option \<times> 's node" where
  "Stop ends n =
     (if stopped n then (None, n)
      else let n = disconnect (n\<lparr>stopped := True, stopClosed := True\<rparr>) in
        if doneClosed n \<or> ends n then (None, n) else (Some ''stop timeout'', n))"

section \<open>Heartbeat\<close>

datatype ackerror = NotConnected | AckDeadline string | AckWrite writeerror | AckFlush writeerror

definition ackerror_text :: "(writeerror \<Rightarrow> string) \<Rightarrow> ackerror \<Rightarrow> string" where
  "ackerror_text wtext e = (case e of
      NotConnected \<Rightarrow> ''not connected''
    | AckDeadline m \<Rightarrow> ''failed to set write deadline for REPLCONF ACK: '' @ m
    | AckWrite w \<Rightarrow> ''failed to write REPLCONF ACK: '' @ wtext w
    | AckFlush w \<Rightarrow> ''failed to flush REPLCONF ACK: '' @ wtext w)"

definition sendReplconfACK :: "netconn \<Rightarrow> 's node \<Rightarrow> ackerror option \<times> 's node" where
  "sendReplconfACK conn n =
     (if \<not> connected n then (Some NotConnected, n)
      else if writeTimeout n > 0 \<and> ackDeadlineErr conn \<noteq> None then (map_option AckDeadline (ackDeadlineErr conn), n)
      else case WriteCommand ''REPLCONF'' [''ACK'', FormatInt (replOffset (nClient n))] (cWriter (nClient n)) of
          (Some err, w) \<Rightarrow> (Some (AckWrite err), onClient (\<lambda>c. c\<lparr>cWriter := w\<rparr>) n)
        | (None, w) \<Rightarrow> (case Flush w of (err, w) \<Rightarrow> (map_option AckFlush err, onClient (\<lambda>c. c\<lparr>cWriter := w\<rparr>) n)))"

text \<open>What a tick of the heartbeat's timer does; errors are only counted.\<close>

definition heartbeatTick :: "(writeerror \<Rightarrow> string) \<Rightarrow> netconn \<Rightarrow> 's node \<Rightarrow> 's node" where
  "heartbeatTick wtext conn n =
     (case sendReplconfACK conn n of
        (None, n) \<Rightarrow> n\<lparr>heartbeatFailures := 0\<rparr>
      | (Some e, n) \<Rightarrow>
          (let n = n\<lparr>heartbeatFailures := heartbeatFailures n + 1\<rparr>; errStr = ackerror_text wtext e in
           if Contains errStr ''not connected'' \<or> Contains errStr ''connection closed'' \<or> Contains errStr ''broken pipe''
           then n\<lparr>heartbeatFailures := 0\<rparr> else n))"

end
