(* ===== verification/Rdb_Safety.thy ===== *)
theory Rdb_Safety
  imports Rdb_Load
begin

text \<open>
  The parser (\<^verbatim>\<open>src/replication/rdb.go\<close>) on any bytes whatever: it touches its handler through the callbacks only,
  so what every callback keeps, parsing keeps; and the storage handler
  (\<^verbatim>\<open>rdbStorageHandler\<close> in \<^verbatim>\<open>src/replication/client.go\<close>) keeps the invariant of the store.
\<close>

section \<open>What the callbacks keep\<close>

locale handler_invariant =
  fixes hnd :: "'h RDBHandler" and P :: "'h \<Rightarrow> bool"
  assumes database: "P h \<Longrightarrow> P (snd (OnDatabase hnd d h))"
    and key: "P h \<Longrightarrow> P (snd (OnKey hnd k v x h))"
    and aux: "P h \<Longrightarrow> P (snd (OnAux hnd k w h))"
    and stop: "P h \<Longrightarrow> P (snd (OnEnd hnd h))"
    and resize: "OnResizeDB hnd = Some f \<Longrightarrow> P h \<Longrightarrow> P (snd (f a b h))"
begin

lemma handled_keeps: "handled r x p = (out, h', p') \<Longrightarrow> h' = snd r"
  by (auto simp: handled_def split: prod.splits option.splits)

lemma readAuxField_keeps: "P h \<Longrightarrow> readAuxField hnd h p = (e, h', p') \<Longrightarrow> P h'"
  using aux by (auto simp: readAuxField_def split: prod.splits sum.splits) (metis snd_conv)

lemma readKeyValue_keeps: "P h \<Longrightarrow> readKeyValue hnd t x h p = (e, h', p') \<Longrightarrow> P h'"
  using key by (auto simp: readKeyValue_def split: prod.splits sum.splits option.splits) (metis snd_conv)

lemma parseStep_keeps:
  assumes "P h" and step: "parseStep hnd opcode x h p = (out, h', p')"
  shows "P h'"
proof -
  have aux_case: "P h1" if "readAuxField hnd h p = (e, h1, p1)" for e h1 p1
    using readAuxField_keeps [OF assms(1) that] .
  have key_case: "P h1" if "readKeyValue hnd opcode x h p = (e, h1, p1)" for e h1 p1
    using readKeyValue_keeps [OF assms(1) that] .
  show ?thesis
    using step assms(1) database [OF assms(1)] resize [OF _ assms(1)] unfolding parseStep_def
    by (auto split: if_split_asm prod.split_asm sum.split_asm option.split_asm dest!: handled_keeps dest: aux_case key_case)
qed

lemma finish_keeps: "P h \<Longrightarrow> finish hnd h p = (e, h', p') \<Longrightarrow> P h'"
  using stop by (auto simp: finish_def split: prod.splits) (metis snd_conv)

lemma parseLoop_keeps: "hnd' = hnd \<Longrightarrow> P h \<Longrightarrow> parseLoop hnd' x h p = (e, h', p') \<Longrightarrow> P h'"
proof (induction hnd' x h p rule: parseLoop.induct)
  case (1 hnd' x h p)
  obtain a r where read: "ReadByte (br p) = (a, r)" by (cases "ReadByte (br p)")
  show ?case
  proof (cases a)
    case (Inl err)
    show ?thesis
    proof (cases "err = EOF")
      case True
      with "1.prems" read Inl show ?thesis by (subst (asm) parseLoop.simps) (auto dest: finish_keeps)
    next
      case False
      obtain out p1 where tol: "tolerate (Wrapped ''failed to read opcode'' (RdbIO err)) x (p\<lparr>br := r\<rparr>) = (out, p1)"
        by (cases "tolerate (Wrapped ''failed to read opcode'' (RdbIO err)) x (p\<lparr>br := r\<rparr>)")
      with "1.prems" read Inl False "1.IH"(1) [OF read [symmetric] Inl False tol [symmetric]] show ?thesis
        by (auto simp: parseLoop.simps [of hnd x h p] split: outcome.splits)
    qed
  next
    case (Inr c)
    show ?thesis
    proof (cases "byte_val c = 255")
      case True
      with "1.prems" read Inr show ?thesis by (subst (asm) parseLoop.simps) (auto dest: finish_keeps)
    next
      case False
      obtain out h1 p1 where step: "parseStep hnd' (byte_val c) x h (p\<lparr>br := r\<rparr>) = (out, h1, p1)"
        by (cases "parseStep hnd' (byte_val c) x h (p\<lparr>br := r\<rparr>)")
      with parseStep_keeps "1.prems"(1,2) have "P h1" by blast
      with "1.prems" read Inr False step "1.IH"(2) [OF read [symmetric] Inr False step [symmetric] _ refl] show ?thesis
        by (auto simp: parseLoop.simps [of hnd x h p] split: outcome.splits)
    qed
  qed
qed

lemma ParseRDB_keeps: "P h \<Longrightarrow> ParseRDB r hnd h = (e, h') \<Longrightarrow> P h'"
  by (auto simp: ParseRDB_def Parse_def split: prod.splits sum.splits if_splits option.splits dest: parseLoop_keeps [OF refl])

end

section \<open>The storage handler\<close>

text \<open>No operation of the storage has panicked, and the store is as it should be.\<close>

context storage_laws
begin

definition loading :: "'s rdbStorageHandler \<Rightarrow> bool" where
  "loading h \<longleftrightarrow> (\<exists>s. hstore h = Some s \<and> inv s)"

lemma flushEntries_safe: "inv s \<Longrightarrow> \<exists>s' stats'. flushEntries st now db es (Some s) stats = (Some s', stats') \<and> inv s'"
proof (induction es arbitrary: s stats)
  case (Cons e es)
  obtain k v x where e: "e = (k, v, x)" by (cases e)
  obtain err s1 where s1: "stSet st now k v x s = Some (err, s1)" "inv s1" using set_safe [OF Cons.prems, of now k v x] by blast
  show ?case using Cons.IH [OF s1(2)] s1(1) by (simp add: e)
qed simp

lemma flushBatch_safe: "loading h \<Longrightarrow> loading (flushBatch st now h)"
proof -
  assume "loading h"
  then obtain s where s: "hstore h = Some s" "inv s" by (auto simp: loading_def)
  obtain s' stats' where "flushEntries st now (hcurrentDB h) (zip (keyBatch h) (zip (valueBatch h) (expiryBatch h))) (Some s) (hstats h) = (Some s', stats')"
      "inv s'" using flushEntries_safe [OF s(2)] by blast
  then show ?thesis using s by (simp add: flushBatch_def loading_def)
qed

lemma loading_fields [simp]:
  "loading (h\<lparr>hcurrentDB := d\<rparr>) = loading h" "loading (h\<lparr>hstats := t\<rparr>) = loading h"
  "loading (h\<lparr>keyBatch := ks, valueBatch := vs, expiryBatch := xs\<rparr>) = loading h"
  by (simp_all add: loading_def)

lemma handlerOnDatabase_safe: "loading h \<Longrightarrow> loading (snd (handlerOnDatabase st now d h))"
proof -
  assume "loading h"
  then have "loading (flushBatch st now h)" by (rule flushBatch_safe)
  then obtain s where s: "hstore (flushBatch st now h) = Some s" "inv s" by (auto simp: loading_def)
  obtain err s' where "stSelectDB st d s = Some (err, s')" "inv s'" using select_total [OF s(2), of d] by blast
  with s show ?thesis by (simp add: handlerOnDatabase_def Let_def loading_def)
qed

lemma handlerOnKey_safe: "loading h \<Longrightarrow> loading (snd (handlerOnKey st now k v x h))"
  by (cases v) (simp_all add: handlerOnKey_def Let_def flushBatch_safe)

lemma storage_handler: "handler_invariant (storageHandler st now) loading"
  by unfold_locales
    (auto simp: storageHandler_def handlerOnDatabase_safe handlerOnKey_safe handlerOnAux_def handlerOnEnd_def flushBatch_safe
      handlerOnResizeDB_def)

end

interpretation mem_handler: handler_invariant "storageHandler (memoryStorage H ords cfg) now" "mem.loading H"
  for H ords cfg now
  by (rule mem.storage_handler)

text \<open>
  Claim C21: whatever bytes come as a snapshot, loading them into the in-memory store returns, no operation of the
  store panics on the way, and the invariant of the store holds afterwards, also when parsing ends with an error.
\<close>

theorem any_snapshot_is_safe:
  assumes "store_inv H s"
  shows "\<exists>e h s'. ParseRDB r (storageHandler (memoryStorage H ords cfg) now) (newRDBStorageHandler s dbs) = (e, h) \<and>
    hstore h = Some s' \<and> store_inv H s'"
proof -
  obtain e h where parse: "ParseRDB r (storageHandler (memoryStorage H ords cfg) now) (newRDBStorageHandler s dbs) = (e, h)"
    by (cases "ParseRDB r (storageHandler (memoryStorage H ords cfg) now) (newRDBStorageHandler s dbs)")
  have "mem.loading H (newRDBStorageHandler s dbs)" using assms by (simp add: mem.loading_def newRDBStorageHandler_def)
  from mem_handler.ParseRDB_keeps [OF this parse] show ?thesis using parse by (auto simp: mem.loading_def)
qed

theorem any_snapshot_is_safe_witness:
  "\<exists>e h s'. ParseRDB \<lparr>pending = ''REDIS0011'' @ [CHR 0xFE, CHR 0xFF], endErr = EOF\<rparr>
     (storageHandler (memoryStorage (\<lambda>_. 0) plainOrders globalMatchingConfig) 1) (newRDBStorageHandler demo []) = (e, h) \<and>
     hstore h = Some s' \<and> store_inv (\<lambda>_. 0) s'"
  by (rule any_snapshot_is_safe [OF demo_inv])

end
