(* ===== verification/Repl_Reconnect.thy ===== *)
theory Repl_Reconnect
  imports Repl_Run Rdb_Safety
begin

text \<open>
  What the replication loop achieves over many connections: it survives every master and every network, and
  a replica that loses its connection and asks for the rest catches up.
\<close>

section \<open>Any master\<close>

context storage_laws
begin

lemma performFullSync_safe:
  assumes "inv (cStorage c)"
  shows "\<exists>e c'. performFullSync st now c = Some (e, c') \<and> inv (cStorage c')"
proof -
  obtain x r chunks where read: "ReadBulkStringForReplication collect (cReader c) [] = (x, r, chunks)"
    by (cases "ReadBulkStringForReplication collect (cReader c) []")
  obtain err h where parse: "ParseRDB (snapshotStream chunks) (storageHandler st now) (newRDBStorageHandler (cStorage c) (cDatabases c)) = (err, h)"
    by (cases "ParseRDB (snapshotStream chunks) (storageHandler st now) (newRDBStorageHandler (cStorage c) (cDatabases c))")
  have "loading (newRDBStorageHandler (cStorage c) (cDatabases c))" using assms by (simp add: loading_def newRDBStorageHandler_def)
  then have "loading h" using handler_invariant.ParseRDB_keeps [OF storage_handler _ parse] by blast
  then show ?thesis using read parse assms by (cases x) (auto simp: performFullSync_def loading_def)
qed

lemma synchronise_safe:
  assumes "inv (cStorage c)"
  shows "\<exists>e c'. synchronise F st now c = Some (e, c') \<and> inv (cStorage c')"
proof -
  obtain e w where send: "sendPSYNC c = (e, c\<lparr>cWriter := w\<rparr>)"
    by (cases "wseq (WriteCommand ''PSYNC'' (if replID c \<noteq> [] \<and> replOffset c > 0
      then [replID c, FormatInt (replOffset c)] else [''?'', ''-1''])) Flush (cWriter c)") (auto simp: sendPSYNC_def Let_def)
  obtain x r where read: "ReadNext (cReader c) = (x, r)" by (cases "ReadNext (cReader c)")
  have full: "\<exists>e c'. performFullSync st now c0 = Some (e, c') \<and> inv (cStorage c')" if "cStorage c0 = cStorage c" for c0
    using performFullSync_safe [of c0] assms that by simp
  show ?thesis
  proof (cases "e = None \<and> (\<exists>v. x = Inr v \<and> \<not> valueIsError v)")
    case True
    then obtain v where v: "x = Inr v" "\<not> valueIsError v" "e = None" by blast
    let ?parts = "Fields F (valueString v)"
    show ?thesis
    proof (cases "?parts \<noteq> [] \<and> hd ?parts = ''FULLRESYNC'' \<and> 3 \<le> length ?parts \<and> Atoi (?parts ! 2) \<noteq> None")
      case True
      then obtain off where off: "Atoi (?parts ! 2) = Some off" by blast
      obtain e1 c1 where c1: "performFullSync st now (c\<lparr>cWriter := w, cReader := r, replID := ?parts ! 1, replOffset := off\<rparr>) = Some (e1, c1)"
          "inv (cStorage c1)"
        using full [of "c\<lparr>cWriter := w, cReader := r, replID := ?parts ! 1, replOffset := off\<rparr>"] by auto
      show ?thesis using send read v True off c1
        by (cases e1) (auto simp: synchronise_def syncSucceeded_def Let_def)
    qed (use send read v assms in \<open>auto simp: synchronise_def syncSucceeded_def Let_def not_less split: option.split\<close>)
  qed (use send read assms in \<open>cases e; cases x; auto simp: synchronise_def Let_def\<close>)
qed

lemma performSync_safe:
  assumes "inv (cStorage c)"
  shows "\<exists>e c'. performSync F st now c = Some (e, c') \<and> inv (cStorage c')"
proof -
  obtain e c' where "synchronise F st now (c\<lparr>syncing := True\<rparr>) = Some (e, c')" "inv (cStorage c')"
    using synchronise_safe [of "c\<lparr>syncing := True\<rparr>" F now] assms by auto
  with assms show ?thesis by (simp add: performSync_def)
qed

lemma connect_storage: "connect dial n = (e, n') \<Longrightarrow> cStorage (nClient n') = cStorage (nClient n)"
  by (auto simp: connect_def connectSucceeded_def onClient_def authenticate_def disconnect_def Let_def
      split: sum.splits option.splits if_splits prod.splits)

lemma startHeartbeat_client [simp]: "nClient (startHeartbeat n) = nClient n"
  by (simp add: startHeartbeat_def)

lemma disconnect_fields [simp]:
  "nClient (disconnect n) = nClient n" "connected (disconnect n) = False" "statConnected (disconnect n) = False"
  "runEnded (disconnect n) = runEnded n" "doneClosed (disconnect n) = doneClosed n"
  by (simp_all add: disconnect_def)

lemma streamCommands_safe:
  "inv (cStorage c) \<Longrightarrow> \<exists>e c'. streamCommands U st clock b c = Some (e, c') \<and> inv (cStorage c')"
  unfolding streamCommands_def by (rule streamLoop_safe [OF refl]) (simp add: freshReader_def)

lemma runOnce_safe:
  assumes "inv (cStorage (nClient n))"
  shows "\<exists>n'. runOnce U F st now clock dial n = Some n' \<and> inv (cStorage (nClient n'))"
proof -
  obtain e n1 where con: "connect dial n = (e, n1)" by (cases "connect dial n")
  have inv1: "inv (cStorage (nClient n1))" using connect_storage [OF con] assms by simp
  obtain e2 c2 where sync: "performSync F st now (nClient n1) = Some (e2, c2)" "inv (cStorage c2)"
    using performSync_safe [OF inv1] by blast
  obtain e3 c3 where "streamCommands U st clock (connBuffered (projr dial)) c2 = Some (e3, c3)" "inv (cStorage c3)"
    using streamCommands_safe [OF sync(2)] by blast
  then show ?thesis using con sync inv1
    by (cases e; cases e2) (auto simp: runOnce_def onClient_def recordMetricError_def freshReader_def Let_def)
qed

lemma runLoop_safe:
  "inv (cStorage (nClient n)) \<Longrightarrow> \<exists>n'. runLoop U F st now clock i dials n = Some n' \<and> inv (cStorage (nClient n')) \<and>
     \<not> connected n' \<and> \<not> statConnected n'"
proof (induction dials arbitrary: i n)
  case (Cons dial dials)
  obtain n1 where n1: "runOnce U F st (now i) (clock i) dial n = Some n1" "inv (cStorage (nClient n1))"
    using runOnce_safe [OF Cons.prems] by blast
  from Cons.IH [OF n1(2), of "i + 1"] n1(1) show ?case by simp
qed simp

end

lemma runOnce_life: "runOnce U F st now clock dial n = Some n' \<Longrightarrow> runEnded n' = runEnded n \<and> doneClosed n' = doneClosed n"
  by (auto simp: runOnce_def connect_def connectSucceeded_def onClient_def disconnect_def startHeartbeat_def Let_def
      split: prod.splits option.splits sum.splits if_splits)

lemma runLoop_life: "runLoop U F st now clock i dials n = Some n' \<Longrightarrow> runEnded n' = runEnded n \<and> doneClosed n' = doneClosed n"
  by (induction dials arbitrary: i n) (auto split: option.splits dest!: runOnce_life)

text \<open>
  Whatever the network and the masters do, over any number of connections, the replication loop neither
  panics nor damages the in-memory store; once stopped it ends disconnected, with the channel closed on which
  \<^verbatim>\<open>Stop\<close> waits.
\<close>

theorem replication_loop_survives:
  assumes "store_inv H (cStorage (nClient n))" and "runEnded n \<longrightarrow> doneClosed n"
  shows "\<exists>n'. run U F (memoryStorage H ords cfg) now clock dials n = Some n' \<and> store_inv H (cStorage (nClient n')) \<and>
    \<not> connected n' \<and> \<not> statConnected n' \<and> doneClosed n'"
proof -
  obtain n' where n': "runLoop U F (memoryStorage H ords cfg) now clock 0 dials n = Some n'" "store_inv H (cStorage (nClient n'))"
      "\<not> connected n'" "\<not> statConnected n'"
    using mem.runLoop_safe [OF assms(1)] by blast
  with runLoop_life [OF n'(1)] assms(2) show ?thesis by (intro exI [of _ "finishRun n'"]) (auto simp: run_def finishRun_def)
qed

definition demoNode :: "memstore node" where
  "demoNode = NewClient ''localhost:6379'' demo \<lparr>pending = [], endErr = EOF\<rparr> \<lparr>written = [], werr = None\<rparr>"

definition demoConn :: "bytes \<Rightarrow> netconn" where
  "demoConn input = \<lparr>readDeadlineErr = None, writeDeadlineErr = None, streamDeadlineErr = None, ackDeadlineErr = None,
     connReader = \<lparr>pending = input, endErr = EOF\<rparr>, connWriter = \<lparr>written = [], werr = None\<rparr>, connBuffered = 0\<rparr>"

theorem replication_loop_survives_witness:
  "\<exists>n'. run id (\<lambda>_. []) (memoryStorage (\<lambda>_. 0) plainOrders globalMatchingConfig) (\<lambda>_. 1) (\<lambda>_ _. 1)
     [Inl ''refused'', Inr (demoConn ''+FULLRESYNC''), Inr (demoConn ''nonsense'')] demoNode = Some n' \<and> doneClosed n'"
proof -
  have "store_inv (\<lambda>_. 0) (cStorage (nClient demoNode))" "runEnded demoNode \<longrightarrow> doneClosed demoNode"
    by (simp_all add: demoNode_def NewClient_def demo_inv)
  from replication_loop_survives [OF this] show ?thesis by blast
qed

section \<open>Writes without their times\<close>

text \<open>
  What a key holds, without the time of the write. The writes of a master act on such maps, and doing a
  sequence of them twice is doing it once: every key it touches ends the same whatever was there before.
\<close>

type_synonym datamap = "int \<Rightarrow> string \<Rightarrow> (ValueType \<times> vdata \<times> int option) option"

definition dataOf :: "dbmap \<Rightarrow> datamap" where
  "dataOf m d k = map_option (\<lambda>v. (valType v, valData v, valExpiry v)) (m d k)"

fun dataStep :: "mwrite \<Rightarrow> int \<times> datamap \<Rightarrow> int \<times> datamap" where
  "dataStep (MSet k v) (d, m) = (d, \<lambda>e j. if e = d \<and> j = k then Some (ValueTypeString, StringValue v, None) else m e j)"
| "dataStep (MDel ks) (d, m) = (d, \<lambda>e j. if e = d \<and> j \<in> set ks then None else m e j)"
| "dataStep (MSelect n) (d, m) = (int n, m)"
| "dataStep MPing (d, m) = (d, m)"

fun touched :: "mwrite list \<Rightarrow> int \<Rightarrow> (int \<times> string) set" where
  "touched [] d = {}"
| "touched (MSet k v # ws) d = insert (d, k) (touched ws d)"
| "touched (MDel ks # ws) d = {d} \<times> set ks \<union> touched ws d"
| "touched (MSelect n # ws) d = touched ws (int n)"
| "touched (MPing # ws) d = touched ws d"

lemma dataOf_step: "apsnd dataOf (masterStep now w x) = dataStep w (apsnd dataOf x)"
  by (cases x; cases w) (auto simp: dataOf_def upd_apply without_apply stored_def fun_eq_iff)

lemma dataOf_run: "apsnd dataOf (masterRun clock t ws x) = fold dataStep ws (apsnd dataOf x)"
  by (induction ws arbitrary: t x) (simp_all add: dataOf_step)

lemma run_effect:
  "snd (fold dataStep ws (d, m)) e k =
     (if (e, k) \<in> touched ws d then snd (fold dataStep ws (d, \<lambda>_ _. None)) e k else m e k)"
proof (induction ws arbitrary: d m)
  case (Cons w ws)
  show ?case
  proof (cases w)
    case (MSet k' v)
    let ?f = "\<lambda>m e j. if e = d \<and> j = k' then Some (ValueTypeString, StringValue v, None) else m e j"
    show ?thesis by (auto simp: MSet Cons.IH [of d "?f m"] Cons.IH [of d "?f (\<lambda>_ _. None)"])
  next
    case (MDel ks)
    let ?f = "\<lambda>m e j. if e = d \<and> j \<in> set ks then None else m e j"
    have "snd (fold dataStep ws (d, \<lambda>_ _. None)) e k = None" if "(e, k) \<notin> touched ws d" using that by (subst Cons.IH) simp
    then show ?thesis by (auto simp: MDel Cons.IH [of d "?f m"])
  next
    case (MSelect n)
    show ?thesis using Cons.IH [of "int n" m] by (simp add: MSelect)
  next
    case MPing
    show ?thesis using Cons.IH [of d m] by (simp add: MPing)
  qed
qed simp

lemma run_database: "fst (fold dataStep ws (d, m)) = fst (fold dataStep ws (d, m'))"
proof (induction ws arbitrary: d m m')
  case (Cons w ws)
  then show ?case by (cases w) simp_all
qed simp

lemma replay_once: "fold dataStep (MSelect n # ws) (fold dataStep (MSelect n # ws) x) = fold dataStep (MSelect n # ws) x"
proof -
  obtain d m where x: "x = (d, m)" by (cases x)
  obtain d1 m1 where first: "fold dataStep ws (int n, m) = (d1, m1)" by (cases "fold dataStep ws (int n, m)")
  have "snd (fold dataStep ws (int n, m1)) e k = m1 e k" for e k
    using run_effect [of ws "int n" m1 e k] run_effect [of ws "int n" m e k] first by simp
  moreover have "fst (fold dataStep ws (int n, m1)) = d1" using run_database [of ws "int n" m1 m] first by simp
  ultimately show ?thesis by (simp add: x first prod_eq_iff fun_eq_iff)
qed

section \<open>A second connection\<close>

text \<open>What the client keeps while it reads the stream.\<close>

definition held :: "'s client \<Rightarrow> string \<times> int \<times> string \<times> int list \<times> string list \<times> writer \<times> bool" where
  "held c = (replID c, replOffset c, masterPassword c, cDatabases c, commandFilters c, cWriter c, syncing c)"

lemma processCommand_held: "processCommand U st now v c = Some (e, c') \<Longrightarrow> held c' = held c"
  by (auto simp: processCommand_def held_def split: sum.splits if_splits option.splits prod.splits)

lemma streamLoop_held: "streamLoop U st clock t n c = Some (e, c') \<Longrightarrow> held c' = held c"
proof (induction U st clock t n c rule: streamLoop.induct)
  case (1 U st clock t n c)
  obtain x r where read: "ReadNext (cReader c) = (x, r)" by (cases "ReadNext (cReader c)")
  have r: "held (c\<lparr>cReader := r\<rparr>) = held c" by (simp add: held_def)
  show ?case
  proof (cases x)
    case (Inl err)
    show ?thesis
      using "1.prems" "1.IH"(1) [OF read [symmetric] Inl refl] read Inl r
      by (auto simp: streamLoop.simps [of U st clock t n c] Let_def split: if_splits)
  next
    case (Inr v)
    then obtain e1 c1 where c1: "processCommand U st (clock t) v (c\<lparr>cReader := r\<rparr>) = Some (e1, c1)"
        "streamLoop U st clock (t + 1) 0 c1 = Some (e, c')"
      using "1.prems" read by (auto simp: streamLoop.simps [of U st clock t n c] split: option.splits prod.splits)
    from "1.IH"(2) [OF read [symmetric] Inr c1(1) refl c1(2)] processCommand_held [OF c1(1)] r show ?thesis by simp
  qed
qed

definition continueBytes :: "string \<Rightarrow> mwrite list \<Rightarrow> bytes" where
  "continueBytes rid ws = wire (SimpleV (''CONTINUE '' @ rid)) @ concat (map commandWire ws)"

definition psyncBytes :: "string \<Rightarrow> int \<Rightarrow> bytes" where
  "psyncBytes rid off = wire (ArrayV (map BulkV [''PSYNC'', rid, FormatInt off]))"

lemma Fields_continue:
  assumes "rid \<noteq> []" and "isASCII rid" and "\<forall>x \<in> set rid. \<not> isSpace x"
  shows "Fields F (''CONTINUE '' @ rid) = [''CONTINUE'', rid]"
proof -
  have "fieldsASCII (''CONTINUE'' @ '' '' @ rid) = ''CONTINUE'' # fieldsASCII ('' '' @ rid)"
    by (intro fieldsASCII_word) (simp_all add: isSpace_def)
  also have "fieldsASCII ('' '' @ rid) = [rid]"
    using fieldsASCII_word [OF assms(1,3), of "[]"] by (simp add: isSpace_def)
  finally show ?thesis using assms(2) by (simp add: Fields_def isASCII_def)
qed

lemma sendPSYNC_partial:
  assumes "werr (cWriter c) = None" and "replID c \<noteq> []" and "0 < replOffset c"
  shows "sendPSYNC c = (None, c\<lparr>cWriter := (cWriter c)\<lparr>written := written (cWriter c) @ psyncBytes (replID c) (replOffset c)\<rparr>\<rparr>)"
  using puts_ok [OF puts_WriteCommand assms(1), of "''PSYNC''" "[replID c, FormatInt (replOffset c)]"] assms
  by (simp add: sendPSYNC_def wseq_def Flush_def psyncBytes_def Let_def del: wire.simps)

lemma performSync_continue:
  assumes "rid \<noteq> []" and "isASCII rid" and "\<forall>x \<in> set rid. \<not> isSpace x" and "werr (cWriter c) = None"
    and "replID c = rid" and "0 < replOffset c" and "\<not> syncing c"
    and "cReader c = \<lparr>pending = continueBytes rid ws, endErr = EOF\<rparr>"
  shows "\<exists>c1. performSync F st now c = Some (None, c1) \<and> cStorage c1 = cStorage c \<and> cDatabases c1 = cDatabases c \<and>
    commandFilters c1 = commandFilters c \<and> cReader c1 = \<lparr>pending = concat (map commandWire ws), endErr = EOF\<rparr> \<and>
    cWriter c1 = (cWriter c)\<lparr>written := written (cWriter c) @ psyncBytes rid (replOffset c)\<rparr>"
proof -
  have "LF \<notin> set rid" using assms(3) not_space_plain by blast
  then have "sendable (SimpleV (''CONTINUE '' @ rid))" by simp
  then have "ReadNext (cReader c) = (Inr (SimpleV (''CONTINUE '' @ rid)), \<lparr>pending = concat (map commandWire ws), endErr = EOF\<rparr>)"
    using resp.roundtrip assms(8) unfolding continueBytes_def by metis
  then show ?thesis
    using sendPSYNC_partial [of "c\<lparr>syncing := True\<rparr>"] assms(1,4-7) Fields_continue [OF assms(1-3)]
    by (simp add: performSync_def synchronise_def syncSucceeded_def valueIsError_def Let_def)
qed

text \<open>A connection on which nothing goes wrong but its end.\<close>

definition usable :: "'s node \<Rightarrow> netconn \<Rightarrow> bool" where
  "usable n conn \<longleftrightarrow> setConnectionTimeouts conn n = None \<and> streamDeadlineErr conn = None \<and> connBuffered conn = 0 \<and>
     werr (connWriter conn) = None"

text \<open>The client once it is connected.\<close>

definition onConn :: "netconn \<Rightarrow> 's client \<Rightarrow> 's client" where
  "onConn conn c = recordMetric MetricReconnection (c\<lparr>cReader := connReader conn, cWriter := connWriter conn\<rparr>)"

lemma usable_same: "readTimeout n' = readTimeout n \<Longrightarrow> writeTimeout n' = writeTimeout n \<Longrightarrow> usable n' conn = usable n conn"
  by (simp only: usable_def setConnectionTimeouts_def)

lemma runOnce_session:
  assumes "usable n conn" and "masterPassword (nClient n) = []"
    and "performSync F st now (onConn conn (nClient n)) = Some (None, c1)" and "streamCommands U st clock 0 c1 = Some (e, c2)"
  shows "\<exists>n'. runOnce U F st now clock (Inr conn) n = Some n' \<and> nClient n' = recordMetricError ''streaming'' c2 \<and>
    readTimeout n' = readTimeout n \<and> writeTimeout n' = writeTimeout n"
  using assms
  by (simp add: usable_def onConn_def runOnce_def connect_def connectSucceeded_def onClient_def Let_def startHeartbeat_def disconnect_def)

lemma performSync_keeps: "performSync F st now c = Some (e, c') \<Longrightarrow> masterPassword c' = masterPassword c \<and> syncing c' = syncing c"
  by (auto simp: performSync_def synchronise_def syncSucceeded_def performFullSync_def sendPSYNC_def Let_def
      split: prod.splits option.splits sum.splits if_splits)

context storage_laws
begin

lemma continue_law:
  assumes "follows c x" and "rid \<noteq> []" and "isASCII rid" and "\<forall>y \<in> set rid. \<not> isSpace y" and "werr (cWriter c) = None"
    and "replID c = rid" and "0 < replOffset c" and "\<not> syncing c"
    and "cReader c = \<lparr>pending = continueBytes rid ws, endErr = EOF\<rparr>"
    and "list_all (in_scope (cDatabases c)) ws" and "ws = MSelect d # ws'"
  shows "\<exists>c1 c2. performSync F st now c = Some (None, c1) \<and> streamCommands U st clock 0 c1 = Some (ConnectionClosed, c2) \<and>
    follows c2 (masterRun clock 0 ws x) \<and> cWriter c2 = (cWriter c)\<lparr>written := written (cWriter c) @ psyncBytes rid (replOffset c)\<rparr>"
proof -
  obtain c1 where c1: "performSync F st now c = Some (None, c1)" "cStorage c1 = cStorage c" "cDatabases c1 = cDatabases c"
      "commandFilters c1 = commandFilters c" "cReader c1 = \<lparr>pending = concat (map commandWire ws), endErr = EOF\<rparr>"
      "cWriter c1 = (cWriter c)\<lparr>written := written (cWriter c) @ psyncBytes rid (replOffset c)\<rparr>"
    using performSync_continue [OF assms(2-9)] by blast
  have "follows c1 x" using assms(1) c1 by (simp add: follows_def)
  then obtain c2 where c2: "streamLoop U st clock 0 0 c1 = Some (ConnectionClosed, c2)" "follows c2 (masterRun clock 0 ws x)"
    using stream_law [of c1 x ws U clock 0 0] c1 assms(10,11) by auto
  with c1 streamLoop_held [OF c2(1)] show ?thesis by (auto simp: streamCommands_fresh held_def)
qed

lemma reconnect_law:
  assumes store: "inv (cStorage (nClient n))" "roomy (cStorage (nClient n))" "stCurrentDB st (cStorage (nClient n)) = 0"
    and client: "masterPassword (nClient n) = []" "commandFilters (nClient n) = []" "usable n conn1" "usable n conn2"
      "\<not> syncing (nClient n)"
      "connReader conn1 = \<lparr>pending = sessionBytes rid off file ws, endErr = EOF\<rparr>"
      "connReader conn2 = \<lparr>pending = continueBytes rid (ws @ ws2), endErr = EOF\<rparr>"
    and answer: "rid \<noteq> []" "isASCII rid" "\<forall>x \<in> set rid. \<not> isSpace x" "in_int64 off"
    and snapshot: "file = encFile ver items checksum" "int (length file) \<le> maxBulkSize"
      "length ver = 4" "ParseInt ver = Some v" "v \<le> 12"
      "list_all writable_item items" "list_all (loadable_item (cDatabases (nClient n))) items"
    and writes: "list_all (in_scope (cDatabases (nClient n))) (ws @ ws2)" "ws = MSelect d # ws'" and off: "0 < off"
  shows "\<exists>n'. runLoop U F st now clock 0 [Inr conn1, Inr conn2] n = Some n' \<and> inv (cStorage (nClient n')) \<and>
    (stCurrentDB st (cStorage (nClient n')), dataOf (view (cStorage (nClient n')))) = fold dataStep (ws @ ws2)
      (0, dataOf (loadItems (cDatabases (nClient n)) (now 0) 0 items (view (cStorage (nClient n))))) \<and>
    cWriter (nClient n') = (connWriter conn2)\<lparr>written := written (connWriter conn2) @ psyncBytes rid off\<rparr>"
proof -
  let ?c = "onConn conn1 (nClient n)" and ?x = "(0, loadItems (cDatabases (nClient n)) (now 0) 0 items (view (cStorage (nClient n))))"
  have c: "cStorage ?c = cStorage (nClient n)" "cDatabases ?c = cDatabases (nClient n)" "commandFilters ?c = []"
      "masterPassword ?c = []" "werr (cWriter ?c) = None" "\<not> syncing ?c"
    using client by (simp_all add: onConn_def usable_def)
  have "\<exists>c1 c2. performSync F st (now 0) ?c = Some (None, c1) \<and> InitialSyncCompleted c1 \<and> replID c1 = rid \<and> replOffset c1 = off \<and>
      cDatabases c1 = cDatabases ?c \<and> streamCommands U st (clock 0) 0 c1 = Some (ConnectionClosed, c2) \<and>
      follows c2 (masterRun (clock 0) 0 ws (0, loadItems (cDatabases ?c) (now 0) 0 items (view (cStorage ?c))))"
    by (rule session_law [OF _ _ _ c(5,3,6) _ answer snapshot(1-6) _ _ writes(2)])
      (use store c client snapshot(7) writes(1) in \<open>simp_all add: onConn_def\<close>)
  then obtain c1 c2 where first: "performSync F st (now 0) ?c = Some (None, c1)" "replID c1 = rid" "replOffset c1 = off"
      "cDatabases c1 = cDatabases (nClient n)" "streamCommands U st (clock 0) 0 c1 = Some (ConnectionClosed, c2)"
      "follows c2 (masterRun (clock 0) 0 ws ?x)"
    using c by auto
  have held: "held c2 = held c1" using first(5) streamLoop_held by (simp add: streamCommands_fresh)
  obtain n1 where n1: "runOnce U F st (now 0) (clock 0) (Inr conn1) n = Some n1" "nClient n1 = recordMetricError ''streaming'' c2"
      "readTimeout n1 = readTimeout n" "writeTimeout n1 = writeTimeout n"
    using runOnce_session [OF client(3,1) first(1,5)] by blast
  let ?c2 = "recordMetricError ''streaming'' c2"
  let ?d = "onConn conn2 ?c2"
  have d: "replID ?d = rid" "replOffset ?d = off" "masterPassword ?c2 = []" "cDatabases ?d = cDatabases (nClient n)" "werr (cWriter ?d) = None"
      "follows ?d (masterRun (clock 0) 0 ws ?x)" "cReader ?d = \<lparr>pending = continueBytes rid (ws @ ws2), endErr = EOF\<rparr>"
      "\<not> syncing ?d"
    using held first(2-4,6) performSync_keeps [OF first(1)] c(4,6) client
    by (auto simp: held_def onConn_def usable_def follows_def recordMetricError_def)
  obtain c3 c4 where second: "performSync F st (now 1) ?d = Some (None, c3)" "streamCommands U st (clock 1) 0 c3 = Some (ConnectionClosed, c4)"
      "follows c4 (masterRun (clock 1) 0 (ws @ ws2) (masterRun (clock 0) 0 ws ?x))"
      "cWriter c4 = (cWriter ?d)\<lparr>written := written (cWriter ?d) @ psyncBytes rid off\<rparr>"
    using continue_law [OF d(6) answer(1-3) d(5) d(1) _ d(8,7), of d "ws' @ ws2" F "now 1" U "clock 1"] d off writes by auto
  have "usable n1 conn2" using client(4) usable_same [OF n1(3,4)] by simp
  then obtain n2 where n2: "runOnce U F st (now 1) (clock 1) (Inr conn2) n1 = Some n2" "nClient n2 = recordMetricError ''streaming'' c4"
    using runOnce_session [of n1 conn2 F st "now 1" c3 U "clock 1"] second n1(2) d(3) by auto
  have "apsnd dataOf (masterRun (clock 1) 0 (ws @ ws2) (masterRun (clock 0) 0 ws ?x)) = fold dataStep (ws @ ws2) (apsnd dataOf ?x)"
    using replay_once [of d ws' "apsnd dataOf ?x"] writes(2) by (simp only: dataOf_run fold_append comp_apply)
  then show ?thesis using n1(1) n2 second(3,4) by (auto simp: follows_def onConn_def apsnd_def recordMetricError_def)
qed

end



section \<open>A full resynchronisation does not replace the data\<close>

lemma loadItems_other: "\<forall>t v. Entry t k v \<notin> set items \<Longrightarrow> loadItems dbs now d items m e k = m e k"
  by (induction dbs now d items m rule: loadItems.induct) (auto simp: upd_apply)

text \<open>
  A full synchronisation adds the keys of the snapshot to what the store holds. A key that the master has
  deleted in the meantime, so that it is not in the snapshot, stays.
\<close>

theorem full_sync_keeps_stale_keys:
  assumes "store_inv H (cStorage c)" and "memoryLimit (cStorage c) \<le> 0" and "currentDB (cStorage c) = 0"
    and "cReader c = \<lparr>pending = ''$'' @ FormatInt (int (length file)) @ CRLF @ file @ rest, endErr = e\<rparr>"
    and "file = encFile ver items checksum" and "int (length file) \<le> maxBulkSize"
    and "length ver = 4" and "ParseInt ver = Some n" and "n \<le> 12"
    and "list_all writable_item items" and "list_all (loadable_item (cDatabases c)) items"
    and "\<forall>t v. Entry t k v \<notin> set items"
  shows "\<exists>c'. performFullSync (memoryStorage H ords cfg) now c = Some (None, c') \<and>
    contents (cStorage c') d k = contents (cStorage c) d k"
  using mem.performFullSync_law [OF assms(1,2) _ assms(4-11), of ords cfg now] assms(3) loadItems_other [OF assms(12)]
  unfolding mem_currentDB by auto

end
