(* ===== verification/System.thy ===== *)
theory System
  imports Server_Properties Repl_Reconnect
begin

text \<open>
  The parts together, as \<^verbatim>\<open>New\<close> in \<^verbatim>\<open>src/replica.go\<close> composes them: the replication client, the server with its
  connections and the cleanup of the store all work on one store. A run of the system is a list of events
  in the order in which they happen, each a whole command, stream value or round of the cleanup; the locks of the
  storage make its single operations atomic, scripts and \<^verbatim>\<open>MGET\<close> are taken as one step here.
\<close>

section \<open>Events\<close>

record system =
  sysServer :: "memstore server"
  sysRepl :: "memstore client"
  sysConns :: "memstore connection list"

datatype sysevent =
    Connect reader writer
  | Command nat command "nat \<Rightarrow> int"
  | Replicate int pvalue
  | Sweep int "int order" "int \<Rightarrow> nat \<Rightarrow> nat \<Rightarrow> string order" "int \<Rightarrow> nat \<Rightarrow> nat \<Rightarrow> nat \<Rightarrow> nat"

abbreviation store :: "system \<Rightarrow> memstore" where "store sys \<equiv> srvStorage (sysServer sys)"

definition putStore :: "memstore \<Rightarrow> system \<Rightarrow> system" where
  "putStore s sys = sys\<lparr>sysServer := (sysServer sys)\<lparr>srvStorage := s\<rparr>\<rparr>"

fun sysStep :: "memstore env \<Rightarrow> sysevent \<Rightarrow> system \<Rightarrow> system option" where
  "sysStep env (Connect r w) sys =
     (let c = handleNewClient r w (sysServer sys) in Some (sys\<lparr>sysServer := csrv c, sysConns := sysConns sys @ [c]\<rparr>))"
| "sysStep env (Command i cmd clock) sys =
     (if i < length (sysConns sys) then
        map_option (\<lambda>c. sys\<lparr>sysServer := csrv c, sysConns := (sysConns sys)[i := c]\<rparr>)
          (executeClientCommand env clock cmd ((sysConns sys ! i)\<lparr>csrv := sysServer sys\<rparr>))
      else Some sys)"
| "sysStep env (Replicate now v) sys =
     map_option (\<lambda>(e, c). putStore (cStorage c) (sys\<lparr>sysRepl := c\<rparr>))
       (processCommand (envUpper env) (envStorage env) now v ((sysRepl sys)\<lparr>cStorage := store sys\<rparr>))"
| "sysStep env (Sweep now dbord ord rng) sys =
     map_option (\<lambda>s. putStore s sys) (performCleanup dbord ord rng now (store sys))"

fun sysRun :: "memstore env \<Rightarrow> sysevent list \<Rightarrow> system \<Rightarrow> system option" where
  "sysRun env [] sys = Some sys"
| "sysRun env (e # es) sys = Option.bind (sysStep env e sys) (sysRun env es)"

section \<open>The store in every run\<close>

lemma store_putStore [simp]: "store (putStore s sys) = s"
  by (simp add: putStore_def)

text \<open>Clients and replication leave the configuration of the cleanup alone, so it can be part of the invariant.\<close>

definition system_inv :: "hash \<Rightarrow> memstore \<Rightarrow> bool" where
  "system_inv H s \<longleftrightarrow> store_inv H s \<and> config_ok (cleanupConfig s)"

lemma steady_config:
  assumes "store_inv H s"
  shows "stGet (memoryStorage H ords cfg) now k s = Some (v, s') \<Longrightarrow> cleanupConfig s' = cleanupConfig s"
    and "stSet (memoryStorage H ords cfg) now k d x s = Some (e, s') \<Longrightarrow> cleanupConfig s' = cleanupConfig s"
    and "stDel (memoryStorage H ords cfg) ks s = Some (i, s') \<Longrightarrow> cleanupConfig s' = cleanupConfig s"
    and "stSelectDB (memoryStorage H ords cfg) n s = Some (e, s') \<Longrightarrow> cleanupConfig s' = cleanupConfig s"
proof -
  show "stGet (memoryStorage H ords cfg) now k s = Some (v, s') \<Longrightarrow> cleanupConfig s' = cleanupConfig s"
    using Get_spec [OF assms, of now k] by (auto simp: memoryStorage_def same_setup_def)
  show "stSet (memoryStorage H ords cfg) now k d x s = Some (e, s') \<Longrightarrow> cleanupConfig s' = cleanupConfig s"
    using Set_spec [OF assms, of "evictOrder ords" now k d x] by (auto simp: memoryStorage_def same_setup_def)
  show "stDel (memoryStorage H ords cfg) ks s = Some (i, s') \<Longrightarrow> cleanupConfig s' = cleanupConfig s"
    using Del_spec [OF assms, of "groupOrder ords" ks] by (auto simp: memoryStorage_def same_setup_def)
  show "stSelectDB (memoryStorage H ords cfg) n s = Some (e, s') \<Longrightarrow> cleanupConfig s' = cleanupConfig s"
    by (auto simp: memoryStorage_def SelectDB_def split: if_splits option.splits bind_splits sum.splits)
qed

text \<open>An invariant that every operation keeps can be added to the laws.\<close>

context storage_laws
begin

lemma with_invariant:
  assumes get: "\<And>now k s v s'. inv s \<Longrightarrow> Q s \<Longrightarrow> stGet st now k s = Some (v, s') \<Longrightarrow> Q s'"
    and set': "\<And>now k d x s e s'. inv s \<Longrightarrow> Q s \<Longrightarrow> stSet st now k d x s = Some (e, s') \<Longrightarrow> Q s'"
    and del: "\<And>ks s i s'. inv s \<Longrightarrow> Q s \<Longrightarrow> stDel st ks s = Some (i, s') \<Longrightarrow> Q s'"
    and sel: "\<And>n s e s'. inv s \<Longrightarrow> Q s \<Longrightarrow> stSelectDB st n s = Some (e, s') \<Longrightarrow> Q s'"
  shows "storage_laws st (\<lambda>s. inv s \<and> Q s) view roomy"
proof (unfold_locales, goal_cases)
  case (1 s now k)
  then show ?case using get_law [of s now k] get [of s now k] by blast
next
  case (11 s d)
  then show ?case using select_law [of s d] sel [of s d] by blast
next
  case (13 s now k v x)
  then show ?case using set_safe [of s now k v x] set' [of s now k v x] by blast
next
  case (14 s now k v e)
  then show ?case using set_law [of s now k v e] set' [of s now k v e] by blast
next
  case (15 s ks)
  then show ?case using del_law [of s ks] del [of s ks] by blast
qed (simp_all add: exists_law type_law ttl_law pttl_law keys_law count_law usage_law info_law scan_law select_bad select_roomy)

end

interpretation steady: storage_laws "memoryStorage H ords cfg" "system_inv H" contents "\<lambda>s. memoryLimit s \<le> 0"
  for H ords cfg
  unfolding system_inv_def by (rule mem.with_invariant) (simp_all add: steady_config)

context storage_laws
begin

lemma mget_inv: "inv s \<Longrightarrow> mgetLoop st clock i ks s = Some (vs, s') \<Longrightarrow> inv s'"
proof (induction ks arbitrary: i s vs)
  case (Cons k ks)
  from Cons.prems(2) obtain v s1 vs1 where
      "stGet st (clock i) k s = Some (v, s1)" "mgetLoop st clock (i + 1) ks s1 = Some (vs1, s')"
    by (auto split: option.splits)
  moreover from this(1) have "inv s1" using get_law [OF Cons.prems(1), of "clock i" k] by auto
  ultimately show ?case using Cons.IH by blast
qed simp

lemma handlers_inv:
  assumes inv: "inv (storageOf c)" and st: "envStorage env = st"
  shows "handleSelect env cmd c = Some c' \<Longrightarrow> inv (storageOf c')"
    and "handleGet env now cmd c = Some c' \<Longrightarrow> inv (storageOf c')"
    and "handleMGet env clock cmd c = Some c' \<Longrightarrow> inv (storageOf c')"
    and "handleEval env clock cmd c = Some c' \<Longrightarrow> inv (storageOf c')"
    and "handleEvalSHA env clock cmd c = Some c' \<Longrightarrow> inv (storageOf c')"
proof -
  have sel: "inv s'" if "stSelectDB st d (storageOf c) = Some (e, s')" for d e s'
    using select_total [OF inv, of d] that by auto
  have get: "inv s'" if "stGet st now k (storageOf c) = Some (v, s')" for now k v s'
    using get_law [OF inv, of now k] that by auto
  have result: "csrv (writeResult env r c0) = csrv c0" for r and c0 :: "'s connection"
    by (cases r) (simp_all add: writeResult_def)
  have script: "inv (storageOf c')" if "scriptReply env out c = Some c'" "\<And>r e s. out = Some (r, e, s) \<Longrightarrow> inv s" for out
    using that by (auto simp: scriptReply_def result split: option.splits sum.splits prod.splits)
  have eval: "inv s" if "Eval (envVM env) st clock t ks as e (storageOf c) = Some (r, e', s)"  for t ks as e r e' s
    using Eval_safe [OF inv, of "envVM env" clock t ks as e] that by auto
  have evalsha: "inv s" if "EvalSHA (envVM env) st clock t ks as e (storageOf c) = Some (r, e', s)" for t ks as e r e' s
    using EvalSHA_safe [OF inv, of "envVM env" clock t ks as e] that by auto
  show "handleSelect env cmd c = Some c' \<Longrightarrow> inv (storageOf c')"
    using inv sel by (auto simp: handleSelect_def st split: if_splits option.splits)
  show "handleGet env now cmd c = Some c' \<Longrightarrow> inv (storageOf c')"
    using inv get by (auto simp: handleGet_def st split: if_splits option.splits)
  show "handleMGet env clock cmd c = Some c' \<Longrightarrow> inv (storageOf c')"
    using inv by (auto simp: handleMGet_def st split: if_splits dest: mget_inv)
  show "handleEval env clock cmd c = Some c' \<Longrightarrow> inv (storageOf c')"
    using inv by (auto simp: handleEval_def st split: option.splits sum.splits prod.splits dest: eval elim!: script)
  show "handleEvalSHA env clock cmd c = Some c' \<Longrightarrow> inv (storageOf c')"
    using inv by (auto simp: handleEvalSHA_def st split: option.splits sum.splits prod.splits dest: evalsha elim!: script)
qed

lemma execute_inv:
  assumes inv: "inv (storageOf c)" and st: "envStorage env = st" and run: "executeClientCommand env clock cmd c = Some c'"
  shows "inv (storageOf c')"
proof -
  define c1 where "c1 = c\<lparr>csrv := (csrv c)\<lparr>commandCount := commandCount (csrv c) + 1\<rparr>\<rparr>"
  have inv1: "inv (storageOf c1)" using inv by (simp add: c1_def)
  have "inv (storageOf c')" if "dispatch env clock cmd c1 = Some c'"
    using that inv1 unfolding dispatch_def Let_def
    by (auto split: if_split_asm dest: storage_read handlers_inv [OF inv1 st] simp: storage_same storage_write)
  then show ?thesis
    using run inv by (auto simp: executeClientCommand_def c1_def Let_def split: if_splits)
qed

end

text \<open>Events that cannot make the server panic.\<close>

fun harmless :: "memstore env \<Rightarrow> sysevent \<Rightarrow> bool" where
  "harmless env (Command i cmd clock) \<longleftrightarrow> \<not> hugeScan env cmd \<and> \<not> hugeEval env cmd"
| "harmless env _ \<longleftrightarrow> True"

lemma sysStep_safe:
  assumes inv: "system_inv H (store sys)" and env: "envStorage env = memoryStorage H ords cfg" and "harmless env e"
  shows "\<exists>sys'. sysStep env e sys = Some sys' \<and> system_inv H (store sys')"
proof (cases e)
  case (Connect r w)
  then show ?thesis using inv by (simp add: handleNewClient_def)
next
  case (Command i cmd clock)
  let ?c = "(sysConns sys ! i)\<lparr>csrv := sysServer sys\<rparr>"
  obtain c where c: "executeClientCommand env clock cmd ?c = Some c"
    using steady.execute_total [OF _ env, of ?c cmd clock] inv assms(3) Command by auto
  have "system_inv H (storageOf c)" using steady.execute_inv [OF _ env c] inv by simp
  with c Command inv show ?thesis by simp
next
  case (Replicate now v)
  obtain err c where "processCommand (envUpper env) (envStorage env) now v ((sysRepl sys)\<lparr>cStorage := store sys\<rparr>) = Some (err, c)"
      "system_inv H (cStorage c)"
    using steady.processCommand_safe [of H "(sysRepl sys)\<lparr>cStorage := store sys\<rparr>" "envUpper env" ords cfg now v] inv env by auto
  with Replicate show ?thesis by simp
next
  case (Sweep now dbord ord rng)
  then show ?thesis
    using performCleanup_spec [of H "store sys" dbord ord rng now] inv by (auto simp: system_inv_def purged_def same_setup_def)
qed

lemma sysRun_safe:
  assumes "system_inv H (store sys)" and "envStorage env = memoryStorage H ords cfg" and "list_all (harmless env) es"
  shows "\<exists>sys'. sysRun env es sys = Some sys' \<and> system_inv H (store sys')"
  using assms(1,3)
proof (induction es arbitrary: sys)
  case (Cons e es)
  obtain sys1 where "sysStep env e sys = Some sys1" "system_inv H (store sys1)"
    using sysStep_safe [OF Cons.prems(1) assms(2)] Cons.prems(2) by auto
  with Cons.IH [of sys1] Cons.prems(2) show ?case by simp
qed simp


text \<open>A system with one client connected to the server of \<open>demoClient\<close>.\<close>

definition demoSystem :: system where
  "demoSystem = \<lparr>sysServer = csrv (demoClient [] []), sysRepl = demoSession, sysConns = [demoClient [] []]\<rparr>"

lemma demoSystem_inv: "system_inv (\<lambda>_. 0) (store demoSystem)"
  by (simp add: demoSystem_def system_inv_def demo_inv config_ok_def CleanupConfigDefault_def)


section \<open>What clients see\<close>

text \<open>Events that are neither replicated writes nor scripts, up to time \<open>t\<close>.\<close>

fun quiet :: "memstore env \<Rightarrow> int \<Rightarrow> sysevent \<Rightarrow> bool" where
  "quiet env t (Connect r w) \<longleftrightarrow> True"
| "quiet env t (Command i cmd clock) \<longleftrightarrow> \<not> isScript env cmd \<and> (\<forall>j. clock j \<le> t)"
| "quiet env t (Replicate now v) \<longleftrightarrow> False"
| "quiet env t (Sweep now dbord ord rng) \<longleftrightarrow> now \<le> t"

lemma sysStep_quiet:
  assumes inv: "system_inv H (store sys)" and env: "envStorage env = memoryStorage H ords cfg" and "quiet env t e"
    and step: "sysStep env e sys = Some sys'"
  shows "system_inv H (store sys') \<and> live t (store sys') = live t (store sys)"
proof (cases e)
  case (Connect r w)
  then show ?thesis using inv step by (auto simp: handleNewClient_def)
next
  case (Command i cmd clock)
  let ?c = "(sysConns sys ! i)\<lparr>csrv := sysServer sys\<rparr>"
  have quiet: "\<not> isScript env cmd" "\<And>j. clock j \<le> t" using assms(3) Command by simp_all
  show ?thesis
  proof (cases "i < length (sysConns sys)")
    case True
    then obtain c where c: "executeClientCommand env clock cmd ?c = Some c" and store: "store sys' = storageOf c"
      using step Command by auto
    have "steady.same_data H t (storageOf ?c) (storageOf c)"
      by (rule steady.execute_same [OF _ env quiet(2,1) c]) (use inv in simp)
    then show ?thesis unfolding steady.same_data_def live_unexpired store by simp
  qed (use step Command inv in auto)
next
  case (Sweep now dbord ord rng)
  then have le: "now \<le> t" using assms(3) by simp
  obtain s where s: "performCleanup dbord ord rng now (store sys) = Some s" "purged H now (store sys) s"
    using performCleanup_spec [of H "store sys" dbord ord rng now] inv by (auto simp: system_inv_def)
  have "unexpired t (contents s) = unexpired t (contents (store sys))"
    by (rule unexpired_later [OF _ le]) (rule purged_live [OF s(2), unfolded live_unexpired])
  moreover have "store sys' = s" using step unfolding Sweep by (simp add: s(1)) (metis store_putStore)
  moreover have "system_inv H s" using s(2) inv by (simp add: system_inv_def purged_def same_setup_def)
  ultimately show ?thesis unfolding live_unexpired by simp
qed (use assms(3) in simp)

text \<open>
  Claim C19: only the master and scripts change what clients can read. Any number of clients, sending any commands
  but \<^verbatim>\<open>EVAL\<close> and \<^verbatim>\<open>EVALSHA\<close> in any order and interleaved with the cleanup, leave every database as it is to
  every reader from then on.
\<close>

theorem clients_cannot_change_data:
  assumes "system_inv H (store sys)" and "envStorage env = memoryStorage H ords cfg" and "list_all (quiet env t) es"
    and "sysRun env es sys = Some sys'"
  shows "live t (store sys') = live t (store sys)"
  using assms(1,3,4)
proof (induction es arbitrary: sys)
  case (Cons e es)
  then obtain sys1 where sys1: "sysStep env e sys = Some sys1" "sysRun env es sys1 = Some sys'" by (auto simp: bind_eq_Some_conv)
  have "system_inv H (store sys1) \<and> live t (store sys1) = live t (store sys)"
    by (rule sysStep_quiet [OF Cons.prems(1) assms(2) _ sys1(1)]) (use Cons.prems(2) in simp)
  with Cons.IH [of sys1] sys1(2) Cons.prems(2) show ?case by simp
qed simp

theorem clients_cannot_change_data_witness:
  "\<exists>sys'. sysRun demoEnv [Sweep 1 id (\<lambda>_ _ _. id) (\<lambda>_ _ _ _. 0), Command 0 \<lparr>cmdName = ''DEL'', cmdArgs = [''a'']\<rparr> (\<lambda>_. 1)] demoSystem = Some sys' \<and>
     live 2 (store sys') = live 2 demo"
proof -
  let ?es = "[Sweep 1 id (\<lambda>_ _ _. id) (\<lambda>_ _ _ _. 0), Command 0 \<lparr>cmdName = ''DEL'', cmdArgs = [''a'']\<rparr> (\<lambda>_. 1)]"
  have "list_all (harmless demoEnv) ?es" by (simp add: hugeScan_def hugeEval_def isScript_def)
  then obtain sys' where run: "sysRun demoEnv ?es demoSystem = Some sys'"
    using sysRun_safe [OF demoSystem_inv, of demoEnv plainOrders globalMatchingConfig ?es] by auto
  have "list_all (quiet demoEnv 2) ?es" by (simp add: isScript_def)
  from clients_cannot_change_data [OF demoSystem_inv _ this run] run show ?thesis by (simp add: demoSystem_def)
qed

section \<open>The selected database is shared\<close>

lemma client_selects:
  assumes inv: "system_inv H (store sys)" and env: "envStorage env = memoryStorage H ords cfg" and "i < length (sysConns sys)"
    and auth: "authenticated (sysConns sys ! i)" and d: "0 \<le> d" "d \<le> 15" and "memoryLimit (store sys) \<le> 0"
  shows "\<exists>sys'. sysStep env (Command i \<lparr>cmdName = ''SELECT'', cmdArgs = [FormatInt d]\<rparr> clock) sys = Some sys' \<and>
    system_inv H (store sys') \<and> memoryLimit (store sys') \<le> 0 \<and> currentDB (store sys') = d \<and>
    contents (store sys') = contents (store sys) \<and> sysRepl sys' = sysRepl sys"
proof -
  obtain s where s: "stSelectDB (envStorage env) d (store sys) = Some (None, s)" "system_inv H s" "memoryLimit s \<le> 0" "currentDB s = d"
      "contents s = contents (store sys)"
    using steady.select_valid [OF inv d, of ords cfg] assms(7) unfolding env mem_currentDB by blast
  have "in_int64 d" using d by (simp add: in_int64_def int64_bounds)
  then show ?thesis
    using assms(3) auth s
    by (simp add: executeClientCommand_def dispatch_def handleSelect_def ToUpper_names ParseInt_FormatInt Let_def)
qed

lemma replicates_set:
  assumes inv: "system_inv H (store sys)" and env: "envStorage env = memoryStorage H ords cfg" and room: "memoryLimit (store sys) \<le> 0"
    and "commandFilters (sysRepl sys) = []" and "cDatabases (sysRepl sys) = []"
  shows "\<exists>sys'. sysStep env (Replicate now (ArrayV (map BulkV [''SET'', k, v]))) sys = Some sys' \<and>
    contents (store sys') = upd (currentDB (store sys)) k (Some (stored now v None)) (contents (store sys))"
proof -
  obtain s where s: "stSet (envStorage env) now k v None (store sys) = Some (None, s)"
      "contents s = upd (currentDB (store sys)) k (Some (stored now v None)) (contents (store sys))"
    using steady.set_law [OF inv room, of ords cfg now k v None] unfolding env mem_currentDB by blast
  have "ParseCommand (envUpper env) (ArrayV (map BulkV [''SET'', k, v])) = Inr \<lparr>cmdName = ''SET'', cmdArgs = [k, v]\<rparr>"
    using parse_command [of "envUpper env" "MSet k v"] by simp
  then show ?thesis using assms(4,5) s
    by (simp add: processCommand_def skippedSelect_def executeCommand_def Let_def del: list.map(2))
qed

text \<open>
  The database a client selects is the one the replicated writes go to. The connection keeps a database
  number of its own, but \<^verbatim>\<open>SELECT\<close> of any client moves the storage, which the replication client uses too: a
  write the master made in the database selected before ends in the client's.
\<close>

theorem client_select_misroutes_replication:
  assumes "system_inv H (store sys)" and "envStorage env = memoryStorage H ords cfg" and "i < length (sysConns sys)"
    and "authenticated (sysConns sys ! i)" and "0 \<le> d" and "d \<le> 15" and "memoryLimit (store sys) \<le> 0"
    and "commandFilters (sysRepl sys) = []" and "cDatabases (sysRepl sys) = []"
  shows "\<exists>sys'. sysRun env [Command i \<lparr>cmdName = ''SELECT'', cmdArgs = [FormatInt d]\<rparr> clock,
      Replicate now (ArrayV (map BulkV [''SET'', k, v]))] sys = Some sys' \<and>
    contents (store sys') = upd d k (Some (stored now v None)) (contents (store sys))"
proof -
  obtain sys1 where sys1: "sysStep env (Command i \<lparr>cmdName = ''SELECT'', cmdArgs = [FormatInt d]\<rparr> clock) sys = Some sys1"
      "system_inv H (store sys1)" "memoryLimit (store sys1) \<le> 0" "currentDB (store sys1) = d"
      "contents (store sys1) = contents (store sys)" "sysRepl sys1 = sysRepl sys"
    using client_selects [OF assms(1-7)] by blast
  obtain sys2 where "sysStep env (Replicate now (ArrayV (map BulkV [''SET'', k, v]))) sys1 = Some sys2"
      "contents (store sys2) = upd d k (Some (stored now v None)) (contents (store sys))"
    using replicates_set [OF sys1(2) assms(2) sys1(3), of now k v] assms(8,9) sys1 by auto
  with sys1(1) show ?thesis by (simp del: sysStep.simps list.map(2))
qed

theorem client_select_misroutes_replication_witness:
  "\<exists>sys'. sysRun demoEnv [Command 0 \<lparr>cmdName = ''SELECT'', cmdArgs = [FormatInt 3]\<rparr> (\<lambda>_. 1),
      Replicate 2 (ArrayV (map BulkV [''SET'', ''x'', ''y'']))] demoSystem = Some sys' \<and>
    contents (store sys') 3 ''x'' = Some (stored 2 ''y'' None) \<and> contents (store sys') 0 ''x'' = contents demo 0 ''x''"
proof -
  obtain sys' where "sysRun demoEnv [Command 0 \<lparr>cmdName = ''SELECT'', cmdArgs = [FormatInt 3]\<rparr> (\<lambda>_. 1),
      Replicate 2 (ArrayV (map BulkV [''SET'', ''x'', ''y'']))] demoSystem = Some sys'"
      "contents (store sys') = upd 3 ''x'' (Some (stored 2 ''y'' None)) (contents demo)"
    using client_select_misroutes_replication [OF demoSystem_inv, of demoEnv plainOrders globalMatchingConfig 0 3 "\<lambda>_. 1" 2 "''x''" "''y''"]
    by (auto simp: demoSystem_def demoSession_def simp del: sysRun.simps)
  then show ?thesis by (intro exI [of _ sys']) (simp add: upd_apply del: sysRun.simps)
qed

end
