(* ===== verification/Options.thy ===== *)
theory Options
  imports Repl_Run
begin

text \<open>
  The configuration of a replica (\<^verbatim>\<open>src/options.go\<close>): its fields and defaults, the options with their checks, and
  the TLS settings. An option is a closure over the configuration, as in the code; \<open>exported\<close> says which
  closures a caller can make. \<open>WithShards\<close> is \<^verbatim>\<open>WithShardCount\<close>, \<open>BuildTLS\<close> is \<^verbatim>\<open>TLSBuilder.Build\<close>. Logger and metrics are left out,
  but for the check that the logger is not nil.
\<close>

section \<open>TLS settings\<close>

definition VersionTLS12 :: "16 word" where "VersionTLS12 = 0x0303"
definition VersionTLS13 :: "16 word" where "VersionTLS13 = 0x0304"

text \<open>Numbers of the cipher suites in Go's \<^verbatim>\<open>crypto/tls\<close>.\<close>

definition ECDHE_RSA_AES_256_GCM_SHA384 :: "16 word" where "ECDHE_RSA_AES_256_GCM_SHA384 = 0xc030"
definition ECDHE_RSA_CHACHA20_POLY1305 :: "16 word" where "ECDHE_RSA_CHACHA20_POLY1305 = 0xcca8"
definition ECDHE_ECDSA_AES_256_GCM_SHA384 :: "16 word" where "ECDHE_ECDSA_AES_256_GCM_SHA384 = 0xc02c"
definition ECDHE_ECDSA_CHACHA20_POLY1305 :: "16 word" where "ECDHE_ECDSA_CHACHA20_POLY1305 = 0xcca9"
definition ECDHE_RSA_AES_128_GCM_SHA256 :: "16 word" where "ECDHE_RSA_AES_128_GCM_SHA256 = 0xc02f"
definition ECDHE_ECDSA_AES_128_GCM_SHA256 :: "16 word" where "ECDHE_ECDSA_AES_128_GCM_SHA256 = 0xc02b"
definition RSA_AES_256_GCM_SHA384 :: "16 word" where "RSA_AES_256_GCM_SHA384 = 0x009d"
definition RSA_AES_128_GCM_SHA256 :: "16 word" where "RSA_AES_128_GCM_SHA256 = 0x009c"

text \<open>The environment is an integer type in Go, so other values than the three constants are possible.\<close>

type_synonym TLSEnvironment = int

definition TLSEnvironmentDevelopment :: TLSEnvironment where "TLSEnvironmentDevelopment = 0"
definition TLSEnvironmentStaging :: TLSEnvironment where "TLSEnvironmentStaging = 1"
definition TLSEnvironmentProduction :: TLSEnvironment where "TLSEnvironmentProduction = 2"

definition secureSuites :: "16 word list" where
  "secureSuites = [ECDHE_RSA_AES_256_GCM_SHA384, ECDHE_RSA_CHACHA20_POLY1305, ECDHE_ECDSA_AES_256_GCM_SHA384, ECDHE_ECDSA_CHACHA20_POLY1305]"

definition tlsEnvironment :: "string \<Rightarrow> TLSEnvironment \<Rightarrow> tlsConfig option" where
  "tlsEnvironment serverName env =
     (if env = TLSEnvironmentDevelopment then
        Some \<lparr>tlsServerName = serverName, tlsInsecureSkipVerify = False, tlsMinVersion = VersionTLS12,
          tlsCipherSuites = secureSuites @ [ECDHE_RSA_AES_128_GCM_SHA256, ECDHE_ECDSA_AES_128_GCM_SHA256,
            RSA_AES_256_GCM_SHA384, RSA_AES_128_GCM_SHA256]\<rparr>
      else if env = TLSEnvironmentStaging then
        Some \<lparr>tlsServerName = serverName, tlsInsecureSkipVerify = False, tlsMinVersion = VersionTLS12,
          tlsCipherSuites = secureSuites @ [ECDHE_RSA_AES_128_GCM_SHA256, ECDHE_ECDSA_AES_128_GCM_SHA256]\<rparr>
      else if env = TLSEnvironmentProduction then
        Some \<lparr>tlsServerName = serverName, tlsInsecureSkipVerify = False, tlsMinVersion = VersionTLS13,
          tlsCipherSuites = secureSuites\<rparr>
      else None)"

record TLSBuilder =
  tbServerName :: string
  tbSkipVerify :: bool
  tbMinVersion :: "16 word"
  tbCipherSuites :: "16 word list"

definition WithTLSCustom :: "string \<Rightarrow> TLSBuilder" where
  "WithTLSCustom serverName = \<lparr>tbServerName = serverName, tbSkipVerify = False, tbMinVersion = VersionTLS12, tbCipherSuites = secureSuites\<rparr>"

definition MinVersion :: "16 word \<Rightarrow> TLSBuilder \<Rightarrow> TLSBuilder" where
  "MinVersion v b = b\<lparr>tbMinVersion := v\<rparr>"

definition SkipVerify :: "bool \<Rightarrow> TLSBuilder \<Rightarrow> TLSBuilder" where
  "SkipVerify skip b = b\<lparr>tbSkipVerify := skip\<rparr>"

definition CipherSuites :: "16 word list \<Rightarrow> TLSBuilder \<Rightarrow> TLSBuilder" where
  "CipherSuites suites b = b\<lparr>tbCipherSuites := suites\<rparr>"

section \<open>Configuration\<close>

record config =
  cfgMasterAddr :: string
  cfgMasterPassword :: string
  cfgMasterTLS :: "tlsConfig option"
  cfgReplicaAddr :: string
  cfgReplicaPassword :: string
  cfgDatabases :: "int list"
  cfgDefaultDatabase :: int
  cfgSyncTimeout :: duration
  cfgConnectTimeout :: duration
  cfgReadTimeout :: duration
  cfgWriteTimeout :: duration
  cfgHeartbeatInterval :: duration
  cfgMaxMemory :: int
  cfgMetrics :: bool
  cfgReadOnly :: bool
  cfgCommandFilters :: "string list"
  cfgRedirectWrites :: bool
  cfgShardCount :: int

definition defaultConfig :: config where
  "defaultConfig = \<lparr>cfgMasterAddr = ''localhost:6379'', cfgMasterPassword = [], cfgMasterTLS = None, cfgReplicaAddr = [],
     cfgReplicaPassword = [], cfgDatabases = [], cfgDefaultDatabase = 0, cfgSyncTimeout = 30 * Second,
     cfgConnectTimeout = 5 * Second, cfgReadTimeout = 30 * Second, cfgWriteTimeout = 10 * Second,
     cfgHeartbeatInterval = 30 * Second, cfgMaxMemory = 0, cfgMetrics = False, cfgReadOnly = True, cfgCommandFilters = [],
     cfgRedirectWrites = False, cfgShardCount = 0\<rparr>"

datatype cfgerror = ErrInvalidConfig | ConnectionError string cfgerror

type_synonym roption = "config \<Rightarrow> cfgerror + config"

abbreviation guarded :: "bool \<Rightarrow> config \<Rightarrow> cfgerror + config" where
  "guarded ok c \<equiv> if ok then Inr c else Inl ErrInvalidConfig"

definition WithMaster :: "string \<Rightarrow> roption" where
  "WithMaster addr = (\<lambda>c. if addr = [] then Inl (ConnectionError addr ErrInvalidConfig) else Inr (c\<lparr>cfgMasterAddr := addr\<rparr>))"

definition WithMasterAuth :: "string \<Rightarrow> roption" where
  "WithMasterAuth pw = (\<lambda>c. Inr (c\<lparr>cfgMasterPassword := pw\<rparr>))"

definition WithReplicaAddr :: "string \<Rightarrow> roption" where
  "WithReplicaAddr addr = (\<lambda>c. Inr (c\<lparr>cfgReplicaAddr := addr\<rparr>))"

definition WithSyncTimeout :: "duration \<Rightarrow> roption" where
  "WithSyncTimeout t = (\<lambda>c. guarded (t > 0) (c\<lparr>cfgSyncTimeout := t\<rparr>))"

definition WithConnectTimeout :: "duration \<Rightarrow> roption" where
  "WithConnectTimeout t = (\<lambda>c. guarded (t > 0) (c\<lparr>cfgConnectTimeout := t\<rparr>))"

definition WithReadTimeout :: "duration \<Rightarrow> roption" where
  "WithReadTimeout t = (\<lambda>c. guarded (t > 0) (c\<lparr>cfgReadTimeout := t\<rparr>))"

definition WithWriteTimeout :: "duration \<Rightarrow> roption" where
  "WithWriteTimeout t = (\<lambda>c. guarded (t > 0) (c\<lparr>cfgWriteTimeout := t\<rparr>))"

definition WithHeartbeatInterval :: "duration \<Rightarrow> roption" where
  "WithHeartbeatInterval t = (\<lambda>c. Inr (c\<lparr>cfgHeartbeatInterval := t\<rparr>))"

definition WithMaxMemory :: "int \<Rightarrow> roption" where
  "WithMaxMemory n = (\<lambda>c. guarded (n \<ge> 0) (c\<lparr>cfgMaxMemory := n\<rparr>))"

definition WithLogger :: "bool \<Rightarrow> roption" where
  "WithLogger notNil = (\<lambda>c. guarded notNil c)"

definition WithMetrics :: "bool \<Rightarrow> roption" where
  "WithMetrics notNil = (\<lambda>c. Inr (c\<lparr>cfgMetrics := notNil\<rparr>))"

definition WithTLS :: "tlsConfig option \<Rightarrow> roption" where
  "WithTLS tls = (\<lambda>c. Inr (c\<lparr>cfgMasterTLS := tls\<rparr>))"

definition WithTLSEnvironment :: "string \<Rightarrow> TLSEnvironment \<Rightarrow> roption" where
  "WithTLSEnvironment serverName env = (\<lambda>c.
     if serverName = [] then Inl ErrInvalidConfig
     else case tlsEnvironment serverName env of
         None \<Rightarrow> Inl ErrInvalidConfig
       | Some tls \<Rightarrow> Inr (c\<lparr>cfgMasterTLS := Some tls\<rparr>))"

definition WithSecureTLS :: "string \<Rightarrow> roption" where
  "WithSecureTLS serverName = WithTLSEnvironment serverName TLSEnvironmentProduction"

definition BuildTLS :: "TLSBuilder \<Rightarrow> roption" where
  "BuildTLS b = (\<lambda>c.
     guarded (tbServerName b \<noteq> []) (c\<lparr>cfgMasterTLS := Some \<lparr>tlsServerName = tbServerName b,
       tlsInsecureSkipVerify = tbSkipVerify b, tlsMinVersion = tbMinVersion b, tlsCipherSuites = tbCipherSuites b\<rparr>\<rparr>))"

definition WithReadOnly :: "bool \<Rightarrow> roption" where
  "WithReadOnly b = (\<lambda>c. Inr (c\<lparr>cfgReadOnly := b\<rparr>))"

definition WithCommandFilters :: "string list \<Rightarrow> roption" where
  "WithCommandFilters cmds = (\<lambda>c. Inr (c\<lparr>cfgCommandFilters := cmds\<rparr>))"

definition WithDatabases :: "int list \<Rightarrow> roption" where
  "WithDatabases dbs = (\<lambda>c. guarded (list_all (\<lambda>d. 0 \<le> d \<and> d \<le> 15) dbs) (c\<lparr>cfgDatabases := dbs\<rparr>))"

definition WithReplicaAuth :: "string \<Rightarrow> roption" where
  "WithReplicaAuth pw = (\<lambda>c. Inr (c\<lparr>cfgReplicaPassword := pw\<rparr>))"

definition WithWriteRedirection :: "bool \<Rightarrow> roption" where
  "WithWriteRedirection b = (\<lambda>c. Inr (c\<lparr>cfgRedirectWrites := b\<rparr>))"

definition WithDefaultDatabase :: "int \<Rightarrow> roption" where
  "WithDefaultDatabase d = (\<lambda>c. guarded (0 \<le> d \<and> d \<le> 15) (c\<lparr>cfgDefaultDatabase := d\<rparr>))"

definition WithShards :: "int \<Rightarrow> roption" where
  "WithShards n = (\<lambda>c. guarded (n \<ge> 0) (c\<lparr>cfgShardCount := n\<rparr>))"

lemmas option_defs = WithMaster_def WithMasterAuth_def WithReplicaAddr_def WithSyncTimeout_def WithConnectTimeout_def WithReadTimeout_def WithWriteTimeout_def WithHeartbeatInterval_def WithMaxMemory_def WithLogger_def WithMetrics_def WithTLS_def WithTLSEnvironment_def WithSecureTLS_def BuildTLS_def WithReadOnly_def WithCommandFilters_def WithDatabases_def WithReplicaAuth_def WithWriteRedirection_def WithDefaultDatabase_def WithShards_def

text \<open>The options that a caller outside the package can make.\<close>

inductive exported :: "roption \<Rightarrow> bool" where
  "exported (WithMaster addr)"
| "exported (WithMasterAuth pw)"
| "exported (WithReplicaAddr addr)"
| "exported (WithSyncTimeout t)"
| "exported (WithConnectTimeout t)"
| "exported (WithReadTimeout t)"
| "exported (WithWriteTimeout t)"
| "exported (WithHeartbeatInterval t)"
| "exported (WithMaxMemory n)"
| "exported (WithLogger notNil)"
| "exported (WithMetrics m)"
| "exported (WithTLS tls)"
| "exported (WithTLSEnvironment serverName env)"
| "exported (WithSecureTLS serverName)"
| "exported (BuildTLS b)"
| "exported (WithReadOnly b)"
| "exported (WithCommandFilters cmds)"
| "exported (WithDatabases dbs)"
| "exported (WithReplicaAuth pw)"
| "exported (WithWriteRedirection b)"
| "exported (WithDefaultDatabase d)"
| "exported (WithShards n)"

text \<open>The loop of \<^verbatim>\<open>New\<close> over its options.\<close>

fun applyOptions :: "roption list \<Rightarrow> config \<Rightarrow> cfgerror + config" where
  "applyOptions [] c = Inr c"
| "applyOptions (opt # os) c = (case opt c of Inl e \<Rightarrow> Inl e | Inr c' \<Rightarrow> applyOptions os c')"

section \<open>Accepted configurations\<close>

definition config_valid :: "config \<Rightarrow> bool" where
  "config_valid c \<longleftrightarrow> cfgMasterAddr c \<noteq> [] \<and> 0 < cfgSyncTimeout c \<and> 0 < cfgConnectTimeout c \<and> 0 < cfgReadTimeout c \<and>
     0 < cfgWriteTimeout c \<and> 0 \<le> cfgMaxMemory c \<and> list_all (\<lambda>d. 0 \<le> d \<and> d \<le> 15) (cfgDatabases c) \<and>
     0 \<le> cfgDefaultDatabase c \<and> cfgDefaultDatabase c \<le> 15 \<and> 0 \<le> cfgShardCount c"

lemma defaultConfig_valid: "config_valid defaultConfig"
  by (simp add: config_valid_def defaultConfig_def Second_def Millisecond_def)

lemma option_valid: "exported opt \<Longrightarrow> config_valid c \<Longrightarrow> opt c = Inr c' \<Longrightarrow> config_valid c'"
  by (induction opt rule: exported.induct) (auto simp: config_valid_def option_defs split: if_splits option.splits)

lemma applyOptions_valid: "list_all exported opts \<Longrightarrow> config_valid c \<Longrightarrow> applyOptions opts c = Inr c' \<Longrightarrow> config_valid c'"
  by (induction opts arbitrary: c) (auto split: sum.splits dest: option_valid)

text \<open>Options that do not set certificate verification aside or lower the TLS version.\<close>

definition tls_secure :: "config \<Rightarrow> bool" where
  "tls_secure c \<longleftrightarrow> (\<forall>t. cfgMasterTLS c = Some t \<longrightarrow> \<not> tlsInsecureSkipVerify t \<and> tlsMinVersion t \<ge> VersionTLS12)"

definition verifying :: "roption \<Rightarrow> bool" where
  "verifying opt \<longleftrightarrow>
     (\<forall>t. opt = WithTLS (Some t) \<longrightarrow> \<not> tlsInsecureSkipVerify t \<and> tlsMinVersion t \<ge> VersionTLS12) \<and>
     (\<forall>b. opt = BuildTLS b \<longrightarrow> \<not> tbSkipVerify b \<and> tbMinVersion b \<ge> VersionTLS12)"

lemma tlsEnvironment_secure: "tlsEnvironment n env = Some t \<Longrightarrow> \<not> tlsInsecureSkipVerify t \<and> tlsMinVersion t \<ge> VersionTLS12"
  by (auto simp: tlsEnvironment_def VersionTLS12_def VersionTLS13_def word_le_nat_alt split: if_splits)

lemma option_secure: "exported opt \<Longrightarrow> verifying opt \<Longrightarrow> tls_secure c \<Longrightarrow> opt c = Inr c' \<Longrightarrow> tls_secure c'"
proof (induction opt rule: exported.induct)
  case (12 tls)
  have "\<not> tlsInsecureSkipVerify t \<and> tlsMinVersion t \<ge> VersionTLS12" if "tls = Some t" for t
    using 12(1) unfolding verifying_def that by blast
  with 12 show ?case by (auto simp: tls_secure_def WithTLS_def)
next
  case (15 b)
  have "\<not> tbSkipVerify b \<and> tbMinVersion b \<ge> VersionTLS12" using 15(1) unfolding verifying_def by blast
  with 15(2,3) show ?case by (auto simp: tls_secure_def BuildTLS_def split: if_splits)
qed (auto simp: tls_secure_def option_defs dest: tlsEnvironment_secure split: if_splits option.splits)

lemma applyOptions_secure:
  "list_all exported opts \<Longrightarrow> list_all verifying opts \<Longrightarrow> tls_secure c \<Longrightarrow> applyOptions opts c = Inr c' \<Longrightarrow> tls_secure c'"
  by (induction opts arbitrary: c) (auto split: sum.splits dest: option_secure)

text \<open>
  Claim C35: whatever options are given in whatever order, a configuration that \<^verbatim>\<open>New\<close> accepts has a master address,
  positive timeouts, a memory limit and shard count that are not negative, and database numbers within 0 to 15; and
  unless the caller turns certificate verification off or lowers the version explicitly, the TLS settings verify
  certificates and ask for TLS 1.2 or later.
\<close>

theorem accepted_options_valid:
  assumes "list_all exported opts" and "applyOptions opts defaultConfig = Inr c"
  shows "config_valid c \<and> (list_all verifying opts \<longrightarrow> tls_secure c)"
  using applyOptions_valid [OF assms(1) defaultConfig_valid assms(2)] applyOptions_secure [OF assms(1) _ _ assms(2)]
  by (simp add: tls_secure_def defaultConfig_def)

theorem accepted_options_valid_witness:
  "\<exists>c. applyOptions [WithSecureTLS ''redis.example.com'', WithDatabases [0, 3], WithShards 7] defaultConfig = Inr c \<and> config_valid c"
proof -
  let ?opts = "[WithSecureTLS ''redis.example.com'', WithDatabases [0, 3], WithShards 7]"
  have "list_all exported ?opts" by (simp add: exported.intros)
  moreover obtain c where c: "applyOptions ?opts defaultConfig = Inr c"
    by (simp add: option_defs tlsEnvironment_def TLSEnvironmentDevelopment_def TLSEnvironmentStaging_def TLSEnvironmentProduction_def)
  ultimately show ?thesis using accepted_options_valid by blast
qed

end
