(* ===== verification/Sync_Manager.thy ===== *)
theory Sync_Manager
  imports Repl_Run Server
begin

text \<open>
  The synchronisation manager (\<^verbatim>\<open>src/replication/sync.go\<close>): the coordinator that admits one start per master at a
  time, the start with its retries, the callbacks for the end of the initial synchronisation, and the status. A
  callback is a number; \<open>called\<close> lists the calls in their order. \<open>loops\<close> counts the goroutines that run
  \<^verbatim>\<open>Client.run\<close>, \<open>hooks\<close> the closures that \<^verbatim>\<open>Start\<close> has registered with the client.
\<close>

section \<open>Coordinator\<close>

type_synonym coordinator = "string list"

definition tryAcquire :: "string \<Rightarrow> coordinator \<Rightarrow> bool \<times> coordinator" where
  "tryAcquire addr active = (if addr \<in> set active then (False, active) else (True, addr # active))"

definition release :: "string \<Rightarrow> coordinator \<Rightarrow> coordinator" where
  "release addr active = removeAll addr active"

section \<open>Manager\<close>

record 's manager =
  smNode :: "'s node"
  initialSyncDone :: bool
  smCallbacks :: "nat list"
  called :: "nat list"
  starting :: bool
  maxRetries :: nat
  retryDelay :: duration
  loops :: nat
  hooks :: nat

definition NewSyncManager :: "string \<Rightarrow> 's \<Rightarrow> reader \<Rightarrow> writer \<Rightarrow> 's manager" where
  "NewSyncManager addr stor r w = \<lparr>smNode = NewClient addr stor r w, initialSyncDone = False, smCallbacks = [], called = [],
     starting = False, maxRetries = 5, retryDelay = Second, loops = 0, hooks = 0\<rparr>"

definition onNode :: "('s node \<Rightarrow> 's node) \<Rightarrow> 's manager \<Rightarrow> 's manager" where
  "onNode f m = m\<lparr>smNode := f (smNode m)\<rparr>"

definition smSetAuth :: "string \<Rightarrow> 's manager \<Rightarrow> 's manager" where
  "smSetAuth pw = onNode (SetAuth pw)"

definition smSetMetrics :: "'s manager \<Rightarrow> 's manager" where
  "smSetMetrics = onNode SetMetrics"

text \<open>The body of \<^verbatim>\<open>SyncManager.SetTLS\<close> is a comment.\<close>

definition smSetTLS :: "tlsConfig option \<Rightarrow> 's manager \<Rightarrow> 's manager" where
  "smSetTLS cfg m = m"

definition smSetSyncTimeout :: "duration \<Rightarrow> 's manager \<Rightarrow> 's manager" where
  "smSetSyncTimeout t = onNode (SetSyncTimeout t)"

definition smSetConnectTimeout :: "duration \<Rightarrow> 's manager \<Rightarrow> 's manager" where
  "smSetConnectTimeout t = onNode (SetConnectTimeout t)"

definition smSetReadTimeout :: "duration \<Rightarrow> 's manager \<Rightarrow> 's manager" where
  "smSetReadTimeout t = onNode (SetReadTimeout t)"

definition smSetWriteTimeout :: "duration \<Rightarrow> 's manager \<Rightarrow> 's manager" where
  "smSetWriteTimeout t = onNode (SetWriteTimeout t)"

definition smSetCommandFilters :: "(string \<Rightarrow> string) \<Rightarrow> string list \<Rightarrow> 's manager \<Rightarrow> 's manager" where
  "smSetCommandFilters U cmds = onNode (onClient (SetCommandFilters U cmds))"

definition smSetDatabases :: "int list \<Rightarrow> 's manager \<Rightarrow> 's manager" where
  "smSetDatabases dbs = onNode (onClient (SetDatabases dbs))"

definition smSetHeartbeatInterval :: "duration \<Rightarrow> 's manager \<Rightarrow> 's manager" where
  "smSetHeartbeatInterval t = onNode (SetHeartbeatInterval t)"

section \<open>Starting\<close>

text \<open>
  \<^verbatim>\<open>Client.Start\<close> starts the loop unless the client is connected, and then waits; \<open>ev\<close> is what ends the wait: the
  connection, the timeout, the context, or the end of the loop.
\<close>

datatype startEvent = Connects | TimesOut | ContextDone string | LoopEnds

datatype starterror = ConnectionTimeout duration | ContextError string | StoppedUnexpectedly
  | RetriesFailed nat "starterror option"

definition clientStart :: "startEvent \<Rightarrow> 's manager \<Rightarrow> starterror option \<times> 's manager" where
  "clientStart ev m =
     (if connected (smNode m) then (None, m)
      else
        (let m = m\<lparr>loops := loops m + 1\<rparr>;
             timeout = (if syncTimeout (smNode m) = 0 then 30 * Second else syncTimeout (smNode m)) in
         case ev of
           Connects \<Rightarrow> (None, onNode (\<lambda>n. n\<lparr>connected := True\<rparr>) m)
         | TimesOut \<Rightarrow> (Some (ConnectionTimeout timeout), m)
         | ContextDone e \<Rightarrow> (Some (ContextError e), m)
         | LoopEnds \<Rightarrow> (Some StoppedUnexpectedly, m)))"

text \<open>
  The loop over the attempts, \<open>left\<close> of them remaining; \<open>cancel i\<close> is the error of the context when it is done
  during the delay after attempt \<open>i\<close>.
\<close>

fun retryLoop ::
  "nat \<Rightarrow> (nat \<Rightarrow> startEvent) \<Rightarrow> (nat \<Rightarrow> string option) \<Rightarrow> nat \<Rightarrow> starterror option \<Rightarrow> 's manager \<Rightarrow> starterror option \<times> 's manager"
where
  "retryLoop 0 ev cancel i lastErr m = (Some (RetriesFailed (maxRetries m) lastErr), m)"
| "retryLoop (Suc left) ev cancel i lastErr m =
     (case clientStart (ev i) m of
        (None, m) \<Rightarrow> (None, m)
      | (Some err, m) \<Rightarrow>
          (if left > 0 then
             (case cancel i of
                Some e \<Rightarrow> (Some (ContextError e), m)
              | None \<Rightarrow> retryLoop left ev cancel (i + 1) (Some err) m)
           else retryLoop left ev cancel (i + 1) (Some err) m))"

definition clientOnSyncComplete :: "'s manager \<Rightarrow> 's manager" where [simp]:
  "clientOnSyncComplete m = m\<lparr>hooks := hooks m + 1\<rparr>"

definition managerStart ::
  "(nat \<Rightarrow> startEvent) \<Rightarrow> (nat \<Rightarrow> string option) \<Rightarrow> coordinator \<Rightarrow> 's manager \<Rightarrow> starterror option \<times> coordinator \<times> 's manager"
where
  "managerStart ev cancel active m =
     (if starting m then (None, active, m)
      else
        (let m = m\<lparr>starting := True\<rparr>; addr = masterAddr (smNode m) in
         case tryAcquire addr active of
           (False, active) \<Rightarrow> (None, active, m\<lparr>starting := False\<rparr>)
         | (True, active) \<Rightarrow>
             (case retryLoop (maxRetries m) ev cancel 0 None (clientOnSyncComplete m) of
                (err, m) \<Rightarrow> (err, release addr active, m\<lparr>starting := False\<rparr>))))"

section \<open>Callbacks\<close>

definition smOnSyncComplete :: "nat \<Rightarrow> 's manager \<Rightarrow> 's manager" where
  "smOnSyncComplete fn m =
     (if initialSyncDone m then m\<lparr>called := called m @ [fn]\<rparr> else m\<lparr>smCallbacks := smCallbacks m @ [fn]\<rparr>)"

text \<open>The closure that \<^verbatim>\<open>Start\<close> registers, and what the client does at the end of a synchronisation.\<close>

definition syncHook :: "'s manager \<Rightarrow> 's manager" where
  "syncHook m = m\<lparr>initialSyncDone := True, called := called m @ smCallbacks m\<rparr>"

definition syncCompleted :: "'s manager \<Rightarrow> 's manager" where
  "syncCompleted m = (syncHook ^^ hooks m) m"

section \<open>Status\<close>

record ReplicationStats =
  rsConnected :: bool
  rsMasterAddr :: string
  rsMasterRunID :: string
  rsReplicationOffset :: int
  rsLastSyncTime :: int
  rsBytesReceived :: int
  rsCommandsProcessed :: int
  rsReconnectCount :: int
  rsInitialSyncCompleted :: bool
  rsInitialSyncProgress :: rat

text \<open>\<^verbatim>\<open>MasterRunID\<close> and \<^verbatim>\<open>BytesReceived\<close> are never assigned.\<close>

definition Stats :: "'s node \<Rightarrow> ReplicationStats" where
  "Stats n = \<lparr>rsConnected = statConnected n, rsMasterAddr = masterAddr n, rsMasterRunID = [],
     rsReplicationOffset = ReplicationOffset (nClient n), rsLastSyncTime = LastSyncTime (nClient n), rsBytesReceived = 0,
     rsCommandsProcessed = CommandsProcessed (nClient n), rsReconnectCount = ReconnectCount n,
     rsInitialSyncCompleted = InitialSyncCompleted (nClient n),
     rsInitialSyncProgress = InitialSyncProgress (nClient n)\<rparr>"

definition smSyncStatus :: "'s manager \<Rightarrow> SyncStatus" where
  "smSyncStatus m =
     (let stats = Stats (smNode m) in
      \<lparr>ssInitialSyncCompleted = initialSyncDone m, ssInitialSyncProgress = rsInitialSyncProgress stats,
       ssConnected = rsConnected stats, ssMasterHost = rsMasterAddr stats, ssReplicationOffset = rsReplicationOffset stats,
       ssLastSyncTime = rsLastSyncTime stats, ssBytesReceived = rsBytesReceived stats,
       ssCommandsProcessed = rsCommandsProcessed stats\<rparr>)"

definition IsInitialSyncCompleted :: "'s manager \<Rightarrow> bool" where
  "IsInitialSyncCompleted m = initialSyncDone m"

definition smIsConnected :: "'s manager \<Rightarrow> bool" where
  "smIsConnected m = rsConnected (Stats (smNode m))"

definition GetStats :: "'s manager \<Rightarrow> ReplicationStats" where
  "GetStats m = Stats (smNode m)"

definition smStop :: "('s node \<Rightarrow> bool) \<Rightarrow> 's manager \<Rightarrow> string option \<times> 's manager" where
  "smStop ends m = (case Stop ends (smNode m) of (err, n) \<Rightarrow> (err, m\<lparr>smNode := n\<rparr>))"

section \<open>Properties of the start\<close>

lemma clientStart_fields:
  "clientStart ev m = (e, m') \<Longrightarrow> masterAddr (smNode m') = masterAddr (smNode m) \<and> maxRetries m' = maxRetries m \<and>
     loops m \<le> loops m' \<and> loops m' \<le> loops m + 1 \<and> hooks m' = hooks m"
  by (auto simp: clientStart_def onNode_def Let_def split: if_splits startEvent.splits)

lemma retryLoop_loops:
  "retryLoop left ev cancel i lastErr m = (e, m') \<Longrightarrow> loops m \<le> loops m' \<and> loops m' \<le> loops m + left \<and>
     masterAddr (smNode m') = masterAddr (smNode m) \<and> hooks m' = hooks m"
proof (induction left arbitrary: i lastErr m)
  case (Suc left)
  obtain e1 m1 where one: "clientStart (ev i) m = (e1, m1)" by (cases "clientStart (ev i) m")
  with Suc.prems Suc.IH [of _ _ m1] clientStart_fields [OF one] show ?case
    by (cases e1) (fastforce split: if_splits option.splits)+
qed auto

lemma retryLoop_timeouts:
  "\<not> connected (smNode m) \<Longrightarrow> retryLoop left (\<lambda>_. TimesOut) (\<lambda>_. None) i lastErr m = (e, m') \<Longrightarrow> loops m' = loops m + left \<and> e \<noteq> None"
proof (induction left arbitrary: i lastErr m)
  case (Suc left)
  define m1 where "m1 = m\<lparr>loops := loops m + 1\<rparr>"
  obtain t where t: "clientStart TimesOut m = (Some (ConnectionTimeout t), m1)"
    using Suc.prems(1) by (simp add: clientStart_def m1_def Let_def)
  then have "retryLoop left (\<lambda>_. TimesOut) (\<lambda>_. None) (i + 1) (Some (ConnectionTimeout t)) m1 = (e, m')"
    using Suc.prems(2) by (auto split: if_splits)
  from Suc.IH [OF _ this] Suc.prems(1) show ?case by (simp add: m1_def)
qed auto

end
