(* ===== verification/Replica.thy ===== *)
theory Replica
  imports Options Sync_Correct
begin

text \<open>
  The replica itself (\<^verbatim>\<open>src/replica.go\<close>): how \<^verbatim>\<open>New\<close> builds the store, the synchronisation manager and the server from
  the configuration, and the life cycle of \<^verbatim>\<open>Start\<close>, \<^verbatim>\<open>WaitForSync\<close> and \<^verbatim>\<open>Close\<close>. \<open>rStore\<close> is the store that the
  manager and the server share; \<open>syncStarts\<close> counts the goroutines that start the synchronisation manager. Logging
  is left out.
\<close>

section \<open>Construction\<close>

record replica =
  rConfig :: config
  rStore :: memstore
  rManager :: "memstore manager"
  rServer :: "memstore server option"
  rListening :: bool
  rStarted :: bool
  rClosed :: bool
  rCallbacks :: "nat list"
  rCalled :: "nat list"
  syncStarts :: nat

datatype replicaerror = InvalidOption cfgerror | DefaultDatabaseFailed int string | ErrClosed | ErrNotConnected
  | ListenFailed string string | StopFailed string

definition newStore :: "config \<Rightarrow> memstore option" where
  "newStore cfg = map_option (\<lambda>s. if cfgMaxMemory cfg > 0 then SetMemoryLimit (cfgMaxMemory cfg) s else s)
     (NewMemory (if cfgShardCount cfg > 0 then [WithShardCount (cfgShardCount cfg)] else []))"

definition newManager :: "(string \<Rightarrow> string) \<Rightarrow> reader \<Rightarrow> writer \<Rightarrow> config \<Rightarrow> memstore \<Rightarrow> memstore manager" where
  "newManager U r w cfg s =
     (let m = NewSyncManager (cfgMasterAddr cfg) s r w;
          m = (if cfgMasterPassword cfg \<noteq> [] then smSetAuth (cfgMasterPassword cfg) m else m);
          m = (if cfgMasterTLS cfg \<noteq> None then smSetTLS (cfgMasterTLS cfg) m else m);
          m = (if cfgMetrics cfg then smSetMetrics m else m);
          m = smSetSyncTimeout (cfgSyncTimeout cfg) m;
          m = smSetConnectTimeout (cfgConnectTimeout cfg) m;
          m = smSetReadTimeout (cfgReadTimeout cfg) m;
          m = smSetWriteTimeout (cfgWriteTimeout cfg) m;
          m = smSetHeartbeatInterval (cfgHeartbeatInterval cfg) m;
          m = smSetCommandFilters U (cfgCommandFilters cfg) m in
      smSetDatabases (cfgDatabases cfg) m)"

definition newServer :: "config \<Rightarrow> memstore manager \<Rightarrow> memstore \<Rightarrow> memstore server option" where
  "newServer cfg m s =
     (if cfgReplicaAddr cfg = [] then None
      else
        (let srv = NewServer s;
             srv = (if cfgReplicaPassword cfg \<noteq> [] then SetPassword (cfgReplicaPassword cfg) srv else srv);
             srv = srv\<lparr>srvSync := Some (smSyncStatus m)\<rparr> in
         Some (if cfgRedirectWrites cfg then SetWriteRedirection True (cfgMasterAddr cfg) (cfgMasterPassword cfg) srv else srv)))"

text \<open>
  The callback that \<^verbatim>\<open>New\<close> registers with the manager is number 0; what it does is \<open>replicaSyncCompleted\<close> below. The
  outer \<open>None\<close> is a panic.
\<close>

definition build :: "(string \<Rightarrow> string) \<Rightarrow> reader \<Rightarrow> writer \<Rightarrow> config \<Rightarrow> memstore \<Rightarrow> replica" where
  "build U r w cfg s =
     (let m = newManager U r w cfg s in
      \<lparr>rConfig = cfg, rStore = s, rManager = smOnSyncComplete 0 m, rServer = newServer cfg m s, rListening = False,
       rStarted = False, rClosed = False, rCallbacks = [], rCalled = [], syncStarts = 0\<rparr>)"

definition New :: "(string \<Rightarrow> string) \<Rightarrow> reader \<Rightarrow> writer \<Rightarrow> roption list \<Rightarrow> (replicaerror + replica) option" where
  "New U r w opts =
     (case applyOptions opts defaultConfig of
        Inl e \<Rightarrow> Some (Inl (InvalidOption e))
      | Inr cfg \<Rightarrow>
          (case newStore cfg of
             None \<Rightarrow> None
           | Some s \<Rightarrow>
               (if cfgDefaultDatabase cfg \<noteq> 0 then
                  (case SelectDB (cfgDefaultDatabase cfg) s of
                     None \<Rightarrow> None
                   | Some (Inl err, _) \<Rightarrow> Some (Inl (DefaultDatabaseFailed (cfgDefaultDatabase cfg) (selectError err)))
                   | Some (Inr _, s) \<Rightarrow> Some (Inr (build U r w cfg s)))
                else Some (Inr (build U r w cfg s)))))"

section \<open>Life cycle\<close>

text \<open>\<open>listenErr\<close> is the error of listening on the configured address.\<close>

definition replicaStart :: "string option \<Rightarrow> replica \<Rightarrow> replicaerror option \<times> replica" where
  "replicaStart listenErr r =
     (if rClosed r then (Some ErrClosed, r)
      else if rStarted r then (None, r)
      else
        (let r = r\<lparr>syncStarts := syncStarts r + 1, rStarted := True\<rparr> in
         if rServer r = None then (None, r)
         else case listenErr of
             Some e \<Rightarrow> (Some (ListenFailed (cfgReplicaAddr (rConfig r)) e), r)
           | None \<Rightarrow> (None, r\<lparr>rListening := True\<rparr>)))"

definition isStarted :: "replica \<Rightarrow> bool" where
  "isStarted r \<longleftrightarrow> rStarted r \<and> \<not> rClosed r"

text \<open>The error with which \<^verbatim>\<open>WaitForSync\<close> returns before it begins to wait.\<close>

definition replicaWaitForSync :: "replica \<Rightarrow> replicaerror option" where
  "replicaWaitForSync r = (if isStarted r then None else Some ErrNotConnected)"

text \<open>The outer \<open>None\<close> is a panic: closing the storage twice.\<close>

definition replicaClose :: "(memstore node \<Rightarrow> bool) \<Rightarrow> replica \<Rightarrow> (replicaerror option \<times> replica) option" where
  "replicaClose ends r =
     (if rClosed r then Some (None, r)
      else
        (let r = r\<lparr>rClosed := True, rListening := False\<rparr>;
             (err, m) = (if rStarted r then smStop ends (rManager r) else (None, rManager r));
             r = r\<lparr>rManager := m\<rparr> in
         case err of
           Some e \<Rightarrow> Some (Some (StopFailed e), r)
         | None \<Rightarrow> map_option (\<lambda>s. (None, r\<lparr>rStore := s\<rparr>)) (Close (rStore r))))"

definition replicaOnSyncComplete :: "nat \<Rightarrow> replica \<Rightarrow> replica" where
  "replicaOnSyncComplete fn r = r\<lparr>rCallbacks := rCallbacks r @ [fn]\<rparr>"

definition replicaSyncCompleted :: "replica \<Rightarrow> replica" where
  "replicaSyncCompleted r = r\<lparr>rManager := (rManager r)\<lparr>initialSyncDone := True\<rparr>, rCalled := rCalled r @ rCallbacks r\<rparr>"

definition replicaSyncStatus :: "replica \<Rightarrow> SyncStatus" where
  "replicaSyncStatus r = smSyncStatus (rManager r)"

definition replicaIsConnected :: "replica \<Rightarrow> bool" where
  "replicaIsConnected r = smIsConnected (rManager r)"

section \<open>Information\<close>

definition Version :: string where "Version = ''1.5.0''"

text \<open>\<open>commit\<close> and \<open>buildTime\<close> are set by the build; the map is a list without repeated keys.\<close>

definition VersionInfo :: "string \<Rightarrow> string \<Rightarrow> (string \<times> string) list" where
  "VersionInfo commit buildTime = [(''version'', Version)] @ (if commit \<noteq> [] then [(''commit'', commit)] else []) @
     (if buildTime \<noteq> [] then [(''buildTime'', buildTime)] else [])"

record replicaInfo =
  riStore :: storeInfo
  riConnected :: bool
  riMasterHost :: string
  riInitialSyncCompleted :: bool
  riReplicationOffset :: int
  riCommandsProcessed :: int
  riVersion :: "(string \<times> string) list"

definition GetInfo :: "string \<Rightarrow> string \<Rightarrow> replica \<Rightarrow> replicaInfo option" where
  "GetInfo commit buildTime r =
     map_option (\<lambda>info. let status = replicaSyncStatus r in
       \<lparr>riStore = info, riConnected = ssConnected status, riMasterHost = ssMasterHost status,
        riInitialSyncCompleted = ssInitialSyncCompleted status, riReplicationOffset = ssReplicationOffset status,
        riCommandsProcessed = ssCommandsProcessed status, riVersion = VersionInfo commit buildTime\<rparr>) (Info (rStore r))"

text \<open>Direct access to the store.\<close>

definition replicaStorage :: "replica \<Rightarrow> memstore" where
  "replicaStorage r = rStore r"

section \<open>What New builds\<close>

lemma NewMemory_fields:
  "NewMemory (map WithShardCount counts) = Some s \<Longrightarrow> memoryLimit s = 0 \<and> currentDB s = 0 \<and> \<not> closed s"
proof -
  let ?s = "fold (\<lambda>opt s. opt s) (map WithShardCount counts) emptyMemory"
  have keep: "memoryLimit (WithShardCount n s) = memoryLimit s" "currentDB (WithShardCount n s) = currentDB s"
      "closed (WithShardCount n s) = closed s" for n s
    by (simp_all add: WithShardCount_def Let_def)
  have "memoryLimit ?s = memoryLimit emptyMemory \<and> currentDB ?s = currentDB emptyMemory \<and> closed ?s = closed emptyMemory"
    by (induction counts rule: rev_induct) (simp_all add: keep)
  moreover assume "NewMemory (map WithShardCount counts) = Some s"
  ultimately show ?thesis by (auto simp: NewMemory_def emptyMemory_def Let_def split: bind_splits)
qed

definition shardCounts :: "config \<Rightarrow> int list" where
  "shardCounts cfg = (if cfgShardCount cfg > 0 then [cfgShardCount cfg] else [])"

lemma newStore_counts:
  "newStore cfg = map_option (\<lambda>s. if cfgMaxMemory cfg > 0 then SetMemoryLimit (cfgMaxMemory cfg) s else s)
     (NewMemory (map WithShardCount (shardCounts cfg)))"
  by (simp add: newStore_def shardCounts_def)

lemma SetMemoryLimit_ok: "store_inv H (SetMemoryLimit l s) = store_inv H s" "contents (SetMemoryLimit l s) = contents s"
proof -
  have "db_ok H (SetMemoryLimit l s) = db_ok H s" by (intro ext db_ok_cong) (simp_all add: SetMemoryLimit_def)
  then show "store_inv H (SetMemoryLimit l s) = store_inv H s" by (simp add: store_inv_def sizes_ok_def SetMemoryLimit_def)
  show "contents (SetMemoryLimit l s) = contents s" by (simp add: contents_def SetMemoryLimit_def fun_eq_iff)
qed

lemma newStore_ok:
  assumes "cfgShardCount cfg \<le> 2 ^ 43" and "0 \<le> cfgMaxMemory cfg"
  shows "\<exists>s. newStore cfg = Some s \<and> store_inv H s \<and> contents s = (\<lambda>_. Map.empty) \<and>
    memoryLimit s = cfgMaxMemory cfg \<and> currentDB s = 0"
proof -
  obtain s where s: "NewMemory (map WithShardCount (shardCounts cfg)) = Some s" "store_inv H s" "contents s = (\<lambda>_. Map.empty)"
    using NewMemory_spec [of "shardCounts cfg" H] assms(1) by (auto simp: shardCounts_def)
  note fields = NewMemory_fields [OF s(1)]
  show ?thesis
  proof (cases "cfgMaxMemory cfg > 0")
    case True
    with s fields show ?thesis
      by (intro exI [of _ "SetMemoryLimit (cfgMaxMemory cfg) s"]) (simp add: newStore_counts SetMemoryLimit_ok, simp add: SetMemoryLimit_def)
  next
    case False
    with s fields assms(2) show ?thesis by (intro exI [of _ s]) (simp add: newStore_counts)
  qed
qed

lemma build_fields [simp]:
  "rConfig (build U r w cfg s) = cfg" "rStore (build U r w cfg s) = s" "rStarted (build U r w cfg s) = False"
  "rClosed (build U r w cfg s) = False" "rListening (build U r w cfg s) = False" "syncStarts (build U r w cfg s) = 0" "rServer (build U r w cfg s) = newServer cfg (newManager U r w cfg s) s"
  by (simp_all add: build_def Let_def)

lemma build_node:
  "smNode (rManager (build U r w cfg s)) = smNode (newManager U r w cfg s)" "nTLS (smNode (newManager U r w cfg s)) = None"
  "masterAddr (smNode (newManager U r w cfg s)) = cfgMasterAddr cfg"
  "readTimeout (smNode (newManager U r w cfg s)) = cfgReadTimeout cfg" "writeTimeout (smNode (newManager U r w cfg s)) = cfgWriteTimeout cfg"
  "masterPassword (nClient (smNode (newManager U r w cfg s))) = cfgMasterPassword cfg"
  "cDatabases (nClient (smNode (newManager U r w cfg s))) = remdups (cfgDatabases cfg)"
  "cMetrics (nClient (smNode (newManager U r w cfg s))) = (if cfgMetrics cfg then Some [] else None)"
  by (simp_all add: build_def newManager_def smSetAuth_def smSetMetrics_def SetMetrics_def smSetTLS_def smSetSyncTimeout_def smSetConnectTimeout_def smSetReadTimeout_def
      smSetWriteTimeout_def smSetHeartbeatInterval_def smSetCommandFilters_def smSetDatabases_def onNode_def onClient_def SetAuth_def
      SetSyncTimeout_def SetConnectTimeout_def SetReadTimeout_def SetWriteTimeout_def SetHeartbeatInterval_def SetCommandFilters_def
      SetDatabases_def NewSyncManager_def NewClient_def smOnSyncComplete_def Let_def)

lemma SelectDB_closed: "SelectDB d s = Some (e, s') \<Longrightarrow> closed s' = closed s"
  by (auto simp: SelectDB_def split: if_splits option.splits bind_splits)

lemma newStore_open: "newStore cfg = Some s \<Longrightarrow> \<not> closed s"
  using NewMemory_fields [of "shardCounts cfg"] by (auto simp: newStore_counts SetMemoryLimit_def split: if_splits)

lemma New_built: "New U r w opts = Some (Inr rep) \<Longrightarrow> \<exists>cfg s. rep = build U r w cfg s \<and> \<not> closed s"
proof -
  assume new: "New U r w opts = Some (Inr rep)"
  then obtain cfg s where s: "newStore cfg = Some s" "rep = build U r w cfg s \<or> (\<exists>s'. SelectDB (cfgDefaultDatabase cfg) s = Some (Inr (), s') \<and> rep = build U r w cfg s')"
    by (auto simp: New_def split: sum.splits option.splits if_splits prod.splits unit.splits)
  with newStore_open [OF s(1)] SelectDB_closed show ?thesis by blast
qed

lemma New_open: "New U r w opts = Some (Inr rep) \<Longrightarrow> \<not> rClosed rep \<and> \<not> closed (rStore rep) \<and> \<not> rStarted rep \<and> \<not> rListening rep \<and> syncStarts rep = 0"
  using New_built [of U r w opts rep] by auto

lemma New_cases:
  assumes "list_all exported opts" and "applyOptions opts defaultConfig = Inr cfg" and "cfgShardCount cfg \<le> 2 ^ 43"
  shows "\<exists>s. New U r w opts = Some (Inr (build U r w cfg s)) \<and> store_inv H s \<and> contents s = (\<lambda>_. Map.empty) \<and>
    memoryLimit s = cfgMaxMemory cfg \<and> currentDB s = cfgDefaultDatabase cfg"
proof -
  have valid: "config_valid cfg" by (rule applyOptions_valid [OF assms(1) defaultConfig_valid assms(2)])
  then obtain s where s: "newStore cfg = Some s" "store_inv H s" "contents s = (\<lambda>_. Map.empty)" "memoryLimit s = cfgMaxMemory cfg" "currentDB s = 0"
    using newStore_ok [OF assms(3), of H] by (auto simp: config_valid_def)
  obtain s' where "SelectDB (cfgDefaultDatabase cfg) s = Some (Inr (), s')" "store_inv H s'" "currentDB s' = cfgDefaultDatabase cfg"
      "contents s' = contents s" "memoryLimit s' = memoryLimit s"
    using SelectDB_spec [OF s(2), of "cfgDefaultDatabase cfg"] valid by (auto simp: config_valid_def)
  note s' = this
  show ?thesis
  proof (cases "cfgDefaultDatabase cfg = 0")
    case True
    with s assms(2) show ?thesis by (intro exI [of _ s]) (simp add: New_def)
  next
    case False
    with s s' assms(2) show ?thesis by (intro exI [of _ s']) (simp add: New_def)
  qed
qed



text \<open>
  The TLS settings never reach the replication client, since \<^verbatim>\<open>SyncManager.SetTLS\<close> does nothing: a replica that was
  asked for TLS connects in the clear and sends its password so.
\<close>

theorem tls_settings_ignored:
  assumes "New U r w opts = Some (Inr rep)"
  shows "nTLS (smNode (rManager rep)) = None"
  using New_built [OF assms] by (auto simp: build_node)

section \<open>Life cycle of a replica\<close>

text \<open>Replicas that can be reached; the store changes in between, but only \<^verbatim>\<open>Close\<close> closes it.\<close>

inductive lives :: "replica \<Rightarrow> bool" where
  new: "New U r w opts = Some (Inr rep) \<Longrightarrow> lives rep"
| start: "lives rep \<Longrightarrow> lives (snd (replicaStart listenErr rep))"
| register: "lives rep \<Longrightarrow> lives (replicaOnSyncComplete fn rep)"
| synced: "lives rep \<Longrightarrow> lives (replicaSyncCompleted rep)"
| work: "lives rep \<Longrightarrow> closed s = closed (rStore rep) \<Longrightarrow> lives (rep\<lparr>rStore := s\<rparr>)"
| close: "lives rep \<Longrightarrow> replicaClose ends rep = Some (e, rep') \<Longrightarrow> lives rep'"

lemma lives_inv: "lives rep \<Longrightarrow> (\<not> rClosed rep \<longrightarrow> \<not> closed (rStore rep)) \<and> syncStarts rep = (if rStarted rep then 1 else 0)"
proof (induction rule: lives.induct)
  case (new U r w opts rep)
  then show ?case using New_open by fastforce
next
  case (close rep ends e rep')
  then show ?case by (auto simp: replicaClose_def Let_def split: if_splits prod.splits option.splits)
qed (auto simp: replicaStart_def replicaOnSyncComplete_def replicaSyncCompleted_def Let_def split: option.splits)

lemma replicaClose_total: "lives rep \<Longrightarrow> \<exists>e rep'. replicaClose ends rep = Some (e, rep') \<and> rClosed rep'"
proof (cases "rClosed rep")
  case False
  assume "lives rep"
  with False have "Close (rStore rep) = Some ((rStore rep)\<lparr>closed := True\<rparr>)" using lives_inv by (simp add: Close_def)
  moreover obtain err m where "smStop ends (rManager rep) = (err, m)" by (cases "smStop ends (rManager rep)")
  ultimately show ?thesis using False by (cases err; cases "rStarted rep") (simp_all add: replicaClose_def Let_def)
qed (simp add: replicaClose_def)

text \<open>
  Claim C33: the life cycle of a replica. In whatever order and however often its methods are called, \<^verbatim>\<open>Close\<close> does not
  panic and closes the store at most once, and the synchronisation is started at most once; after \<^verbatim>\<open>Close\<close> the
  replica cannot be started or waited for any more and further calls of \<^verbatim>\<open>Close\<close> do nothing.
\<close>

theorem replica_lifecycle:
  assumes "lives rep"
  shows "syncStarts rep \<le> 1 \<and> (\<exists>e rep'. replicaClose ends rep = Some (e, rep') \<and> replicaStart listenErr rep' = (Some ErrClosed, rep') \<and>
    replicaWaitForSync rep' = Some ErrNotConnected \<and> replicaClose ends' rep' = Some (None, rep'))"
proof -
  obtain e rep' where rep': "replicaClose ends rep = Some (e, rep')" "rClosed rep'"
    using replicaClose_total [OF assms] by blast
  moreover have "syncStarts rep \<le> 1" using lives_inv [OF assms] by simp
  ultimately show ?thesis
    by (intro conjI exI [of _ e] exI [of _ rep']) (simp_all add: replicaStart_def replicaWaitForSync_def isStarted_def replicaClose_def [of ends'])
qed

definition demoReplica :: replica where
  "demoReplica = (case New id \<lparr>pending = [], endErr = EOF\<rparr> \<lparr>written = [], werr = None\<rparr> [WithReplicaAddr '':6380''] of Some (Inr rep) \<Rightarrow> rep)"

lemma demoReplica_new: "New id \<lparr>pending = [], endErr = EOF\<rparr> \<lparr>written = [], werr = None\<rparr> [WithReplicaAddr '':6380''] = Some (Inr demoReplica) \<and>
    rServer demoReplica \<noteq> None"
proof -
  let ?r = "\<lparr>pending = [], endErr = EOF\<rparr>" and ?w = "\<lparr>written = [], werr = None\<rparr>"
  have cfg: "applyOptions [WithReplicaAddr '':6380''] defaultConfig = Inr (defaultConfig\<lparr>cfgReplicaAddr := '':6380''\<rparr>)"
    by (simp add: option_defs)
  have "list_all exported [WithReplicaAddr '':6380'']" by (simp add: exported.intros)
  note made = New_cases [OF this cfg]
  obtain s where "New id ?r ?w [WithReplicaAddr '':6380''] = Some (Inr (build id ?r ?w (defaultConfig\<lparr>cfgReplicaAddr := '':6380''\<rparr>) s))"
    using made [of id ?r ?w] by (auto simp: defaultConfig_def)
  then show ?thesis by (simp add: demoReplica_def newServer_def Let_def)
qed

theorem replica_lifecycle_witness:
  "\<exists>e rep'. replicaClose (\<lambda>_. True) (snd (replicaStart None demoReplica)) = Some (e, rep') \<and> replicaWaitForSync rep' = Some ErrNotConnected"
proof -
  have "lives demoReplica" using demoReplica_new by (intro lives.new) blast
  then have "lives (snd (replicaStart None demoReplica))" by (rule lives.start)
  from replica_lifecycle [OF this, of "\<lambda>_. True"] show ?thesis by blast
qed

text \<open>When listening fails, \<^verbatim>\<open>Start\<close> returns the error; called again, it reports success, and no server listens.\<close>

theorem second_start_hides_listen_error:
  "\<exists>e rep. replicaStart (Some ''address already in use'') demoReplica = (Some e, rep) \<and> replicaStart None rep = (None, rep) \<and> \<not> rListening rep"
proof -
  have "\<not> rClosed demoReplica" "\<not> rStarted demoReplica" "rServer demoReplica \<noteq> None" "\<not> rListening demoReplica"
    using demoReplica_new New_open by blast+
  then show ?thesis by (simp add: replicaStart_def Let_def)
qed

text \<open>A callback registered with the replica after the initial synchronisation is not called.\<close>

theorem late_callback_not_called:
  "initialSyncDone (rManager rep) \<Longrightarrow> rCalled (replicaOnSyncComplete fn rep) = rCalled rep"
  by (simp add: replicaOnSyncComplete_def)

end
