(* ===== verification/Sync_Races.thy ===== *)
theory Sync_Races
  imports Sync_Correct
begin

text \<open>
  Two places where goroutines share state without one lock around the whole operation, as step relations: waiting
  for the initial synchronisation (\<^verbatim>\<open>WaitForSync\<close> in \<^verbatim>\<open>src/replication/sync.go\<close>), and the channels of the heartbeat
  (\<^verbatim>\<open>startHeartbeat\<close>, \<^verbatim>\<open>stopHeartbeat\<close> in \<^verbatim>\<open>src/replication/client.go\<close>). A step is what happens under one lock, or one
  operation on a channel.
\<close>

section \<open>Waiting for the initial synchronisation\<close>

datatype waitpc = Checking | Registering | Waiting | Released

record waitstate =
  wDone :: bool
  wRegistered :: "nat list"
  wPc :: "nat \<Rightarrow> waitpc"

definition waitStart :: waitstate where
  "waitStart = \<lparr>wDone = False, wRegistered = [], wPc = \<lambda>_. Checking\<rparr>"

text \<open>The two critical sections of \<^verbatim>\<open>WaitForSync\<close>, and the closure that runs when a synchronisation ends.\<close>

definition waitCheck :: "nat \<Rightarrow> waitstate \<Rightarrow> waitstate" where
  "waitCheck w s = s\<lparr>wPc := (wPc s)(w := if wDone s then Released else Registering)\<rparr>"

definition waitRegister :: "nat \<Rightarrow> waitstate \<Rightarrow> waitstate" where
  "waitRegister w s = s\<lparr>wRegistered := wRegistered s @ [w], wPc := (wPc s)(w := Waiting)\<rparr>"

definition waitComplete :: "waitstate \<Rightarrow> waitstate" where
  "waitComplete s = s\<lparr>wDone := True,
     wPc := \<lambda>w. if w \<in> set (wRegistered s) \<and> wPc s w = Waiting then Released else wPc s w\<rparr>"

inductive wait_step :: "waitstate \<Rightarrow> waitstate \<Rightarrow> bool" where
  check: "wPc s w = Checking \<Longrightarrow> wait_step s (waitCheck w s)"
| register: "wPc s w = Registering \<Longrightarrow> wait_step s (waitRegister w s)"

inductive wait_reachable :: "waitstate \<Rightarrow> bool" where
  start: "wait_reachable waitStart"
| step: "wait_reachable s \<Longrightarrow> wait_step s s' \<Longrightarrow> wait_reachable s'"
| complete: "wait_reachable s \<Longrightarrow> wait_reachable (waitComplete s)"

inductive_cases wait_stepE: "wait_step s s'"

lemmas wait_defs = waitCheck_def waitRegister_def waitComplete_def

lemma waiting_registered: "wait_reachable s \<Longrightarrow> wPc s w = Waiting \<Longrightarrow> w \<in> set (wRegistered s)"
proof (induction arbitrary: w rule: wait_reachable.induct)
  case start
  then show ?case by (simp add: waitStart_def)
next
  case (step s s')
  then show ?case by (auto simp: wait_defs split: if_splits elim!: wait_stepE)
next
  case (complete s)
  then show ?case by (auto simp: wait_defs split: if_splits)
qed

text \<open>
  The end of a synchronisation releases every caller of \<^verbatim>\<open>WaitForSync\<close> that is waiting, in whatever order
  the callers came, and a call made afterwards returns at once.
\<close>

theorem completion_releases_waiters:
  assumes "wait_reachable s"
  shows "wPc (waitComplete s) w \<noteq> Waiting \<and> (wPc s w = Checking \<longrightarrow> wPc (waitCheck w (waitComplete s)) w = Released)"
  using waiting_registered [OF assms, of w] by (auto simp: wait_defs)

theorem completion_releases_waiters_witness:
  "wPc (waitComplete (waitRegister 1 (waitCheck 1 waitStart))) 1 \<noteq> Waiting"
proof -
  have "wait_step waitStart (waitCheck 1 waitStart)" by (rule wait_step.check) (simp add: waitStart_def)
  moreover have "wait_step (waitCheck 1 waitStart) (waitRegister 1 (waitCheck 1 waitStart))"
    by (rule wait_step.register) (simp add: waitStart_def waitCheck_def)
  ultimately have "wait_reachable (waitRegister 1 (waitCheck 1 waitStart))"
    using wait_reachable.step [OF wait_reachable.step [OF wait_reachable.start]] by blast
  from completion_releases_waiters [OF this] show ?thesis by blast
qed

lemma waiting_stays: "rtranclp wait_step s s' \<Longrightarrow> wPc s w = Waiting \<Longrightarrow> wPc s' w = Waiting"
  by (induction rule: rtranclp_induct) (auto simp: wait_defs elim!: wait_stepE)

text \<open>
  A wake-up can be lost. When the synchronisation ends between the two critical sections of
  \<^verbatim>\<open>WaitForSync\<close>, the caller registers its callback after the callbacks have been run: it waits although the
  initial synchronisation is done, and goes on waiting whatever other callers do, until another
  synchronisation ends.
\<close>

theorem wait_for_sync_lost_wakeup:
  "\<exists>s. wait_reachable s \<and> wDone s \<and> wPc s w = Waiting \<and> (\<forall>s'. rtranclp wait_step s s' \<longrightarrow> wPc s' w = Waiting)"
proof -
  let ?a = "waitCheck w waitStart"
  have "wait_step waitStart ?a" by (rule wait_step.check) (simp add: waitStart_def)
  then have "wait_reachable (waitComplete ?a)" by (intro wait_reachable.complete wait_reachable.step [OF wait_reachable.start])
  moreover have "wait_step (waitComplete ?a) (waitRegister w (waitComplete ?a))"
    by (rule wait_step.register) (simp add: waitStart_def wait_defs)
  ultimately have "wait_reachable (waitRegister w (waitComplete ?a))" by (rule wait_reachable.step)
  moreover have "wDone (waitRegister w (waitComplete ?a))" "wPc (waitRegister w (waitComplete ?a)) w = Waiting"
    by (simp_all add: wait_defs)
  ultimately show ?thesis using waiting_stays by blast
qed

theorem wait_for_sync_lost_wakeup_witness: "\<exists>s. wait_reachable s \<and> wDone s \<and> wPc s 1 = Waiting"
  using wait_for_sync_lost_wakeup [of 1] by blast

section \<open>The heartbeat's channels\<close>

text \<open>
  Loops \<open>l\<close> that share a client; \<open>hbStop\<close> is the channel in the field \<^verbatim>\<open>heartbeatStop\<close>, \<open>hbClosed\<close> are the channels
  closed so far. Closing a closed channel panics.
\<close>

record hbstate =
  hbStop :: "nat option"
  hbClosed :: "nat set"
  hbNext :: nat
  hbStreaming :: "nat set"
  hbPanicked :: bool

definition hbInit :: hbstate where
  "hbInit = \<lparr>hbStop = None, hbClosed = {}, hbNext = 0, hbStreaming = {}, hbPanicked = False\<rparr>"

definition hbStart :: "duration \<Rightarrow> nat \<Rightarrow> hbstate \<Rightarrow> hbstate" where
  "hbStart interval l s =
     (let s = s\<lparr>hbStreaming := insert l (hbStreaming s)\<rparr> in
      if interval \<le> 0 then s else s\<lparr>hbStop := Some (hbNext s), hbNext := hbNext s + 1\<rparr>)"

definition hbEnd :: "nat \<Rightarrow> hbstate \<Rightarrow> hbstate" where
  "hbEnd l s =
     (let s = s\<lparr>hbStreaming := hbStreaming s - {l}\<rparr> in
      case hbStop s of
        None \<Rightarrow> s
      | Some ch \<Rightarrow> (if ch \<in> hbClosed s then s\<lparr>hbPanicked := True\<rparr> else s\<lparr>hbClosed := insert ch (hbClosed s)\<rparr>))"

inductive hb_reachable :: "duration \<Rightarrow> nat set \<Rightarrow> hbstate \<Rightarrow> bool" for interval and L where
  init: "hb_reachable interval L hbInit"
| start: "hb_reachable interval L s \<Longrightarrow> l \<in> L \<Longrightarrow> l \<notin> hbStreaming s \<Longrightarrow> hb_reachable interval L (hbStart interval l s)"
| stop: "hb_reachable interval L s \<Longrightarrow> l \<in> hbStreaming s \<Longrightarrow> hb_reachable interval L (hbEnd l s)"

definition hb_inv :: "duration \<Rightarrow> nat \<Rightarrow> hbstate \<Rightarrow> bool" where
  "hb_inv interval l s \<longleftrightarrow> \<not> hbPanicked s \<and> hbStreaming s \<subseteq> {l} \<and> (\<forall>ch \<in> hbClosed s. ch < hbNext s) \<and>
     (if interval \<le> 0 then hbStop s = None
      else hbStreaming s = {l} \<longrightarrow> (\<exists>ch. hbStop s = Some ch \<and> ch \<notin> hbClosed s \<and> ch < hbNext s))"

lemma one_loop_inv: "hb_reachable interval {l} s \<Longrightarrow> hb_inv interval l s"
proof (induction rule: hb_reachable.induct)
  case init
  then show ?case by (simp add: hb_inv_def hbInit_def)
next
  case (start s l')
  then show ?case by (auto simp: hb_inv_def hbStart_def Let_def)
next
  case (stop s l')
  then have "hbStreaming s = {l}" "l' = l" by (auto simp: hb_inv_def)
  with stop show ?case by (auto simp: hb_inv_def hbEnd_def Let_def split: if_splits)
qed

text \<open>
  A client with one replication loop never closes a heartbeat channel twice, however often it
  reconnects and whatever the interval.
\<close>

theorem one_loop_heartbeat_safe:
  assumes "hb_reachable interval {l} s"
  shows "\<not> hbPanicked s"
  using one_loop_inv [OF assms] by (simp add: hb_inv_def)

theorem one_loop_heartbeat_safe_witness:
  "\<not> hbPanicked (hbEnd 1 (hbStart 5 1 (hbEnd 1 (hbStart 5 1 hbInit))))"
proof -
  have "hb_reachable 5 {1} (hbStart 5 1 hbInit)" by (intro hb_reachable.start hb_reachable.init) (simp_all add: hbInit_def)
  then have once: "hb_reachable 5 {1} (hbEnd 1 (hbStart 5 1 hbInit))" by (rule hb_reachable.stop) (simp add: hbStart_def hbInit_def Let_def)
  then have "hb_reachable 5 {1} (hbStart 5 1 (hbEnd 1 (hbStart 5 1 hbInit)))"
    by (rule hb_reachable.start) (simp_all add: hbEnd_def hbStart_def hbInit_def Let_def)
  then have "hb_reachable 5 {1} (hbEnd 1 (hbStart 5 1 (hbEnd 1 (hbStart 5 1 hbInit))))"
    by (rule hb_reachable.stop) (simp add: hbStart_def Let_def)
  then show ?thesis by (rule one_loop_heartbeat_safe)
qed

text \<open>
  With two loops on one client, which retries of the start leave behind, the second to stop closes a channel that
  is closed already, and the program panics.
\<close>

theorem two_loops_panic:
  assumes "0 < interval" and "l \<noteq> l'"
  shows "\<exists>s. hb_reachable interval {l, l'} s \<and> hbPanicked s"
proof -
  let ?s = "hbStart interval l' (hbStart interval l hbInit)"
  have one: "hb_reachable interval {l, l'} (hbStart interval l hbInit)"
    by (rule hb_reachable.start [OF hb_reachable.init]) (simp_all add: hbInit_def)
  then have two: "hb_reachable interval {l, l'} ?s"
    by (rule hb_reachable.start) (use assms in \<open>simp_all add: hbStart_def hbInit_def Let_def\<close>)
  then have "hb_reachable interval {l, l'} (hbEnd l ?s)"
    by (rule hb_reachable.stop) (use assms in \<open>simp add: hbStart_def hbInit_def Let_def\<close>)
  then have "hb_reachable interval {l, l'} (hbEnd l' (hbEnd l ?s))"
    by (rule hb_reachable.stop) (use assms in \<open>simp add: hbEnd_def hbStart_def hbInit_def Let_def\<close>)
  moreover have "hbPanicked (hbEnd l' (hbEnd l ?s))" using assms by (simp add: hbEnd_def hbStart_def hbInit_def Let_def)
  ultimately show ?thesis by blast
qed

end
