(* ===== verification/Transitions.thy ===== *)
theory Transitions
  imports Main
begin

text \<open>
  Transition systems that wind down. The goroutines of the program take steps of their own and are interleaved with
  steps of the outside (clients, the network, the owner). A system winds down when every step of either kind lowers
  a rank and the system is never stuck before its final states: then every run is short, and a run that goes on as
  long as the system can by itself ends in a final state, whatever the outside does.
\<close>

locale winding_down =
  fixes step :: "'s \<Rightarrow> 's \<Rightarrow> bool" and own :: "'s \<Rightarrow> 's \<Rightarrow> bool" and inv :: "'s \<Rightarrow> bool" and final :: "'s \<Rightarrow> bool" and rank :: "'s \<Rightarrow> int"
  assumes own_step: "own s s' \<Longrightarrow> step s s'"
    and step_inv: "inv s \<Longrightarrow> step s s' \<Longrightarrow> inv s'"
    and step_rank: "inv s \<Longrightarrow> step s s' \<Longrightarrow> rank s' < rank s"
    and rank_nonneg: "inv s \<Longrightarrow> 0 \<le> rank s"
    and progress: "inv s \<Longrightarrow> \<not> final s \<Longrightarrow> \<exists>s'. own s s'"
begin

lemma run_rank: "(step ^^ n) s s' \<Longrightarrow> inv s \<Longrightarrow> inv s' \<and> int n + rank s' \<le> rank s"
proof (induction n arbitrary: s')
  case (Suc n)
  then obtain t where "(step ^^ n) s t" "step t s'" by auto
  with Suc.IH [of t] Suc.prems(2) step_inv [of t s'] step_rank [of t s'] show ?case by force
qed simp

lemma run_bounded: "(step ^^ n) s s' \<Longrightarrow> inv s \<Longrightarrow> int n \<le> rank s"
  using run_rank [of n s s'] rank_nonneg [of s'] by simp

lemma never_stuck: "(step ^^ n) s s' \<Longrightarrow> inv s \<Longrightarrow> final s' \<or> (\<exists>s''. own s' s'')"
  using run_rank [of n s s'] progress by blast

lemma reaches_final: "inv s \<Longrightarrow> \<exists>s'. rtranclp own s s' \<and> final s' \<and> inv s'"
proof (induction "nat (rank s)" arbitrary: s rule: less_induct)
  case less
  show ?case
  proof (cases "final s")
    case False
    then obtain t where "own s t" using progress less.prems by blast
    moreover have "nat (rank t) < nat (rank s)" "inv t"
      using calculation less.prems own_step step_rank step_inv rank_nonneg [of t] rank_nonneg [of s] by (force, blast)
    ultimately show ?thesis using less.hyps [of t] by (meson converse_rtranclp_into_rtranclp)
  qed (use less.prems in auto)
qed

end

end
