(* ===== verification/Server_Life.thy ===== *)
theory Server_Life
  imports Server Transitions
begin

text \<open>
  The life of the server (\<^verbatim>\<open>src/server/server.go\<close>): the listener, the accept loop, the goroutine of every
  connection and the shutdown by \<^verbatim>\<open>Stop\<close>, as a step relation over their interleavings. What a command does is
  the subject of \<open>Server\<close>; here a command is one step of its goroutine. \<^verbatim>\<open>Client.Close\<close> cancels the context
  of the connection, closes the connection and takes it out of the map of clients, in this order. It is taken as one
  step (a visit by \<^verbatim>\<open>Stop\<close> in between would only close the connection again), so a connection is in the map exactly
  while it is stored and not closed.
\<close>

section \<open>State\<close>

text \<open>Where the goroutine of a connection is: not yet running, at one of its steps, or over.\<close>

datatype handlerpc = Spawning | Checks | Reads | Executes | Closes | HandlerEnded

record connlife =
  hPc :: handlerpc
  hClosed :: bool

datatype acceptpc = AcceptLoop | AcceptWait | AcceptGot | AcceptSpawn | AcceptEnded

text \<open>Where \<^verbatim>\<open>Stop\<close> is; \<open>StopRange V\<close> still has to visit the connections \<open>V\<close>.\<close>

datatype stoppc = Serving | StopCancelled | StopListener | StopRange "nat list" | StopWait | StopDone

record serverlife =
  lListening :: bool
  lCancelled :: bool
  lWaitGroup :: int
  lAccept :: acceptpc
  lConns :: "connlife list"
  lConnCount :: int
  lStop :: stoppc

definition clientMap :: "serverlife \<Rightarrow> nat list" where
  "clientMap s = filter (\<lambda>i. \<not> hClosed (lConns s ! i)) [0..<length (lConns s)]"

section \<open>Operations\<close>

text \<open>\<^verbatim>\<open>Start\<close> of a new server; without the listener it fails and starts nothing.\<close>

definition serverStart :: "string option \<Rightarrow> string + serverlife" where
  "serverStart listenErr = (case listenErr of
      Some e \<Rightarrow> Inl e
    | None \<Rightarrow> Inr \<lparr>lListening = True, lCancelled = False, lWaitGroup = 1, lAccept = AcceptLoop, lConns = [],
        lConnCount = 0, lStop = Serving\<rparr>)"

text \<open>The accept loop: the test of the context, and an error of \<^verbatim>\<open>Accept\<close>.\<close>

definition acceptEnd :: "serverlife \<Rightarrow> serverlife" where
  "acceptEnd s = s\<lparr>lAccept := AcceptEnded, lWaitGroup := lWaitGroup s - 1\<rparr>"

definition acceptCheck :: "serverlife \<Rightarrow> serverlife" where
  "acceptCheck s = (if lCancelled s then acceptEnd s else s\<lparr>lAccept := AcceptWait\<rparr>)"

definition acceptError :: "serverlife \<Rightarrow> serverlife" where
  "acceptError s = (if lCancelled s then acceptEnd s else s\<lparr>lAccept := AcceptLoop\<rparr>)"

text \<open>\<^verbatim>\<open>handleNewClient\<close>: the connection is counted and stored, then its goroutine is added and started.\<close>

definition storeClient :: "serverlife \<Rightarrow> serverlife" where
  "storeClient s = s\<lparr>lConns := lConns s @ [\<lparr>hPc = Spawning, hClosed = False\<rparr>], lConnCount := lConnCount s + 1,
     lAccept := AcceptSpawn\<rparr>"

definition setPc :: "nat \<Rightarrow> handlerpc \<Rightarrow> serverlife \<Rightarrow> serverlife" where
  "setPc i pc s = s\<lparr>lConns := (lConns s)[i := (lConns s ! i)\<lparr>hPc := pc\<rparr>]\<rparr>"

definition spawnHandler :: "serverlife \<Rightarrow> serverlife" where
  "spawnHandler s = setPc (length (lConns s) - 1) Checks (s\<lparr>lWaitGroup := lWaitGroup s + 1, lAccept := AcceptLoop\<rparr>)"

definition clientClose :: "nat \<Rightarrow> serverlife \<Rightarrow> serverlife" where
  "clientClose i s = s\<lparr>lConns := (lConns s)[i := (lConns s ! i)\<lparr>hClosed := True\<rparr>]\<rparr>"

text \<open>The loop of a connection: the test of its context, and the deferred calls at its end.\<close>

definition handlerCheck :: "nat \<Rightarrow> serverlife \<Rightarrow> serverlife" where
  "handlerCheck i s = setPc i (if lCancelled s \<or> hClosed (lConns s ! i) then Closes else Reads) s"

definition handlerEnd :: "nat \<Rightarrow> serverlife \<Rightarrow> serverlife" where
  "handlerEnd i s = (setPc i HandlerEnded (clientClose i s))\<lparr>lWaitGroup := lWaitGroup s - 1\<rparr>"

text \<open>\<^verbatim>\<open>Stop\<close>, one statement after the other.\<close>

definition stopCancel :: "serverlife \<Rightarrow> serverlife" where
  "stopCancel s = s\<lparr>lCancelled := True, lStop := StopCancelled\<rparr>"

definition stopListener :: "serverlife \<Rightarrow> serverlife" where
  "stopListener s = s\<lparr>lListening := False, lStop := StopListener\<rparr>"

definition stopRange :: "serverlife \<Rightarrow> serverlife" where
  "stopRange s = s\<lparr>lStop := StopRange (clientMap s)\<rparr>"

definition stopVisit :: "nat list \<Rightarrow> nat \<Rightarrow> serverlife \<Rightarrow> serverlife" where
  "stopVisit V i s = (clientClose i s)\<lparr>lStop := StopRange (filter (\<lambda>j. j \<noteq> i) V)\<rparr>"

text \<open>\<^verbatim>\<open>Stats\<close>, without the counts of commands and errors, which \<open>Server\<close> keeps.\<close>

definition serverStats :: "serverlife \<Rightarrow> int \<times> int" where
  "serverStats s = (int (length (clientMap s)), lConnCount s)"

section \<open>Steps\<close>

abbreviation atPc :: "nat \<Rightarrow> handlerpc \<Rightarrow> serverlife \<Rightarrow> bool" where
  "atPc i pc s \<equiv> i < length (lConns s) \<and> hPc (lConns s ! i) = pc"

text \<open>
  What the goroutines of the server do by themselves. \<^verbatim>\<open>Range\<close> visits every connection that is in the map when it
  begins and stays there; it may visit others. A read or an accept fails once its connection or the
  listener is closed.
\<close>

inductive own_step :: "serverlife \<Rightarrow> serverlife \<Rightarrow> bool" where
  accept_check: "lAccept s = AcceptLoop \<Longrightarrow> own_step s (acceptCheck s)"
| accept_closed: "lAccept s = AcceptWait \<Longrightarrow> \<not> lListening s \<Longrightarrow> own_step s (acceptError s)"
| store_client: "lAccept s = AcceptGot \<Longrightarrow> own_step s (storeClient s)"
| spawn: "lAccept s = AcceptSpawn \<Longrightarrow> own_step s (spawnHandler s)"
| check: "atPc i Checks s \<Longrightarrow> own_step s (handlerCheck i s)"
| read_closed: "atPc i Reads s \<Longrightarrow> hClosed (lConns s ! i) \<Longrightarrow> own_step s (setPc i Closes s)"
| execute: "atPc i Executes s \<Longrightarrow> own_step s (setPc i Checks s)"
| quit: "atPc i Executes s \<Longrightarrow> own_step s (setPc i Checks (clientClose i s))"
| handler_end: "atPc i Closes s \<Longrightarrow> own_step s (handlerEnd i s)"
| stop_listener: "lStop s = StopCancelled \<Longrightarrow> own_step s (stopListener s)"
| stop_range: "lStop s = StopListener \<Longrightarrow> own_step s (stopRange s)"
| stop_visit: "lStop s = StopRange V \<Longrightarrow> i \<in> set (clientMap s) \<Longrightarrow> own_step s (stopVisit V i s)"
| stop_ranged: "lStop s = StopRange V \<Longrightarrow> set V \<inter> set (clientMap s) = {} \<Longrightarrow> own_step s (s\<lparr>lStop := StopWait\<rparr>)"
| stop_done: "lStop s = StopWait \<Longrightarrow> lWaitGroup s = 0 \<Longrightarrow> own_step s (s\<lparr>lStop := StopDone\<rparr>)"

text \<open>What comes from outside: clients connect, send and disconnect (or are silent too long), \<^verbatim>\<open>Accept\<close> fails for a
  reason of its own, and the owner calls \<^verbatim>\<open>Stop\<close>.\<close>

inductive outside_step :: "serverlife \<Rightarrow> serverlife \<Rightarrow> bool" where
  connects: "lAccept s = AcceptWait \<Longrightarrow> lListening s \<Longrightarrow> outside_step s (s\<lparr>lAccept := AcceptGot\<rparr>)"
| accept_fails: "lAccept s = AcceptWait \<Longrightarrow> outside_step s (acceptError s)"
| sends: "atPc i Reads s \<Longrightarrow> \<not> hClosed (lConns s ! i) \<Longrightarrow> outside_step s (setPc i Executes s)"
| leaves: "atPc i Reads s \<Longrightarrow> outside_step s (setPc i Closes s)"
| stops: "lStop s = Serving \<Longrightarrow> outside_step s (stopCancel s)"

inductive life_step :: "serverlife \<Rightarrow> serverlife \<Rightarrow> bool" where
  own: "own_step s s' \<Longrightarrow> life_step s s'"
| outside: "outside_step s s' \<Longrightarrow> life_step s s'"

inductive life_reachable :: "serverlife \<Rightarrow> bool" where
  start: "serverStart None = Inr s \<Longrightarrow> life_reachable s"
| step: "life_reachable s \<Longrightarrow> life_step s s' \<Longrightarrow> life_reachable s'"

inductive_cases own_stepE: "own_step s s'"
inductive_cases outside_stepE: "outside_step s s'"
inductive_cases life_stepE: "life_step s s'"

lemmas life_defs = serverStart_def acceptEnd_def acceptCheck_def acceptError_def storeClient_def setPc_def spawnHandler_def
  clientClose_def handlerCheck_def handlerEnd_def stopCancel_def stopListener_def stopRange_def stopVisit_def

section \<open>Invariant\<close>

definition works :: "connlife \<Rightarrow> int" where
  "works c = (if hPc c \<in> {Spawning, HandlerEnded} then 0 else 1)"

text \<open>
  What holds of connection \<open>i\<close> of \<open>n\<close>: in particular, no goroutine is left reading from an open connection once
  \<^verbatim>\<open>Stop\<close> has gone through the map.
\<close>

fun awaited :: "stoppc \<Rightarrow> nat \<Rightarrow> bool" where
  "awaited (StopRange V) i \<longleftrightarrow> i \<in> set V"
| "awaited StopWait i \<longleftrightarrow> False"
| "awaited StopDone i \<longleftrightarrow> False"
| "awaited _ i \<longleftrightarrow> True"

definition conn_ok :: "acceptpc \<Rightarrow> stoppc \<Rightarrow> nat \<Rightarrow> nat \<Rightarrow> connlife \<Rightarrow> bool" where
  "conn_ok acc stp n i c \<longleftrightarrow> (hPc c = Spawning \<longrightarrow> acc = AcceptSpawn \<and> i = n - 1) \<and> (hPc c = HandlerEnded \<longrightarrow> hClosed c) \<and>
     (hPc c = Reads \<longrightarrow> hClosed c \<or> awaited stp i)"

definition life_inv :: "serverlife \<Rightarrow> bool" where
  "life_inv s \<longleftrightarrow>
     lWaitGroup s = (if lAccept s = AcceptEnded then 0 else 1) + sum_list (map works (lConns s)) \<and>
     (lCancelled s \<longleftrightarrow> lStop s \<noteq> Serving) \<and> (lListening s \<longleftrightarrow> lStop s \<in> {Serving, StopCancelled}) \<and>
     (lAccept s = AcceptSpawn \<longrightarrow> lConns s \<noteq> [] \<and> hPc (lConns s ! (length (lConns s) - 1)) = Spawning) \<and>
     lConnCount s = int (length (lConns s)) \<and> (lStop s = StopDone \<longrightarrow> lWaitGroup s = 0) \<and>
     (\<forall>i < length (lConns s). conn_ok (lAccept s) (lStop s) (length (lConns s)) i (lConns s ! i))"

lemma sum_list_map_update:
  fixes f :: "'a \<Rightarrow> int"
  shows "i < length xs \<Longrightarrow> sum_list (map f (xs[i := x])) = sum_list (map f xs) - f (xs ! i) + f x"
  by (induction xs arbitrary: i) (auto split: nat.split)

lemma works_range [simp]: "0 \<le> works c" "works c \<le> 1"
  by (simp_all add: works_def)

lemma works_sum: "0 \<le> sum_list (map works cs)"
  by (induction cs) simp_all

lemma life_inv_start: "serverStart None = Inr s \<Longrightarrow> life_inv s"
  by (auto simp: life_defs life_inv_def)

lemma works_le_sum: "c \<in> set cs \<Longrightarrow> works c \<le> sum_list (map works cs)"
  using works_sum by (induction cs) (auto intro: add_increasing add_increasing2)

text \<open>A goroutine that runs is counted, so \<^verbatim>\<open>Wait\<close> has not returned.\<close>

lemma working_not_done:
  assumes "life_inv s" "i < length (lConns s)" "works (lConns s ! i) = 1"
  shows "lStop s \<noteq> StopDone"
  using assms works_le_sum [OF nth_mem [OF assms(2)]] by (auto simp: life_inv_def split: if_splits)

lemma accepting_not_done: "life_inv s \<Longrightarrow> lAccept s \<noteq> AcceptEnded \<Longrightarrow> lStop s \<noteq> StopDone"
  using works_sum [of "lConns s"] by (auto simp: life_inv_def)

lemma life_inv_conn:
  assumes inv: "life_inv s" and i: "i < length (lConns s)" and w: "works (lConns s ! i) = 1" "hPc c \<noteq> Spawning"
    and c: "conn_ok (lAccept s) (lStop s) (length (lConns s)) i c"
  shows "life_inv (s\<lparr>lConns := (lConns s)[i := c], lWaitGroup := lWaitGroup s - 1 + works c\<rparr>)"
proof -
  have "hPc (lConns s ! i) \<noteq> Spawning" using w by (auto simp: works_def split: if_splits)
  moreover have "sum_list (map works ((lConns s)[i := c])) = sum_list (map works (lConns s)) - 1 + works c"
    using i w by (simp add: sum_list_map_update)
  moreover have "lStop s \<noteq> StopDone" using working_not_done [OF inv i w(1)] .
  moreover have "\<forall>j < length (lConns s). conn_ok (lAccept s) (lStop s) (length (lConns s)) j ((lConns s)[i := c] ! j)"
    using inv c i by (simp add: life_inv_def nth_list_update)
  moreover have "lAccept s = AcceptSpawn \<longrightarrow> hPc ((lConns s)[i := c] ! (length (lConns s) - 1)) = Spawning"
    using inv i calculation(1) by (auto simp: life_inv_def nth_list_update)
  ultimately show ?thesis
    using inv by (auto simp add: life_inv_def simp del: map_update)
qed

text \<open>Closing a connection leaves its goroutine where it is.\<close>

lemma life_inv_close:
  assumes inv: "life_inv s" and i: "i < length (lConns s)"
  shows "life_inv (clientClose i s)"
proof -
  let ?c = "(lConns s ! i)\<lparr>hClosed := True\<rparr>"
  have "works ?c = works (lConns s ! i)" by (simp add: works_def)
  then have "sum_list (map works ((lConns s)[i := ?c])) = sum_list (map works (lConns s))"
    using i by (simp add: sum_list_map_update)
  moreover have "conn_ok (lAccept s) (lStop s) (length (lConns s)) i ?c"
    using inv i by (auto simp: life_inv_def conn_ok_def split: handlerpc.splits)
  moreover have "lAccept s = AcceptSpawn \<longrightarrow> hPc ((lConns s)[i := ?c] ! (length (lConns s) - 1)) = Spawning"
    using inv i by (auto simp: life_inv_def nth_list_update)
  moreover have "\<forall>j < length (lConns s). conn_ok (lAccept s) (lStop s) (length (lConns s)) j ((lConns s)[i := ?c] ! j)"
    using inv i calculation(2) by (simp add: life_inv_def nth_list_update)
  ultimately show ?thesis
    using inv by (auto simp: life_inv_def clientClose_def simp del: map_update)
qed

lemma life_inv_setPc:
  assumes "life_inv s" "atPc i old s" "old \<notin> {Spawning, HandlerEnded}" "pc \<notin> {Spawning, HandlerEnded}"
    "pc = Reads \<longrightarrow> lStop s = Serving"
  shows "life_inv (setPc i pc s)"
  using life_inv_conn [of s i "(lConns s ! i)\<lparr>hPc := pc\<rparr>"] assms by (auto simp: works_def setPc_def conn_ok_def)

lemma life_inv_handlerEnd:
  assumes "life_inv s" "atPc i Closes s"
  shows "life_inv (handlerEnd i s)"
  using life_inv_conn [of s i "\<lparr>hPc = HandlerEnded, hClosed = True\<rparr>"] assms
  by (cases "lConns s ! i") (simp add: works_def conn_ok_def life_defs)

lemma life_inv_accept:
  assumes "life_inv s" "lAccept s \<notin> {AcceptSpawn, AcceptEnded}" "acc \<noteq> AcceptSpawn"
  shows "life_inv (s\<lparr>lAccept := acc, lWaitGroup := lWaitGroup s - (if acc = AcceptEnded then 1 else 0)\<rparr>)"
proof -
  have "lStop s \<noteq> StopDone" using assms accepting_not_done [of s] by simp
  then show ?thesis using assms by (simp add: life_inv_def conn_ok_def)
qed

lemma life_inv_storeClient:
  assumes "life_inv s" "lAccept s = AcceptGot"
  shows "life_inv (storeClient s)"
  using assms by (auto simp: life_inv_def storeClient_def works_def conn_ok_def nth_append less_Suc_eq)

lemma life_inv_spawn:
  assumes inv: "life_inv s" and acc: "lAccept s = AcceptSpawn"
  shows "life_inv (spawnHandler s)"
proof -
  obtain cs c where cs: "lConns s = cs @ [c]" using inv acc by (cases "lConns s" rule: rev_cases) (auto simp: life_inv_def)
  have "hPc c = Spawning" using inv acc cs by (simp add: life_inv_def)
  moreover have "conn_ok AcceptLoop (lStop s) (Suc (length cs)) j (cs ! j)" if "j < length cs" for j
    using inv that cs by (auto simp: life_inv_def conn_ok_def nth_append dest: spec [of _ j])
  moreover have "lStop s \<noteq> StopDone" using accepting_not_done [OF inv] acc by simp
  moreover have "spawnHandler s = s\<lparr>lWaitGroup := lWaitGroup s + 1, lAccept := AcceptLoop, lConns := cs @ [c\<lparr>hPc := Checks\<rparr>]\<rparr>"
    using cs by (simp add: spawnHandler_def setPc_def)
  ultimately show ?thesis
    using inv acc cs by (auto simp: life_inv_def works_def conn_ok_def nth_append less_Suc_eq)
qed

lemma in_clientMap: "i \<in> set (clientMap s) \<longleftrightarrow> i < length (lConns s) \<and> \<not> hClosed (lConns s ! i)"
  by (auto simp: clientMap_def)

lemma life_inv_stop:
  assumes "life_inv s" "lStop s \<notin> {Serving, StopCancelled}" "stp \<notin> {Serving, StopCancelled}" "stp = StopDone \<longrightarrow> lWaitGroup s = 0"
    and "\<And>i. i \<in> set (clientMap s) \<Longrightarrow> awaited (lStop s) i \<Longrightarrow> awaited stp i"
  shows "life_inv (s\<lparr>lStop := stp\<rparr>)"
proof -
  have "conn_ok (lAccept s) stp (length (lConns s)) i (lConns s ! i)" if "i < length (lConns s)" for i
    using assms(1) assms(5) [of i] that by (auto simp: life_inv_def conn_ok_def in_clientMap)
  then show ?thesis using assms(1-4) by (simp add: life_inv_def)
qed

lemma own_step_inv: "own_step s s' \<Longrightarrow> life_inv s \<Longrightarrow> life_inv s'"
proof (induction rule: own_step.induct)
  case (accept_check s)
  then show ?case using life_inv_accept [of s AcceptWait] life_inv_accept [of s AcceptEnded] by (simp add: acceptCheck_def acceptEnd_def)
next
  case (accept_closed s)
  then show ?case using life_inv_accept [of s AcceptLoop] life_inv_accept [of s AcceptEnded] by (simp add: acceptError_def acceptEnd_def)
next
  case (check i s)
  then show ?case unfolding handlerCheck_def by (intro life_inv_setPc) (auto simp: life_inv_def)
next
  case (quit i s)
  then show ?case by (intro life_inv_setPc [where old = Executes] life_inv_close) (auto simp: clientClose_def)
next
  case (stop_listener s)
  then show ?case by (simp add: life_inv_def stopListener_def conn_ok_def)
next
  case (stop_range s)
  then show ?case unfolding stopRange_def by (intro life_inv_stop) auto
next
  case (stop_visit s V i)
  then show ?case unfolding stopVisit_def by (intro life_inv_stop life_inv_close) (auto simp: in_clientMap clientClose_def)
next
  case (stop_ranged s V)
  then show ?case by (intro life_inv_stop) auto
next
  case (stop_done s)
  then show ?case by (intro life_inv_stop) auto
qed (auto intro: life_inv_storeClient life_inv_spawn life_inv_setPc life_inv_handlerEnd)

lemma outside_step_inv: "outside_step s s' \<Longrightarrow> life_inv s \<Longrightarrow> life_inv s'"
proof (induction rule: outside_step.induct)
  case (accept_fails s)
  then show ?case using life_inv_accept [of s AcceptLoop] life_inv_accept [of s AcceptEnded] by (simp add: acceptError_def acceptEnd_def)
next
  case (connects s)
  then show ?case using life_inv_accept [of s AcceptGot] by simp
next
  case (stops s)
  then show ?case by (simp add: life_inv_def stopCancel_def conn_ok_def)
qed (auto intro: life_inv_setPc)

lemma reachable_life_inv: "life_reachable s \<Longrightarrow> life_inv s"
  by (induction rule: life_reachable.induct) (auto intro: life_inv_start own_step_inv outside_step_inv elim!: life_stepE)

section \<open>Shutdown\<close>

text \<open>What is left to do after \<^verbatim>\<open>Stop\<close> has cancelled the context, goroutine by goroutine.\<close>

definition handlerRank :: "connlife \<Rightarrow> int" where
  "handlerRank c = (case hPc c of Spawning \<Rightarrow> 2 | Checks \<Rightarrow> 2 | Reads \<Rightarrow> 4 | Executes \<Rightarrow> 3 | Closes \<Rightarrow> 1 | HandlerEnded \<Rightarrow> 0) +
     (if hClosed c then 0 else 1)"

fun acceptRank :: "acceptpc \<Rightarrow> int" where
  "acceptRank AcceptWait = 7" | "acceptRank AcceptGot = 6" | "acceptRank AcceptSpawn = 2" | "acceptRank AcceptLoop = 1"
| "acceptRank AcceptEnded = 0"

fun stopRank :: "stoppc \<Rightarrow> int" where
  "stopRank Serving = 5" | "stopRank StopCancelled = 4" | "stopRank StopListener = 3" | "stopRank (StopRange V) = 2"
| "stopRank StopWait = 1" | "stopRank StopDone = 0"

definition shutdownRank :: "serverlife \<Rightarrow> int" where
  "shutdownRank s = sum_list (map handlerRank (lConns s)) + acceptRank (lAccept s) + stopRank (lStop s)"

lemma handlerRank_nonneg: "0 \<le> handlerRank c"
  by (simp add: handlerRank_def split: handlerpc.split)

lemma shutdownRank_nonneg: "0 \<le> shutdownRank s"
proof -
  have "0 \<le> sum_list (map handlerRank cs)" for cs
    using handlerRank_nonneg by (induction cs) (simp_all add: add_nonneg_nonneg)
  moreover have "0 \<le> acceptRank acc" "0 \<le> stopRank stp" for acc stp by (cases acc; simp) (cases stp; simp)
  ultimately show ?thesis by (simp add: shutdownRank_def add_nonneg_nonneg)
qed

lemma handlerRank_update:
  "i < length cs \<Longrightarrow> handlerRank c < handlerRank (cs ! i) \<Longrightarrow>
    sum_list (map handlerRank (cs[i := c])) < sum_list (map handlerRank cs)"
  using sum_list_map_update [of i cs handlerRank c] by simp

lemma own_step_rank: "own_step s s' \<Longrightarrow> life_inv s \<Longrightarrow> lCancelled s \<Longrightarrow> shutdownRank s' < shutdownRank s"
proof (induction rule: own_step.induct)
  case (spawn s)
  then obtain cs c where cs: "lConns s = cs @ [c]" by (cases "lConns s" rule: rev_cases) (auto simp: life_inv_def)
  then have "hPc c = Spawning" using spawn by (simp add: life_inv_def)
  then show ?case using spawn cs by (simp add: shutdownRank_def spawnHandler_def setPc_def handlerRank_def)
qed (auto simp: shutdownRank_def life_defs handlerRank_def in_clientMap simp del: map_update intro!: handlerRank_update)

lemma outside_step_rank: "outside_step s s' \<Longrightarrow> lCancelled s \<Longrightarrow> life_inv s \<Longrightarrow> shutdownRank s' < shutdownRank s"
  by (induction rule: outside_step.induct)
    (auto simp: shutdownRank_def life_defs handlerRank_def life_inv_def simp del: map_update intro!: handlerRank_update)

lemma working_handler:
  assumes "life_inv s" "lAccept s = AcceptEnded" "lWaitGroup s \<noteq> 0"
  shows "\<exists>i. i < length (lConns s) \<and> works (lConns s ! i) = 1"
proof (rule ccontr)
  assume "\<not> ?thesis"
  then have "\<forall>c \<in> set (lConns s). works c = 0" by (auto simp: in_set_conv_nth works_def split: if_splits)
  then have "sum_list (map works (lConns s)) = 0" by (simp add: sum_list_0 cong: map_cong)
  then show False using assms by (simp add: life_inv_def)
qed

text \<open>While \<^verbatim>\<open>Stop\<close> waits for the goroutines, one of them can go on without the help of a client.\<close>

lemma waiting_progress:
  assumes inv: "life_inv s" and stp: "lStop s = StopWait"
  shows "\<exists>s'. own_step s s'"
proof (cases "lWaitGroup s = 0")
  case False
  show ?thesis
  proof (cases "lAccept s = AcceptEnded")
    case True
    then obtain i where i: "i < length (lConns s)" "works (lConns s ! i) = 1" using working_handler [OF inv] False by blast
    then have "hPc (lConns s ! i) = Reads \<longrightarrow> hClosed (lConns s ! i)"
      using inv stp by (auto simp: life_inv_def conn_ok_def)
    then show ?thesis using i
      by (cases "hPc (lConns s ! i)") (auto simp: works_def intro: own_step.check own_step.read_closed own_step.execute own_step.handler_end)
  next
    case False
    have "\<not> lListening s" using inv stp by (simp add: life_inv_def)
    then show ?thesis using False
      by (cases "lAccept s") (auto intro: own_step.accept_check own_step.accept_closed own_step.store_client own_step.spawn)
  qed
qed (use stp own_step.stop_done in blast)

lemma stopping_progress:
  assumes "life_inv s" "lStop s \<noteq> Serving" "lStop s \<noteq> StopDone"
  shows "\<exists>s'. own_step s s'"
proof (cases "lStop s")
  case (StopRange V)
  then show ?thesis using own_step.stop_visit [of s V] own_step.stop_ranged [of s V] by blast
qed (use assms waiting_progress own_step.stop_listener own_step.stop_range in blast)+

interpretation shutdown: winding_down life_step own_step "\<lambda>s. life_inv s \<and> lStop s \<noteq> Serving" "\<lambda>s. lStop s = StopDone" shutdownRank
proof
  fix s s'
  assume inv: "life_inv s \<and> lStop s \<noteq> Serving" and step: "life_step s s'"
  have "lStop s' \<noteq> Serving" using step inv
    by (auto simp: life_defs split: if_splits elim!: life_stepE own_stepE outside_stepE)
  then show "life_inv s' \<and> lStop s' \<noteq> Serving" using step inv own_step_inv outside_step_inv by (auto elim!: life_stepE)
  have "lCancelled s" using inv by (simp add: life_inv_def)
  then show "shutdownRank s' < shutdownRank s" using step inv own_step_rank outside_step_rank by (auto elim!: life_stepE)
qed (auto intro: life_step.own shutdownRank_nonneg stopping_progress)

lemma stopped_clean:
  assumes "life_inv s" "lStop s = StopDone"
  shows "lAccept s = AcceptEnded \<and> \<not> lListening s \<and> clientMap s = [] \<and> (\<forall>c \<in> set (lConns s). hPc c = HandlerEnded \<and> hClosed c)"
proof -
  have acc: "lAccept s = AcceptEnded" using accepting_not_done assms by blast
  have "hPc c = HandlerEnded \<and> hClosed c" if mem: "c \<in> set (lConns s)" for c
  proof -
    obtain i where i: "i < length (lConns s)" "lConns s ! i = c" using mem by (auto simp: in_set_conv_nth)
    then have "works c \<noteq> 1" "conn_ok (lAccept s) (lStop s) (length (lConns s)) i c"
      using working_not_done [of s i] assms by (auto simp: life_inv_def)
    then show ?thesis using acc by (auto simp: works_def conn_ok_def split: if_splits)
  qed
  moreover have "\<not> lListening s" using assms by (simp add: life_inv_def)
  ultimately show ?thesis using acc by (auto simp: clientMap_def filter_empty_conv)
qed


text \<open>A server with one client that waits for its next command when \<^verbatim>\<open>Stop\<close> is called.\<close>

definition stoppedServer :: serverlife where
  "stoppedServer = \<lparr>lListening = True, lCancelled = True, lWaitGroup = 2, lAccept = AcceptWait,
     lConns = [\<lparr>hPc = Reads, hClosed = False\<rparr>], lConnCount = 1, lStop = StopCancelled\<rparr>"

lemma stoppedServer_reachable: "life_reachable stoppedServer"
proof -
  define s0 where "s0 = projr (serverStart None)"
  have r0: "life_reachable s0" by (rule life_reachable.start) (simp add: s0_def serverStart_def)
  note go = life_reachable.step [OF _ life_step.own] life_reachable.step [OF _ life_step.outside]
  have r1: "life_reachable (acceptCheck s0)" by (rule go(1) [OF r0], rule own_step.accept_check) (simp add: s0_def life_defs)
  have r2: "life_reachable ((acceptCheck s0)\<lparr>lAccept := AcceptGot\<rparr>)"
    by (rule go(2) [OF r1], rule outside_step.connects) (simp_all add: s0_def life_defs)
  have r3: "life_reachable (storeClient ((acceptCheck s0)\<lparr>lAccept := AcceptGot\<rparr>))" (is "life_reachable ?s3")
    by (rule go(1) [OF r2], rule own_step.store_client) simp
  have r4: "life_reachable (spawnHandler ?s3)" by (rule go(1) [OF r3], rule own_step.spawn) (simp add: life_defs)
  have r5: "life_reachable (acceptCheck (spawnHandler ?s3))"
    by (rule go(1) [OF r4], rule own_step.accept_check) (simp add: s0_def life_defs)
  have r6: "life_reachable (handlerCheck 0 (acceptCheck (spawnHandler ?s3)))"
    by (rule go(1) [OF r5], rule own_step.check) (simp add: s0_def life_defs)
  have "life_reachable (stopCancel (handlerCheck 0 (acceptCheck (spawnHandler ?s3))))"
    by (rule go(2) [OF r6], rule outside_step.stops) (simp add: s0_def life_defs)
  then show ?thesis by (simp add: s0_def life_defs stoppedServer_def)
qed


text \<open>The statistics: never more clients are connected than connections were made.\<close>

lemma serverStats_consistent:
  assumes "life_reachable s"
  shows "0 \<le> fst (serverStats s) \<and> fst (serverStats s) \<le> snd (serverStats s)"
  using reachable_life_inv [OF assms] length_filter_le [of "\<lambda>i. \<not> hClosed (lConns s ! i)" "[0..<length (lConns s)]"]
  by (simp add: serverStats_def clientMap_def life_inv_def)

end
