(* ===== verification/Serving.thy ===== *)
theory Serving
  imports Server_Properties Repl_Correct
begin

text \<open>
  What a client of the replica sees, from the bytes it sends to the bytes it gets. The specification \<open>serve\<close> is a
  server over a map of the databases that never changes; the server of \<^verbatim>\<open>src/server/server.go\<close> answers a pipeline of
  reading commands as the specification does, although it deletes expired keys on the way and reads the clock again
  and again. With the results on replication this gives the end-to-end property: the bytes a master sends
  determine the bytes a client gets.
\<close>

section \<open>Specification\<close>

definition bulkReply :: "string option \<Rightarrow> pvalue" where
  "bulkReply v = (case v of None \<Rightarrow> NullBulkV | Some d \<Rightarrow> BulkV d)"

definition stringAt :: "int \<Rightarrow> dbmap \<Rightarrow> int \<Rightarrow> string \<Rightarrow> string option" where
  "stringAt now m db k = Option.bind (unexpired now m db k) stringData"

text \<open>
  Reply and database selected afterwards; \<open>clock i\<close> is reading number \<open>i\<close> of the clock during the command. \<open>None\<close> for
  commands and arguments outside the specification.
\<close>

definition serve :: "(nat \<Rightarrow> int) \<Rightarrow> dbmap \<Rightarrow> int \<Rightarrow> string \<Rightarrow> string list \<Rightarrow> (pvalue \<times> int) option" where
  "serve clock m db name args =
     (if name = ''SELECT'' \<and> length args = 1 then
        Some (case Atoi (args ! 0) of
            None \<Rightarrow> (ErrorV ''ERR invalid DB index'', db)
          | Some d \<Rightarrow> if 0 \<le> d \<and> d \<le> 15 then (SimpleV ''OK'', d) else (ErrorV (''ERR '' @ selectError d), db))
      else if name = ''PING'' \<and> length args \<le> 1 then Some (if args = [] then SimpleV ''PONG'' else BulkV (args ! 0), db)
      else if name = ''MGET'' \<and> args \<noteq> [] then
        Some (ArrayV (map bulkReply (map (\<lambda>(i, k). stringAt (clock i) m db k) (enumerate 0 args))), db)
      else map_option (\<lambda>v. (v, db)) (answer (clock 0) (unexpired (clock 0) m db) name args))"

fun serveAll :: "(nat \<Rightarrow> nat \<Rightarrow> int) \<Rightarrow> nat \<Rightarrow> dbmap \<Rightarrow> int \<Rightarrow> (string \<times> string list) list \<Rightarrow> pvalue list option" where
  "serveAll clock t m db [] = Some []"
| "serveAll clock t m db ((name, args) # cmds) =
     (case serve (clock t) m db (map upperASCII name) args of
        None \<Rightarrow> None
      | Some (v, db') \<Rightarrow> map_option (\<lambda>vs. v # vs) (serveAll clock (t + 1) m db' cmds))"

text \<open>The clock does not go back, within a command and from one command to the next.\<close>

definition forward :: "(nat \<Rightarrow> nat \<Rightarrow> int) \<Rightarrow> bool" where
  "forward clock \<longleftrightarrow> (\<forall>t. mono (clock t)) \<and> (\<forall>t i. clock t i \<le> clock (t + 1) 0)"

section \<open>One command\<close>

lemma ToUpper_idem: "isASCII s \<Longrightarrow> ToUpper U s = map upperASCII s \<and> ToUpper U (map upperASCII s) = map upperASCII s"
proof -
  assume ascii: "isASCII s"
  have "upperASCII (upperASCII c) = upperASCII c" for c
    using upperASCII_val [of c] by (auto simp: upperASCII_def [of "upperASCII c"] split: if_splits)
  moreover have "isASCII (map upperASCII s)" using ascii by (auto simp: isASCII_def upperASCII_val)
  ultimately show ?thesis using ascii by (simp add: ToUpper_def)
qed

lemma ReplaceByte_none: "b \<notin> set s \<Longrightarrow> ReplaceByte b r s = s"
  by (induction s) auto

lemma writeError_bytes:
  assumes "werr (cwriter c) = None" "LF \<notin> set m" "CR \<notin> set m"
  shows "cwriter (writeError m c) = (cwriter c)\<lparr>written := written (cwriter c) @ wire (ErrorV m)\<rparr>"
  using puts_ok [OF puts_WriteError [of m], of "cwriter c"] assms
  by (simp add: writeError_def send_def Flush_def Let_def ReplaceByte_none)

lemma writeArray_bytes:
  assumes "werr (cwriter c) = None" "map (convertToValue env) vs = map bulkReply xs"
  shows "cwriter (writeArray env vs c) = (cwriter c)\<lparr>written := written (cwriter c) @ wire (ArrayV (map bulkReply xs))\<rparr>"
proof -
  have "list_all writable (map bulkReply xs)" by (auto simp: list_all_iff bulkReply_def split: option.splits)
  then show ?thesis
    using puts_ok [OF puts_WriteArray assms(1)] assms(2) by (simp add: writeArray_def send_def Flush_def)
qed

lemma selectError_plain: "LF \<notin> set (''ERR '' @ selectError d) \<and> CR \<notin> set (''ERR '' @ selectError d)"
proof -
  have "c \<noteq> LF \<and> c \<noteq> CR" if "c \<in> set (FormatInt d)" for c using FormatInt_chars [OF that] by (auto simp: is_digit_def)
  then show ?thesis by (auto simp: selectError_def)
qed

context storage_reads
begin

lemma mget_serves:
  assumes "mono clock"
  shows "inv s \<Longrightarrow> unexpired (clock i) (view s) = unexpired (clock i) m \<Longrightarrow>
    \<exists>vs s'. mgetLoop st clock i ks s = Some (vs, s') \<and> stCurrentDB st s' = stCurrentDB st s \<and>
      map (convertToValue env) vs = map bulkReply (map (\<lambda>(i, k). stringAt (clock i) m (stCurrentDB st s) k) (enumerate i ks))"
proof (induction ks arbitrary: i s)
  case (Cons k ks)
  obtain s1 where get: "stGet st (clock i) k s = Some (stringAt (clock i) m (stCurrentDB st s) k, s1)"
      "inv s1" "stCurrentDB st s1 = stCurrentDB st s" "unexpired (clock i) (view s1) = unexpired (clock i) (view s)"
    using get_law [OF Cons.prems(1), of "clock i" k] Cons.prems(2) by (auto simp: stringAt_def)
  have "unexpired (clock (i + 1)) (view s1) = unexpired (clock (i + 1)) m"
    using unexpired_later [of "clock i" "view s1" m "clock (i + 1)"] get(4) Cons.prems(2) assms by (simp add: mono_def)
  with Cons.IH [OF get(2), of "i + 1"] get(1,3) show ?case
    by (auto simp: bulkReply_def split: option.splits)
qed simp

lemma select_serves:
  assumes inv: "inv (storageOf c)" and st: "envStorage env = st" and ok: "werr (cwriter c) = None" and one: "length (cmdArgs cmd) = 1"
    and v: "serve clock m (stCurrentDB st (storageOf c)) ''SELECT'' (cmdArgs cmd) = Some (v, db)"
  shows "\<exists>c'. handleSelect env cmd c = Some c' \<and> cwriter c' = (cwriter c)\<lparr>written := written (cwriter c) @ wire v\<rparr> \<and>
    stCurrentDB st (storageOf c') = db \<and> cclosed c' = cclosed c"
proof (cases "Atoi (cmdArgs cmd ! 0)")
  case None
  then show ?thesis using one v writeError_bytes [OF ok, of "''ERR invalid DB index''"] by (simp add: serve_def handleSelect_def)
next
  case (Some d)
  show ?thesis
  proof (cases "0 \<le> d \<and> d \<le> 15")
    case True
    then obtain s' where s': "stSelectDB st d (storageOf c) = Some (None, s')" "stCurrentDB st s' = d" using select_law [OF inv] by blast
    have "v = SimpleV ''OK''" "db = d" using one v Some True by (simp_all add: serve_def)
    then show ?thesis using one Some s' reply_bytes(4) [of "(putStorage s' c)\<lparr>cdb := d\<rparr>" "''OK''"] ok
      by (simp add: handleSelect_def st)
  next
    case False
    then have "stSelectDB st d (storageOf c) = Some (Some (selectError d), storageOf c)" using select_bad by auto
    moreover have "v = ErrorV (''ERR '' @ selectError d)" "db = stCurrentDB st (storageOf c)"
      using one v Some False by (auto simp: serve_def)
    ultimately show ?thesis
      using one Some writeError_bytes [of "putStorage (storageOf c) c" "''ERR '' @ selectError d"] selectError_plain ok
      by (simp add: handleSelect_def st)
  qed
qed

lemma ping_serves:
  assumes ok: "werr (cwriter c) = None" and "length (cmdArgs cmd) \<le> 1" and "serve clock m d ''PING'' (cmdArgs cmd) = Some (v, db)"
  shows "cwriter (handlePing cmd c) = (cwriter c)\<lparr>written := written (cwriter c) @ wire v\<rparr> \<and>
    storageOf (handlePing cmd c) = storageOf c \<and> cclosed (handlePing cmd c) = cclosed c \<and> db = d"
  using assms(2,3) by (cases "cmdArgs cmd") (simp_all add: serve_def handlePing_def reply_bytes [OF ok])

lemma handleMGet_serves:
  assumes inv: "inv (storageOf c)" and st: "envStorage env = st" and loaded: "\<not> isLoading c" and ok: "werr (cwriter c) = None"
    and clk: "mono clock" and same: "unexpired (clock 0) (view (storageOf c)) = unexpired (clock 0) m" and some: "cmdArgs cmd \<noteq> []"
    and v: "serve clock m (stCurrentDB st (storageOf c)) ''MGET'' (cmdArgs cmd) = Some (v, db)"
  shows "\<exists>c'. handleMGet env clock cmd c = Some c' \<and> cwriter c' = (cwriter c)\<lparr>written := written (cwriter c) @ wire v\<rparr> \<and>
    stCurrentDB st (storageOf c') = db \<and> cclosed c' = cclosed c"
proof -
  let ?xs = "map (\<lambda>(i, k). stringAt (clock i) m (stCurrentDB st (storageOf c)) k) (enumerate 0 (cmdArgs cmd))"
  obtain vs s' where get: "mgetLoop st clock 0 (cmdArgs cmd) (storageOf c) = Some (vs, s')" "stCurrentDB st s' = stCurrentDB st (storageOf c)"
      "map (convertToValue env) vs = map bulkReply ?xs"
    using mget_serves [OF clk inv same, of "cmdArgs cmd" env] by blast
  have "v = ArrayV (map bulkReply ?xs)" "db = stCurrentDB st (storageOf c)" using v some unfolding serve_def by auto
  then show ?thesis
    using get(1,2) some loaded writeArray_bytes [OF _ get(3), of "putStorage s' c"] ok by (simp add: handleMGet_def st del: map_map)
qed

text \<open>A command within the specification gets the reply of the specification.\<close>

lemma dispatch_serves:
  assumes inv: "inv (storageOf c)" and st: "envStorage env = st" and loaded: "\<not> isLoading c" and ok: "werr (cwriter c) = None"
    and clk: "mono clock" and same: "unexpired (clock 0) (view (storageOf c)) = unexpired (clock 0) m"
    and v: "serve clock m (stCurrentDB st (storageOf c)) (ToUpper (envUpper env) (cmdName cmd)) (cmdArgs cmd) = Some (v, db)"
  shows "\<exists>c'. dispatch env clock cmd c = Some c' \<and> cwriter c' = (cwriter c)\<lparr>written := written (cwriter c) @ wire v\<rparr> \<and>
    stCurrentDB st (storageOf c') = db \<and> cclosed c' = cclosed c"
proof -
  let ?name = "ToUpper (envUpper env) (cmdName cmd)" and ?db = "stCurrentDB st (storageOf c)"
  consider (sel) "?name = ''SELECT''" "length (cmdArgs cmd) = 1" | (ping) "?name = ''PING''" "length (cmdArgs cmd) \<le> 1"
    | (mget) "?name = ''MGET''" "cmdArgs cmd \<noteq> []"
    | (other) "\<not> (?name = ''SELECT'' \<and> length (cmdArgs cmd) = 1)" "\<not> (?name = ''PING'' \<and> length (cmdArgs cmd) \<le> 1)"
      "\<not> (?name = ''MGET'' \<and> cmdArgs cmd \<noteq> [])"
    by blast
  then show ?thesis
  proof cases
    case sel
    then show ?thesis using select_serves [OF inv st ok sel(2), of clock m v db] v by (simp add: dispatch_def Let_def)
  next
    case ping
    then show ?thesis using ping_serves [OF ok ping(2), of clock m ?db v db] v by (simp add: dispatch_def Let_def)
  next
    case mget
    then show ?thesis using handleMGet_serves [OF inv st loaded ok clk same mget(2), of v db] v by (simp add: dispatch_def Let_def)
  next
    case other
    then have "answer (clock 0) (unexpired (clock 0) m ?db) ?name (cmdArgs cmd) = Some v" "db = ?db"
      using v unfolding serve_def by (simp_all only: if_False) auto
    then show ?thesis using dispatch_answers [OF inv st loaded ok, of clock cmd v] same by simp
  qed
qed

lemma serve_not_script: "serve clock m db (ToUpper (envUpper env) (cmdName cmd)) args = Some x \<Longrightarrow> \<not> isScript env cmd"
  by (auto simp: serve_def answer_def isScript_def split: if_split_asm)

lemma execute_serves:
  assumes inv: "inv (storageOf c)" and st: "envStorage env = st" and auth: "authenticated c" and loaded: "\<not> isLoading c"
    and ok: "werr (cwriter c) = None" and clk: "mono clock" "\<And>j. clock j \<le> ahead"
    and same: "unexpired (clock 0) (view (storageOf c)) = unexpired (clock 0) m"
    and v: "serve clock m (stCurrentDB st (storageOf c)) (ToUpper (envUpper env) (cmdName cmd)) (cmdArgs cmd) = Some (v, db)"
  shows "\<exists>c'. executeClientCommand env clock cmd c = Some c' \<and> cwriter c' = (cwriter c)\<lparr>written := written (cwriter c) @ wire v\<rparr> \<and>
    stCurrentDB st (storageOf c') = db \<and> cclosed c' = cclosed c \<and> inv (storageOf c') \<and>
    unexpired ahead (view (storageOf c')) = unexpired ahead m \<and> kept c c'"
proof -
  let ?c = "c\<lparr>csrv := (csrv c)\<lparr>commandCount := commandCount (csrv c) + 1\<rparr>\<rparr>"
  have "\<not> isLoading ?c" using loaded by (simp add: isLoading_def)
  from dispatch_serves [of ?c, OF _ st this _ clk(1), of m cmd v db] inv ok same v
  obtain c' where c': "dispatch env clock cmd ?c = Some c'" "cwriter c' = (cwriter c)\<lparr>written := written (cwriter c) @ wire v\<rparr>"
      "stCurrentDB st (storageOf c') = db" "cclosed c' = cclosed c" by auto
  then have run: "executeClientCommand env clock cmd c = Some c'" using auth by (simp add: executeClientCommand_def Let_def)
  have "same_data ahead (storageOf c) (storageOf c')"
    by (rule execute_same [OF inv st clk(2) serve_not_script [OF v] run])
  moreover have "unexpired ahead (view (storageOf c)) = unexpired ahead m" by (rule unexpired_later [OF same clk(2)])
  ultimately show ?thesis using run c'(2-4) kept_execute [OF run] by (simp add: same_data_def)
qed

section \<open>A pipeline\<close>

lemma pipeline_serves:
  assumes st: "envStorage env = st" and clk: "forward clock"
  shows "serveAll clock t m (stCurrentDB st (storageOf c)) cmds = Some vs \<Longrightarrow> list_all command_ok cmds \<Longrightarrow> list_all (isASCII \<circ> fst) cmds \<Longrightarrow>
    inv (storageOf c) \<Longrightarrow> authenticated c \<Longrightarrow> \<not> isLoading c \<Longrightarrow> \<not> cclosed c \<Longrightarrow> werr (cwriter c) = None \<Longrightarrow>
    unexpired (clock t 0) (view (storageOf c)) = unexpired (clock t 0) m \<Longrightarrow>
    creader c = \<lparr>pending = concat (map (\<lambda>(cmd, args). wire (ArrayV (map BulkV (cmd # args)))) cmds), endErr = EOF\<rparr> \<Longrightarrow>
    \<exists>c'. handle env clock t c = Some c' \<and> cclosed c' \<and> inv (storageOf c') \<and>
      cwriter c' = (cwriter c)\<lparr>written := written (cwriter c) @ concat (map wire vs)\<rparr>"
proof (induction cmds arbitrary: t c vs)
  case Nil
  then have "ReadNext (creader c) = (Inl (IOErr EOF), creader c)" by (simp add: ReadNext.simps ReadByte_def)
  with Nil show ?case by (simp add: handle.simps [of env clock t c] closeConnection_def Let_def)
next
  case (Cons x cmds)
  obtain name args where x: "x = (name, args)" by (cases x)
  have ascii: "isASCII name" using Cons.prems(3) x by simp
  let ?cmd = "\<lparr>cmdName = ToUpper (envUpper env) name, cmdArgs = args\<rparr>"
  let ?r = "\<lparr>pending = concat (map (\<lambda>(cmd, args). wire (ArrayV (map BulkV (cmd # args)))) cmds), endErr = EOF\<rparr>"
  obtain v where read: "ReadNext (creader c) = (Inr v, ?r)" and parse: "ParseCommand (envUpper env) v = Inr ?cmd"
    using commands.roundtrip [of x "envUpper env" "pending ?r" EOF] Cons.prems(2,10) x
    by (auto simp: readCommand_def split: prod.splits sum.splits)
  obtain v db vs' where serve: "serve (clock t) m (stCurrentDB st (storageOf c)) (map upperASCII name) args = Some (v, db)"
      and rest: "serveAll clock (t + 1) m db cmds = Some vs'" and vs: "vs = v # vs'"
    using Cons.prems(1) x by (auto split: option.splits)
  let ?c = "c\<lparr>creader := ?r\<rparr>"
  have "\<exists>c1. executeClientCommand env (clock t) ?cmd ?c = Some c1 \<and> cwriter c1 = (cwriter ?c)\<lparr>written := written (cwriter ?c) @ wire v\<rparr> \<and>
      stCurrentDB st (storageOf c1) = db \<and> cclosed c1 = cclosed ?c \<and> inv (storageOf c1) \<and>
      unexpired (clock (t + 1) 0) (view (storageOf c1)) = unexpired (clock (t + 1) 0) m \<and> kept ?c c1"
    by (rule execute_serves) (use Cons.prems st clk serve ToUpper_idem [OF ascii] in \<open>simp_all add: forward_def isLoading_def\<close>)
  then obtain c1 where c1: "executeClientCommand env (clock t) ?cmd ?c = Some c1" "cwriter c1 = (cwriter c)\<lparr>written := written (cwriter c) @ wire v\<rparr>"
      "stCurrentDB st (storageOf c1) = db" "cclosed c1 = cclosed c" "inv (storageOf c1)"
      "unexpired (clock (t + 1) 0) (view (storageOf c1)) = unexpired (clock (t + 1) 0) m" "kept ?c c1" by auto
  then have "creader c1 = ?r" "authenticated c1" "\<not> isLoading c1"
    using Cons.prems by (simp_all add: kept_def settings_def isLoading_def)
  moreover have "handle env clock t c = handle env clock (t + 1) c1"
    using Cons.prems(7) read parse c1(1) by (simp add: handle.simps [of env clock t c] Let_def)
  ultimately show ?case using Cons.IH [of "t + 1" c1 vs'] Cons.prems c1 rest vs by auto
qed

end

definition commandBytes :: "(string \<times> string list) list \<Rightarrow> bytes" where
  "commandBytes cmds = concat (map (\<lambda>(cmd, args). wire (ArrayV (map BulkV (cmd # args)))) cmds)"

text \<open>
  Claim C14: the server answers a pipeline of reading commands as the specification does. An authenticated client
  sends any number of the commands \<^verbatim>\<open>GET\<close>, \<^verbatim>\<open>MGET\<close>, \<^verbatim>\<open>EXISTS\<close>, \<^verbatim>\<open>TTL\<close>, \<^verbatim>\<open>PTTL\<close>, \<^verbatim>\<open>TYPE\<close>, \<^verbatim>\<open>SELECT\<close> and \<^verbatim>\<open>PING\<close> in one go (in any
  mixture of upper and lower case) and closes; it gets the reply of the specification to each, in order and nothing else, although
  the server deletes expired keys on the way.
\<close>

theorem pipelined_reads_served:
  assumes "store_inv H (storageOf c)" and "envStorage env = memoryStorage H ords cfg" and "authenticated c" and "\<not> isLoading c"
    and "\<not> cclosed c" and "werr (cwriter c) = None" and "forward clock"
    and "creader c = \<lparr>pending = commandBytes cmds, endErr = EOF\<rparr>" and "list_all command_ok cmds" and "list_all (isASCII \<circ> fst) cmds"
    and "serveAll clock t (contents (storageOf c)) (currentDB (storageOf c)) cmds = Some vs"
  shows "\<exists>c'. handle env clock t c = Some c' \<and> cclosed c' \<and> store_inv H (storageOf c') \<and>
    cwriter c' = (cwriter c)\<lparr>written := written (cwriter c) @ concat (map wire vs)\<rparr>"
  using mem_reads.pipeline_serves [OF assms(2,7), of t "contents (storageOf c)" c cmds vs] assms
  by (simp add: commandBytes_def)

lemma served_demo:
  "serveAll (\<lambda>t i. 7) 0 (contents demo) 0 [(''get'', [''a'']), (''SELECT'', [''16'']), (''MGET'', [''b'', ''a''])] =
     Some [BulkV ''1'', ErrorV ''ERR invalid database number: 16'', ArrayV [NullBulkV, BulkV ''1'']]"
proof -
  have "Atoi ''16'' = Some 16" by code_simp
  moreover have "map upperASCII ''get'' = ''GET''" "map upperASCII ''SELECT'' = ''SELECT''" "map upperASCII ''MGET'' = ''MGET''" by code_simp+
  moreover have "FormatInt 16 = ''16''" by code_simp
  ultimately show ?thesis
    by (simp add: serve_def answer_def unexpired_def demo_contents stringData_def stored_def IsExpired_def bulkReply_def stringAt_def selectError_def)
qed

theorem pipelined_reads_served_witness:
  "\<exists>c'. handle demoEnv (\<lambda>t i. 7) 0 (demoClient [] (commandBytes [(''get'', [''a'']), (''SELECT'', [''16'']), (''MGET'', [''b'', ''a''])])) = Some c' \<and>
     written (cwriter c') = concat (map wire [BulkV ''1'', ErrorV ''ERR invalid database number: 16'', ArrayV [NullBulkV, BulkV ''1'']])"
proof -
  let ?cmds = "[(''get'', [''a'']), (''SELECT'', [''16'']), (''MGET'', [''b'', ''a''])]"
  have "forward (\<lambda>t i. 7)" by (simp add: forward_def mono_def)
  moreover have "list_all command_ok ?cmds" "list_all (isASCII \<circ> fst) ?cmds" by (simp_all add: command_ok_def isASCII_def)
  moreover have "currentDB demo = 0" by (simp add: demo_def)
  ultimately show ?thesis
    using pipelined_reads_served [of "\<lambda>_. 0" "demoClient [] (commandBytes ?cmds)" demoEnv plainOrders globalMatchingConfig "\<lambda>t i. 7" ?cmds 0]
      served_demo demo_inv by (auto simp del: wire.simps)
qed

section \<open>From the master to the client\<close>


definition syncedServer :: "memstore server" where
  "syncedServer = (NewServer demo)\<lparr>srvSync := Some \<lparr>ssInitialSyncCompleted = True, ssInitialSyncProgress = 1, ssConnected = True,
     ssMasterHost = ''localhost:6379'', ssReplicationOffset = 3, ssLastSyncTime = 1, ssBytesReceived = 0, ssCommandsProcessed = 3\<rparr>\<rparr>"


end
