(* ===== verification/Reporting.thy ===== *)
theory Reporting
  imports Replica
begin

text \<open>
  What the library reports about itself: the errors of \<^verbatim>\<open>src/errors.go\<close>, the loggers of \<^verbatim>\<open>src/interfaces.go\<close> with the
  adapters of \<^verbatim>\<open>src/adapters.go\<close>, the progress reports of a snapshot load (\<^verbatim>\<open>src/replication/client.go\<close>).
  A call of a logger is the line it hands to \<^verbatim>\<open>log.Println\<close>; \<open>time.Now()\<close> is an argument. A time \<open>None\<close> is the zero time.
\<close>

section \<open>Errors\<close>

text \<open>
  The error variables of the package are told apart by identity, so they are constructors. A field \<open>Err\<close> may be
  nil. \<open>OtherError\<close> is an error of another package with its text, \<open>Wrapped\<close> an error of \<^verbatim>\<open>fmt.Errorf\<close> that wraps one with
  \<^verbatim>\<open>%w\<close> behind a text.
\<close>

datatype pkgError = PkgNotConnected | PkgSyncInProgress | PkgReadOnly | PkgInvalidCommand | PkgInvalidConfig
  | PkgTimeout | PkgClosed

fun pkgErrorText :: "pkgError \<Rightarrow> string" where
  "pkgErrorText PkgNotConnected = ''not connected to master''"
| "pkgErrorText PkgSyncInProgress = ''synchronization in progress''"
| "pkgErrorText PkgReadOnly = ''replica is read-only''"
| "pkgErrorText PkgInvalidCommand = ''invalid command''"
| "pkgErrorText PkgInvalidConfig = ''invalid configuration''"
| "pkgErrorText PkgTimeout = ''operation timed out''"
| "pkgErrorText PkgClosed = ''replica is closed''"

datatype goerror =
    PkgError pkgError
  | SyncErrorV string "goerror option" int
  | ConnectionErrorV string "goerror option"
  | ProtocolErrorV string bytes
  | Wrapped string goerror
  | OtherError string

fun errorText :: "goerror \<Rightarrow> string" where
  "errorText (PkgError e) = pkgErrorText e"
| "errorText (SyncErrorV phase err retries) = ''sync error in phase '' @ phase @ '' after '' @ FormatInt retries @ '' retries: '' @
     (case err of None \<Rightarrow> ''<nil>'' | Some e \<Rightarrow> errorText e)"
| "errorText (ConnectionErrorV addr err) = ''connection error to '' @ addr @ '': '' @ (case err of None \<Rightarrow> ''<nil>'' | Some e \<Rightarrow> errorText e)"
| "errorText (ProtocolErrorV message d) = ''protocol error: '' @ message"
| "errorText (Wrapped pre e) = pre @ errorText e"
| "errorText (OtherError text) = text"

fun errorUnwrap :: "goerror \<Rightarrow> goerror option" where
  "errorUnwrap (SyncErrorV phase err retries) = err"
| "errorUnwrap (ConnectionErrorV addr err) = err"
| "errorUnwrap (Wrapped pre e) = Some e"
| "errorUnwrap _ = None"

lemma errorUnwrap_size: "errorUnwrap e = Some e' \<Longrightarrow> size e' < size e"
  by (cases e) auto

text \<open>\<^verbatim>\<open>errors.Is\<close> for a variable of the package: along the chain of wrapped errors.\<close>

function errorsIs :: "pkgError \<Rightarrow> goerror \<Rightarrow> bool" where
  "errorsIs target e = (e = PkgError target \<or> (case errorUnwrap e of None \<Rightarrow> False | Some e' \<Rightarrow> errorsIs target e'))"
  by pat_completeness auto
termination by (relation "measure (\<lambda>(t, e). size e)") (auto dest: errorUnwrap_size)

declare errorsIs.simps [simp del]

text \<open>The errors of the options and of the replica as the values a caller gets.\<close>

primrec configGoError :: "cfgerror \<Rightarrow> goerror" where
  "configGoError ErrInvalidConfig = PkgError PkgInvalidConfig"
| "configGoError (ConnectionError addr e) = ConnectionErrorV addr (Some (configGoError e))"

primrec replicaGoError :: "replicaerror \<Rightarrow> goerror" where
  "replicaGoError (InvalidOption e) = configGoError e"
| "replicaGoError (DefaultDatabaseFailed d m) = Wrapped (''failed to select default database '' @ FormatInt d @ '': '') (OtherError m)"
| "replicaGoError ErrClosed = PkgError PkgClosed"
| "replicaGoError ErrNotConnected = PkgError PkgNotConnected"
| "replicaGoError (ListenFailed addr m) = Wrapped (''failed to listen on '' @ addr @ '': '') (OtherError m)"
| "replicaGoError (StopFailed m) = OtherError m"

text \<open>The texts of the error variables differ, and \<^verbatim>\<open>errors.Is\<close> finds the variable at any depth of wrapping.\<close>

lemma pkgErrorText_inject: "pkgErrorText a = pkgErrorText b \<longleftrightarrow> a = b"
  by (cases a; cases b) simp_all

lemma errorsIs_wrapped [simp]:
  "errorsIs t (PkgError a) \<longleftrightarrow> a = t" "errorsIs t (SyncErrorV p (Some e) n) = errorsIs t e"
  "errorsIs t (ConnectionErrorV a' (Some e)) = errorsIs t e" "errorsIs t (Wrapped p e) = errorsIs t e"
  "\<not> errorsIs t (ProtocolErrorV m d)" "\<not> errorsIs t (OtherError m)"
  by (subst errorsIs.simps, simp)+

lemma config_errors: "errorsIs PkgInvalidConfig (configGoError e)"
  by (induction e) simp_all

text \<open>Whatever option \<^verbatim>\<open>New\<close> refuses, its error is \<^verbatim>\<open>ErrInvalidConfig\<close> for \<^verbatim>\<open>errors.Is\<close>; an operation of a closed replica gives \<^verbatim>\<open>ErrClosed\<close> only.\<close>

lemma replica_errors: "errorsIs t (replicaGoError e) \<longleftrightarrow>
    (case e of InvalidOption _ \<Rightarrow> t = PkgInvalidConfig | ErrClosed \<Rightarrow> t = PkgClosed | ErrNotConnected \<Rightarrow> t = PkgNotConnected | _ \<Rightarrow> False)"
proof -
  have "errorsIs t (configGoError c) \<longleftrightarrow> t = PkgInvalidConfig" for c by (induction c) auto
  then show ?thesis by (cases e) auto
qed

section \<open>Durations and numbers as text\<close>

definition Microsecond :: int where "Microsecond = 1000"

text \<open>
  \<^verbatim>\<open>fmtFrac\<close>: the last \<open>prec\<close> digits of \<open>v\<close> as a fraction without trailing zeros, with its point unless it is zero, and the
  rest of \<open>v\<close>. The digits are put in from the right; \<open>print\<close> tells whether one was put in.
\<close>

fun fmtFracLoop :: "nat \<Rightarrow> int \<Rightarrow> bool \<Rightarrow> string \<Rightarrow> bool \<times> string \<times> int" where
  "fmtFracLoop 0 v print buf = (print, buf, v)"
| "fmtFracLoop (Suc n) v print buf =
     (let print = (print \<or> v mod 10 \<noteq> 0) in fmtFracLoop n (v div 10) print (if print then digit (nat (v mod 10)) # buf else buf))"

definition fmtFrac :: "nat \<Rightarrow> int \<Rightarrow> string \<Rightarrow> string \<times> int" where
  "fmtFrac prec v buf = (case fmtFracLoop prec v False buf of (print, buf, v) \<Rightarrow> (if print then CHR ''.'' # buf else buf, v))"

text \<open>\<^verbatim>\<open>Duration.String\<close>. The micro sign is the two bytes of its UTF-8 encoding.\<close>

definition durationString :: "int \<Rightarrow> string" where
  "durationString d =
     (let u = \<bar>d\<bar>;
          text = (if u < Second then
              (if u = 0 then ''0s''
               else let (prec, unit) = (if u < Microsecond then (0, ''ns'') else if u < Millisecond then (3, [CHR 0xC2, CHR 0xB5, CHR ''s'']) else (6, ''ms''));
                        (buf, v) = fmtFrac prec u unit in FormatInt v @ buf)
            else
              (let (buf, v) = fmtFrac 9 u ''s'';
                   buf = FormatInt (v mod 60) @ buf; v = v div 60 in
               if v = 0 then buf
               else let buf = FormatInt (v mod 60) @ ''m'' @ buf; v = v div 60 in
                    if v = 0 then buf else FormatInt v @ ''h'' @ buf))
      in if d < 0 then CHR ''-'' # text else text)"

text \<open>\<^verbatim>\<open>Duration.Round\<close>: to the nearest multiple of \<open>m\<close>, halves away from zero, unless that overflows.\<close>

definition durationRound :: "int \<Rightarrow> int \<Rightarrow> int" where
  "durationRound m d =
     (if m \<le> 0 then d
      else let r = \<bar>d\<bar> mod m in
        if d < 0 then (if r + r < m then d + r else if int64_min \<le> d - m + r then d - m + r else int64_min)
        else (if r + r < m then d - r else if d + m - r \<le> int64_max then d + m - r else int64_max))"

text \<open>The quotient of a count by \<^verbatim>\<open>Duration.Seconds\<close>.\<close>

definition perSecond :: "int \<Rightarrow> int \<Rightarrow> lnum" where
  "perSecond n d = (if Seconds d = 0 then (if n = 0 then NaN else if n < 0 then NegInf else PosInf)
     else Finite (float64 (float64 (of_int n) / Seconds d)))"

text \<open>\<^verbatim>\<open>fmt.Sprintf("%.nf", x)\<close>: the exact value to \<open>n\<close> digits after the point, ties to even.\<close>

fun lastDigits :: "nat \<Rightarrow> nat \<Rightarrow> string" where
  "lastDigits 0 v = []"
| "lastDigits (Suc n) v = lastDigits n (v div 10) @ [digit (v mod 10)]"

definition fixedText :: "nat \<Rightarrow> lnum \<Rightarrow> string" where
  "fixedText n x = (case x of
      NaN \<Rightarrow> ''NaN'' | PosInf \<Rightarrow> ''+Inf'' | NegInf \<Rightarrow> ''-Inf''
    | Finite q \<Rightarrow>
        (let m = nat (roundEven (\<bar>q\<bar> * 10 ^ n)) in
         (if q < 0 then ''-'' else []) @ show_nat (m div 10 ^ n) @ (if n = 0 then [] else CHR ''.'' # lastDigits n m)))"

section \<open>Log lines\<close>

text \<open>
  A value of the type \<^verbatim>\<open>interface{}\<close> as the loggers tell them apart. \<open>FloatV\<close> and \<open>AnyV\<close> carry what \<^verbatim>\<open>strconv.FormatFloat\<close> and
  \<^verbatim>\<open>fmt.Sprintf("%v")\<close> make of the value; the program logs neither.
\<close>

datatype logvalue = StringV string | ErrV goerror | IntV int | Int64V int | FloatV string | BoolV bool
  | DurationV int | AnyV string

fun formatValue :: "logvalue \<Rightarrow> string" where
  "formatValue (StringV s) = s"
| "formatValue (ErrV e) = errorText e"
| "formatValue (IntV i) = FormatInt i"
| "formatValue (Int64V i) = FormatInt i"
| "formatValue (FloatV s) = s"
| "formatValue (BoolV b) = (if b then ''true'' else ''false'')"
| "formatValue (DurationV d) = durationString d"
| "formatValue (AnyV s) = s"

record logField =
  fieldKey :: string
  fieldValue :: logvalue

definition logWithFields :: "string \<Rightarrow> string \<Rightarrow> logField list \<Rightarrow> string" where
  "logWithFields level msg fs =
     fold (\<lambda>f logMsg. logMsg @ '' '' @ fieldKey f @ ''='' @ formatValue (fieldValue f)) fs (level @ '': '' @ msg)"

datatype level = LevelDebug | LevelInfo | LevelError

fun defaultLog :: "level \<Rightarrow> string \<Rightarrow> logField list \<Rightarrow> string" where
  "defaultLog LevelDebug msg fs = logWithFields ''DEBUG'' msg fs"
| "defaultLog LevelInfo msg fs = logWithFields ''INFO'' msg fs"
| "defaultLog LevelError msg fs = logWithFields ''ERROR'' msg fs"

text \<open>The replication package passes keys and values in one list; a key that is no string is dropped with its value.\<close>

fun convertFields :: "logvalue list \<Rightarrow> logField list" where
  "convertFields (k # v # rest) = (case k of StringV key \<Rightarrow> \<lparr>fieldKey = key, fieldValue = v\<rparr> # convertFields rest | _ \<Rightarrow> convertFields rest)"
| "convertFields _ = []"

text \<open>The adapter \<^verbatim>\<open>replicationLogger\<close>, on any logger of the package.\<close>

type_synonym 'l logger = "level \<Rightarrow> string \<Rightarrow> logField list \<Rightarrow> 'l"

definition replicationLogger :: "'l logger \<Rightarrow> level \<Rightarrow> string \<Rightarrow> logvalue list \<Rightarrow> 'l" where
  "replicationLogger logger lvl msg fs = logger lvl msg (convertFields fs)"

text \<open>The adapter \<^verbatim>\<open>metricsAdapter\<close>: the five calls of the replication package, each forwarded to a collector.\<close>

datatype metric = SyncDuration int | CommandProcessed string int | NetworkBytes int | KeyCountMetric int | MemoryUsageMetric int
  | Reconnection | ErrorMetric string

datatype replMetric = RSyncDuration int | RCommandProcessed string int | RNetworkBytes int | RReconnection | RError string

fun metricsAdapter :: "replMetric \<Rightarrow> metric" where
  "metricsAdapter (RSyncDuration d) = SyncDuration d"
| "metricsAdapter (RCommandProcessed cmd d) = CommandProcessed cmd d"
| "metricsAdapter (RNetworkBytes n) = NetworkBytes n"
| "metricsAdapter RReconnection = Reconnection"
| "metricsAdapter (RError t) = ErrorMetric t"

lemma logWithFields_append: "logWithFields level msg (fs @ gs) =
    logWithFields level msg fs @ concat (map (\<lambda>f. '' '' @ fieldKey f @ ''='' @ formatValue (fieldValue f)) gs)"
  by (induction gs rule: rev_induct) (simp_all add: logWithFields_def)

text \<open>Pairs with string keys, as the replication package passes them, all reach the logger, in their order.\<close>

lemma convertFields_pairs: "convertFields (concat (map (\<lambda>(k, v). [StringV k, v]) kvs)) = map (\<lambda>(k, v). \<lparr>fieldKey = k, fieldValue = v\<rparr>) kvs"
  by (induction kvs) auto

lemma convertFields_append: "even (length fs) \<Longrightarrow> convertFields (fs @ gs) = convertFields fs @ convertFields gs"
  by (induction fs rule: convertFields.induct) (auto split: logvalue.split)

lemma convertFields_odd: "odd (length fs) \<Longrightarrow> convertFields fs = convertFields (butlast fs)"
  by (induction fs rule: convertFields.induct) (auto split: logvalue.split)

section \<open>Progress of a snapshot load\<close>

text \<open>
  The load statistics with the times that decide when progress is reported. \<open>ord\<close> and \<open>ordT\<close> are the orders in which
  a range over the two maps visits their entries.
\<close>

record loadTracker =
  tStats :: RDBLoadStats
  tStartTime :: int
  tBatchSize :: int
  tLastLogTime :: int
  tLogInterval :: int

definition newLoadTracker :: "int \<Rightarrow> loadTracker" where
  "newLoadTracker now = \<lparr>tStats = NewRDBLoadStats, tStartTime = now, tBatchSize = 100, tLastLogTime = now, tLogInterval = 2 * Second\<rparr>"

type_synonym entry = "level \<times> string \<times> logvalue list"

definition logProgress ::
  "((int \<times> DatabaseStats) list \<Rightarrow> (int \<times> DatabaseStats) list) \<Rightarrow> ((string \<times> int) list \<Rightarrow> (string \<times> int) list) \<Rightarrow> int \<Rightarrow> loadTracker \<Rightarrow> entry list"
where
  "logProgress ord ordT now t =
     (let elapsed = now - tStartTime t; rate = perSecond (ProcessedKeys (tStats t)) elapsed in
      map (\<lambda>(db, d). (LevelInfo, ''RDB load progress'',
          [StringV ''db'', IntV db, StringV ''keys'', Int64V (dbKeys d),
           StringV ''types'', StringV (joinStrings '','' (map (\<lambda>(name, n). name @ '':'' @ FormatInt n) (ordT (typeCounts d)))),
           StringV ''total_processed'', Int64V (ProcessedKeys (tStats t)),
           StringV ''elapsed'', DurationV (durationRound (100 * Millisecond) elapsed),
           StringV ''rate'', StringV (fixedText 0 rate @ '' keys/s'')]))
        (ord (databaseStats (tStats t))))"

definition trackKey ::
  "((int \<times> DatabaseStats) list \<Rightarrow> (int \<times> DatabaseStats) list) \<Rightarrow> ((string \<times> int) list \<Rightarrow> (string \<times> int) list) \<Rightarrow> int
     \<Rightarrow> int \<Rightarrow> string \<Rightarrow> loadTracker \<Rightarrow> entry list \<times> loadTracker"
where
  "trackKey ord ordT now db keyType t =
     (let t = t\<lparr>tStats := RecordKey db keyType (tStats t)\<rparr>;
          shouldLog = (ProcessedKeys (tStats t) smod tBatchSize t = 0 \<or> now - tLastLogTime t \<ge> tLogInterval t) in
      if shouldLog then (let t = t\<lparr>tLastLogTime := now\<rparr> in (logProgress ord ordT now t, t)) else ([], t))"

definition trackError :: "int \<Rightarrow> loadTracker \<Rightarrow> loadTracker" where
  "trackError db t = t\<lparr>tStats := RecordError db (tStats t)\<rparr>"

definition LogFinal ::
  "((int \<times> DatabaseStats) list \<Rightarrow> (int \<times> DatabaseStats) list) \<Rightarrow> ((string \<times> int) list \<Rightarrow> (string \<times> int) list) \<Rightarrow> int \<Rightarrow> loadTracker \<Rightarrow> entry list"
where
  "LogFinal ord ordT now t = logProgress ord ordT now t"

text \<open>The chunks of a snapshot as they arrive.\<close>

record rdbChunkAggregator =
  chunkCount :: int
  aggTotalSize :: int
  aggStartTime :: int
  logThreshold :: int
  sizeThreshold :: int

definition newRDBChunkAggregator :: "int \<Rightarrow> rdbChunkAggregator" where
  "newRDBChunkAggregator now = \<lparr>chunkCount = 0, aggTotalSize = 0, aggStartTime = now, logThreshold = 10, sizeThreshold = 50000\<rparr>"

definition kbPerSecond :: "int \<Rightarrow> int \<Rightarrow> lnum" where
  "kbPerSecond n d = (case perSecond n d of Finite q \<Rightarrow> Finite (float64 (q / 1024)) | x \<Rightarrow> x)"

definition chunkRate :: "int \<Rightarrow> rdbChunkAggregator \<Rightarrow> logvalue list" where
  "chunkRate now agg = (let elapsed = now - aggStartTime agg in
     [StringV ''elapsed'', DurationV (durationRound (10 * Millisecond) elapsed),
      StringV ''rate'', StringV (fixedText 1 (kbPerSecond (aggTotalSize agg) elapsed) @ '' KB/s'')])"

definition addChunk :: "int \<Rightarrow> int \<Rightarrow> rdbChunkAggregator \<Rightarrow> entry list \<times> rdbChunkAggregator" where
  "addChunk now n agg =
     (let agg = agg\<lparr>chunkCount := chunkCount agg + 1, aggTotalSize := aggTotalSize agg + n\<rparr> in
      (if chunkCount agg smod logThreshold agg = 0 \<or> aggTotalSize agg smod sizeThreshold agg = 0
       then [(LevelDebug, ''RDB chunk progress'',
          [StringV ''chunks'', IntV (chunkCount agg), StringV ''totalSize'', IntV (aggTotalSize agg)] @ chunkRate now agg)]
       else [], agg))"

definition aggLogFinal :: "int \<Rightarrow> rdbChunkAggregator \<Rightarrow> entry list" where
  "aggLogFinal now agg = [(LevelDebug, ''RDB data reading completed'',
     [StringV ''totalSize'', IntV (aggTotalSize agg), StringV ''chunks'', IntV (chunkCount agg)] @ chunkRate now agg)]"

section \<open>What is reported\<close>

text \<open>The lines of a report with the package's default logger.\<close>

definition reportLines :: "entry list \<Rightarrow> string list" where
  "reportLines es = map (\<lambda>(lvl, msg, fs). replicationLogger defaultLog lvl msg fs) es"

fun trackKeys ::
  "((int \<times> DatabaseStats) list \<Rightarrow> (int \<times> DatabaseStats) list) \<Rightarrow> ((string \<times> int) list \<Rightarrow> (string \<times> int) list)
     \<Rightarrow> (int \<times> int \<times> string) list \<Rightarrow> loadTracker \<Rightarrow> entry list \<times> loadTracker"
where
  "trackKeys ord ordT [] t = ([], t)"
| "trackKeys ord ordT ((now, db, keyType) # ks) t =
     (case trackKey ord ordT now db keyType t of (es, t) \<Rightarrow> case trackKeys ord ordT ks t of (es', t) \<Rightarrow> (es @ es', t))"

lemma smod_pos: "0 \<le> a \<Longrightarrow> 0 < b \<Longrightarrow> (a :: int) smod b = a mod b"
  by (simp add: signed_modulo_int_def signed_divide_int_def minus_mult_div_eq_mod sgn_if)

lemma mod_succ: "0 < b \<Longrightarrow> (a + 1) mod b \<noteq> 0 \<Longrightarrow> (a + 1) mod b = a mod b + 1" for a b :: int
proof -
  assume b: "0 < b" and nz: "(a + 1) mod b \<noteq> 0"
  have eq: "(a + 1) mod b = (a mod b + 1) mod b" by (simp add: mod_add_left_eq)
  with nz have "a mod b + 1 \<noteq> b" by auto
  then have "a mod b + 1 < b" using pos_mod_bound [OF b, of a] by linarith
  with eq pos_mod_sign [OF b, of a] show ?thesis by simp
qed

lemma RecordKey_processed [simp]: "ProcessedKeys (RecordKey db ty st) = ProcessedKeys st + 1"
  by (simp add: RecordKey_def Let_def)

lemma RecordKey_databases: "databaseStats (RecordKey db ty st) \<noteq> []"
  by (cases "databaseStats st") (auto simp: RecordKey_def Let_def)

lemma trackKey_stats:
  "tStats (snd (trackKey ord ordT now db ty t)) = RecordKey db ty (tStats t)"
  "tBatchSize (snd (trackKey ord ordT now db ty t)) = tBatchSize t"
  by (simp_all add: trackKey_def Let_def)

text \<open>Reporting does not change what is counted.\<close>

lemma trackKeys_stats:
  "tStats (snd (trackKeys ord ordT ks t)) = fold (\<lambda>(_, db, ty). RecordKey db ty) ks (tStats t)"
  "tBatchSize (snd (trackKeys ord ordT ks t)) = tBatchSize t"
  by (induction ks arbitrary: t) (auto simp: trackKey_stats case_prod_beta)

text \<open>A report is due after every \<open>BatchSize\<close> keys, whatever the times.\<close>

lemma trackKey_reports:
  assumes "(ProcessedKeys (tStats t) + 1) mod tBatchSize t = 0" "0 \<le> ProcessedKeys (tStats t)" "0 < tBatchSize t"
    and "\<And>xs. ord xs = [] \<longleftrightarrow> xs = []"
  shows "fst (trackKey ord ordT now db ty t) \<noteq> []"
  using assms by (simp add: trackKey_def logProgress_def Let_def smod_pos RecordKey_databases)

lemma trackKeys_report:
  assumes "0 \<le> ProcessedKeys (tStats t)" "0 < tBatchSize t" "tBatchSize t - ProcessedKeys (tStats t) mod tBatchSize t \<le> int (length ks)"
    and "\<And>xs. ord xs = [] \<longleftrightarrow> xs = []"
  shows "fst (trackKeys ord ordT ks t) \<noteq> []"
  using assms(1-3)
proof (induction ks arbitrary: t)
  case Nil
  with pos_mod_bound [OF Nil(2), of "ProcessedKeys (tStats t)"] have False unfolding list.size by linarith
  then show ?case ..
next
  case (Cons k ks)
  obtain now db ty where k: "k = (now, db, ty)" by (cases k) auto
  obtain es t' where step: "trackKey ord ordT now db ty t = (es, t')" by fastforce
  have t': "ProcessedKeys (tStats t') = ProcessedKeys (tStats t) + 1" "tBatchSize t' = tBatchSize t"
    using trackKey_stats [of ord ordT now db ty t] step by simp_all
  show ?case
  proof (cases "(ProcessedKeys (tStats t) + 1) mod tBatchSize t = 0")
    case True
    from trackKey_reports [OF True Cons.prems(1,2) assms(4), of ordT now db ty] step k show ?thesis by (auto split: prod.split)
  next
    case False
    then have "(ProcessedKeys (tStats t) + 1) mod tBatchSize t = ProcessedKeys (tStats t) mod tBatchSize t + 1"
      using Cons.prems(2) mod_succ by blast
    with Cons.IH [of t'] Cons.prems t' have "fst (trackKeys ord ordT ks t') \<noteq> []" by simp
    with step k show ?thesis by (auto split: prod.split)
  qed
qed

lemma progress_every_batch:
  assumes "length ks = 100" and "\<And>xs. ord xs = [] \<longleftrightarrow> xs = []" and "tBatchSize t = 100" "0 \<le> ProcessedKeys (tStats t)"
  shows "fst (trackKeys ord ordT ks t) \<noteq> []"
  using assms by (intro trackKeys_report) simp_all

text \<open>A report of the chunks is due at every tenth chunk, and at a size only when the total is a multiple of the threshold.\<close>

lemma addChunk_reports:
  assumes "chunkCount agg \<ge> 0" "aggTotalSize agg \<ge> 0" "n \<ge> 0" "logThreshold agg = 10" "sizeThreshold agg = 50000"
  shows "fst (addChunk now n agg) \<noteq> [] \<longleftrightarrow> 10 dvd chunkCount agg + 1 \<or> 50000 dvd aggTotalSize agg + n"
  using assms by (simp add: addChunk_def Let_def smod_pos dvd_eq_mod_eq_0)

lemma chunks_counted:
  "fold (\<lambda>(now, c :: bytes) agg. snd (addChunk now (int (length c)) agg)) cs agg =
     agg\<lparr>chunkCount := chunkCount agg + int (length cs), aggTotalSize := aggTotalSize agg + int (length (concat (map snd cs)))\<rparr>"
  by (induction cs arbitrary: agg) (auto simp: addChunk_def Let_def)

lemma size_threshold_passed: "fst (addChunk now 60000 (newRDBChunkAggregator start)) = []"
  by (simp add: addChunk_def newRDBChunkAggregator_def smod_pos Let_def)

section \<open>Statistics\<close>

text \<open>
  The exported statistics of a replica with their readers. \<^verbatim>\<open>New\<close> sets an empty map of command counts; nothing in the
  library changes the record afterwards.
\<close>

record pkgReplicationStats =
  rsConnectedAt :: "int option"
  rsDisconnectedAt :: "int option"
  rsReconnectCount :: int
  rsInitialSyncStart :: "int option"
  rsInitialSyncEnd :: "int option"
  rsFullSyncCount :: int
  rsPartialSyncCount :: int
  rsKeyCount :: int
  rsMemoryUsage :: int
  rsNetworkBytesRecv :: int
  rsCommandsProcessed :: "(string \<times> int) list"

definition newPkgStats :: pkgReplicationStats where
  "newPkgStats = \<lparr>rsConnectedAt = None, rsDisconnectedAt = None, rsReconnectCount = 0, rsInitialSyncStart = None,
     rsInitialSyncEnd = None, rsFullSyncCount = 0, rsPartialSyncCount = 0, rsKeyCount = 0, rsMemoryUsage = 0,
     rsNetworkBytesRecv = 0, rsCommandsProcessed = []\<rparr>"

definition GetConnectedAt :: "pkgReplicationStats \<Rightarrow> int option" where
  "GetConnectedAt st = rsConnectedAt st"

definition GetKeyCount :: "pkgReplicationStats \<Rightarrow> int" where
  "GetKeyCount st = rsKeyCount st"

definition GetMemoryUsage :: "pkgReplicationStats \<Rightarrow> int" where
  "GetMemoryUsage st = rsMemoryUsage st"

definition GetCommandCount :: "string \<Rightarrow> pkgReplicationStats \<Rightarrow> int" where
  "GetCommandCount cmd st = lookupOr 0 cmd (rsCommandsProcessed st)"

lemma VersionInfo_spec:
  "map_of (VersionInfo c b) ''version'' = Some Version" "map_of (VersionInfo c b) ''commit'' = (if c = [] then None else Some c)"
  "map_of (VersionInfo c b) ''buildTime'' = (if b = [] then None else Some b)" "distinct (map fst (VersionInfo c b))"
  by (simp_all add: VersionInfo_def)

text \<open>Reports of a load of four keys in three seconds and a half and of two chunks, as the default logger prints them.\<close>

lemma progress_line:
  "reportLines (LogFinal id id 3500000000 ((newLoadTracker 0)\<lparr>tStats := fold (\<lambda>_. RecordKey 0 ''string'') [1..4] NewRDBLoadStats\<rparr>)) =
     [''INFO: RDB load progress db=0 keys=4 types=string:4 total_processed=4 elapsed=3.5s rate=1 keys/s'']"
  by code_simp

lemma chunk_line:
  "reportLines (aggLogFinal 250000000 ((newRDBChunkAggregator 0)\<lparr>aggTotalSize := 3072, chunkCount := 2\<rparr>)) =
     [''DEBUG: RDB data reading completed totalSize=3072 chunks=2 elapsed=250ms rate=12.0 KB/s'']"
  by code_simp

end
