(* ===== verification/Store_Locks.thy ===== *)
theory Store_Locks
  imports Transitions Main
begin

text \<open>
  The locks of the in-memory engine (\<^verbatim>\<open>src/storage/memory.go\<close>): the read-write mutex of the storage and the one of
  every shard, and goroutines that run any sequences of calls at the same time. A call is the sequence of its lock
  operations, which depends on what it finds: that is part of the call. The locks are Go's: a goroutine that asks for
  a write lock keeps new readers out while it waits for the readers inside. Observers take no locks.
\<close>

section \<open>Goroutines and locks\<close>

text \<open>Every shard of every database object has a mutex of its own.\<close>

datatype mutex = StoreMutex | ShardMutex nat

text \<open>The order in which the calls take locks: the storage comes after every shard.\<close>

instantiation mutex :: linorder
begin

fun less_eq_mutex :: "mutex \<Rightarrow> mutex \<Rightarrow> bool" where
  "less_eq_mutex (ShardMutex m) (ShardMutex n) \<longleftrightarrow> m \<le> n"
| "less_eq_mutex StoreMutex (ShardMutex n) \<longleftrightarrow> False"
| "less_eq_mutex _ StoreMutex \<longleftrightarrow> True"

definition less_mutex :: "mutex \<Rightarrow> mutex \<Rightarrow> bool" where
  "less_mutex a b \<longleftrightarrow> a \<le> b \<and> \<not> b \<le> a"

instance
proof
  fix a b c :: mutex
  show "a \<le> a" "a \<le> b \<or> b \<le> a" by (cases a; cases b; auto)+
  show "a \<le> b \<Longrightarrow> b \<le> c \<Longrightarrow> a \<le> c" by (cases a; cases b; cases c) auto
  show "a \<le> b \<Longrightarrow> b \<le> a \<Longrightarrow> a = b" by (cases a; cases b) auto
qed (rule less_mutex_def)

end

datatype lockop = RLock mutex | RUnlock mutex | Lock mutex | Unlock mutex

record goroutine =
  todo :: "lockop list"
  rheld :: "mutex list"
  wheld :: "mutex list"
  waiting :: bool

definition spawn :: "lockop list \<Rightarrow> goroutine" where
  "spawn p = \<lparr>todo = p, rheld = [], wheld = [], waiting = False\<rparr>"

definition pending :: "mutex \<Rightarrow> goroutine \<Rightarrow> bool" where
  "pending l g \<longleftrightarrow> waiting g \<and> todo g \<noteq> [] \<and> hd (todo g) = Lock l"

text \<open>No writer is inside or waiting; nobody is inside.\<close>

definition noWriter :: "mutex \<Rightarrow> goroutine list \<Rightarrow> bool" where
  "noWriter l gs \<longleftrightarrow> (\<forall>g \<in> set gs. l \<notin> set (wheld g) \<and> \<not> pending l g)"

definition nobody :: "mutex \<Rightarrow> goroutine list \<Rightarrow> bool" where
  "nobody l gs \<longleftrightarrow> (\<forall>g \<in> set gs. l \<notin> set (rheld g) \<and> l \<notin> set (wheld g))"

inductive lock_step :: "goroutine list \<Rightarrow> goroutine list \<Rightarrow> bool" where
  rlock: "i < length gs \<Longrightarrow> todo (gs ! i) = RLock l # r \<Longrightarrow> noWriter l gs \<Longrightarrow>
     lock_step gs (gs[i := (gs ! i)\<lparr>todo := r, rheld := l # rheld (gs ! i)\<rparr>])"
| announce: "i < length gs \<Longrightarrow> todo (gs ! i) = Lock l # r \<Longrightarrow> \<not> waiting (gs ! i) \<Longrightarrow> noWriter l gs \<Longrightarrow>
     lock_step gs (gs[i := (gs ! i)\<lparr>waiting := True\<rparr>])"
| lock: "i < length gs \<Longrightarrow> todo (gs ! i) = Lock l # r \<Longrightarrow> waiting (gs ! i) \<Longrightarrow> nobody l gs \<Longrightarrow>
     lock_step gs (gs[i := (gs ! i)\<lparr>todo := r, wheld := l # wheld (gs ! i), waiting := False\<rparr>])"
| runlock: "i < length gs \<Longrightarrow> todo (gs ! i) = RUnlock l # r \<Longrightarrow> l \<in> set (rheld (gs ! i)) \<Longrightarrow>
     lock_step gs (gs[i := (gs ! i)\<lparr>todo := r, rheld := remove1 l (rheld (gs ! i))\<rparr>])"
| unlock: "i < length gs \<Longrightarrow> todo (gs ! i) = Unlock l # r \<Longrightarrow> l \<in> set (wheld (gs ! i)) \<Longrightarrow>
     lock_step gs (gs[i := (gs ! i)\<lparr>todo := r, wheld := remove1 l (wheld (gs ! i))\<rparr>])"

section \<open>The lock operations of the calls\<close>

definition readStore :: "lockop list" where
  "readStore = [RLock StoreMutex, RUnlock StoreMutex]"

definition writeStore :: "lockop list" where
  "writeStore = [Lock StoreMutex, Unlock StoreMutex]"

definition readShards :: "nat list \<Rightarrow> lockop list" where
  "readShards shs = concat (map (\<lambda>sh. [RLock (ShardMutex sh), RUnlock (ShardMutex sh)]) shs)"

text \<open>What \<^verbatim>\<open>deleteExpiredKey\<close> and \<^verbatim>\<open>Get\<close> find.\<close>

datatype expiredCase = KeyGone | StillExpired | Renewed

datatype getCase = GetMissing | GetExpired expiredCase | GetHit

definition deleteExpiredKeyLocks :: "nat \<Rightarrow> expiredCase \<Rightarrow> lockop list" where
  "deleteExpiredKeyLocks sh found = readStore @ [Lock (ShardMutex sh), Unlock (ShardMutex sh)] @
     (if found = StillExpired then readStore else [])"

definition getLocks :: "nat \<Rightarrow> getCase \<Rightarrow> lockop list" where
  "getLocks sh found = readStore @ [RLock (ShardMutex sh)] @
     (case found of
        GetMissing \<Rightarrow> [RUnlock (ShardMutex sh)]
      | GetExpired e \<Rightarrow> [RUnlock (ShardMutex sh)] @ deleteExpiredKeyLocks sh e
      | GetHit \<Rightarrow> readStore @ [RUnlock (ShardMutex sh)])"

text \<open>\<open>shs\<close> are the shards of all databases that \<^verbatim>\<open>MemoryUsage\<close> visits, or the shards that a round of eviction visits.\<close>

definition memoryUsageLocks :: "nat list \<Rightarrow> lockop list" where
  "memoryUsageLocks shs = readStore @ readShards shs"

definition evictLRULocks :: "nat list \<Rightarrow> lockop list" where
  "evictLRULocks shs = [Lock StoreMutex] @ concat (map (\<lambda>sh. [Lock (ShardMutex sh), Unlock (ShardMutex sh)]) shs) @ [Unlock StoreMutex]"

text \<open>\<^verbatim>\<open>Set\<close> without a memory limit, below the limit (the shards measured), and above it (the shards visited to evict).\<close>

datatype setCase = NoLimit | BelowLimit "nat list" | AboveLimit "nat list" "nat list"

definition setLocks :: "nat \<Rightarrow> setCase \<Rightarrow> lockop list" where
  "setLocks sh found = readStore @ [Lock (ShardMutex sh), Unlock (ShardMutex sh)] @ readStore @
     (case found of
        NoLimit \<Rightarrow> []
      | BelowLimit shs \<Rightarrow> memoryUsageLocks shs
      | AboveLimit shs victims \<Rightarrow> memoryUsageLocks shs @ evictLRULocks victims)"

text \<open>A shard with the number of its keys that are deleted, each with a notification.\<close>

definition deleteInShard :: "nat \<times> nat \<Rightarrow> lockop list" where
  "deleteInShard = (\<lambda>(sh, n). [Lock (ShardMutex sh)] @ concat (replicate n readStore) @ [Unlock (ShardMutex sh)])"

definition delLocks :: "(nat \<times> nat) list \<Rightarrow> lockop list" where
  "delLocks shs = readStore @ concat (map deleteInShard shs)"

text \<open>A call of \<^verbatim>\<open>Exists\<close>, \<^verbatim>\<open>Keys\<close>, \<^verbatim>\<open>KeyCount\<close>, \<^verbatim>\<open>Scan\<close>, \<^verbatim>\<open>DatabaseInfo\<close>, \<^verbatim>\<open>TTL\<close>, \<^verbatim>\<open>PTTL\<close> or \<^verbatim>\<open>Type\<close> reads shards one after the other.\<close>

definition readingLocks :: "nat list \<Rightarrow> lockop list" where
  "readingLocks shs = readStore @ readShards shs"

definition expireLocks :: "nat \<Rightarrow> lockop list" where
  "expireLocks sh = readStore @ [Lock (ShardMutex sh), Unlock (ShardMutex sh)]"

definition infoLocks :: "nat list \<Rightarrow> nat list \<Rightarrow> lockop list" where
  "infoLocks shs allShs = readStore @ readingLocks shs @ memoryUsageLocks allShs"

text \<open>
  A round of the cleanup on a shard: the sample, then the batches with the number of keys each deletes; a tick visits
  shards for any number of rounds.
\<close>

definition cleanupRoundLocks :: "nat \<times> nat list \<Rightarrow> lockop list" where
  "cleanupRoundLocks = (\<lambda>(sh, batches). readShards [sh] @ concat (map (\<lambda>n. deleteInShard (sh, n)) batches))"

definition performCleanupLocks :: "(nat \<times> nat list) list \<Rightarrow> lockop list" where
  "performCleanupLocks rounds = readStore @ readStore @ concat (map cleanupRoundLocks rounds)"

text \<open>\<open>Configures\<close> stands for \<^verbatim>\<open>SetMemoryLimit\<close>, \<^verbatim>\<open>AddObserver\<close> and \<^verbatim>\<open>SetCleanupConfig\<close>; \<open>ReadsField\<close> for \<^verbatim>\<open>CurrentDB\<close>, \<^verbatim>\<open>GetMemoryLimit\<close> and \<^verbatim>\<open>GetCleanupConfig\<close>.\<close>

datatype call = CallGet nat getCase | CallSet nat setCase | CallDel "(nat \<times> nat) list" | Reads "nat list" | CallExpire nat
  | CallFlushAll | CallSelectDB | CallMemoryUsage "nat list" | CallInfo "nat list" "nat list" | Configures | ReadsField
  | CallEvictLRU "nat list" | Cleanup "(nat \<times> nat list) list"

fun lockTrace :: "call \<Rightarrow> lockop list" where
  "lockTrace (CallGet sh found) = getLocks sh found"
| "lockTrace (CallSet sh found) = setLocks sh found"
| "lockTrace (CallDel shs) = delLocks shs"
| "lockTrace (Reads shs) = readingLocks shs"
| "lockTrace (CallExpire sh) = expireLocks sh"
| "lockTrace CallFlushAll = writeStore"
| "lockTrace CallSelectDB = writeStore"
| "lockTrace (CallMemoryUsage shs) = memoryUsageLocks shs"
| "lockTrace (CallInfo shs allShs) = infoLocks shs allShs"
| "lockTrace Configures = writeStore"
| "lockTrace ReadsField = readStore"
| "lockTrace (CallEvictLRU shs) = evictLRULocks shs"
| "lockTrace (Cleanup rounds) = performCleanupLocks rounds"

fun evicts :: "call \<Rightarrow> bool" where
  "evicts (CallSet sh (AboveLimit shs victims)) \<longleftrightarrow> True"
| "evicts (CallEvictLRU shs) \<longleftrightarrow> True"
| "evicts _ \<longleftrightarrow> False"

definition workload :: "call list list \<Rightarrow> goroutine list" where
  "workload css = map (\<lambda>cs. spawn (concat (map lockTrace cs))) css"

section \<open>Discipline\<close>

text \<open>A lock is taken only when it comes after all that are held, and everything is given back.\<close>

definition admits :: "mutex list \<Rightarrow> mutex \<Rightarrow> bool" where
  "admits held l \<longleftrightarrow> (\<forall>h \<in> set held. h < l)"

lemma shard_before_store [simp]: "ShardMutex sh < StoreMutex"
  by (simp add: less_mutex_def)

fun disciplined :: "mutex list \<Rightarrow> mutex list \<Rightarrow> lockop list \<Rightarrow> bool" where
  "disciplined R W [] \<longleftrightarrow> R = [] \<and> W = []"
| "disciplined R W (RLock l # p) \<longleftrightarrow> admits (R @ W) l \<and> disciplined (l # R) W p"
| "disciplined R W (Lock l # p) \<longleftrightarrow> admits (R @ W) l \<and> disciplined R (l # W) p"
| "disciplined R W (RUnlock l # p) \<longleftrightarrow> l \<in> set R \<and> disciplined (remove1 l R) W p"
| "disciplined R W (Unlock l # p) \<longleftrightarrow> l \<in> set W \<and> disciplined R (remove1 l W) p"

lemma disciplined_append: "disciplined R W p \<Longrightarrow> disciplined [] [] q \<Longrightarrow> disciplined R W (p @ q)"
  by (induction R W p rule: disciplined.induct) auto

lemma disciplined_concat: "(\<And>x. x \<in> set xs \<Longrightarrow> disciplined [] [] (f x)) \<Longrightarrow> disciplined [] [] (concat (map f xs))"
  by (induction xs) (auto intro: disciplined_append)

lemma disciplined_store [simp]: "disciplined [] [] readStore" "disciplined [] [] writeStore"
  by (simp_all add: readStore_def writeStore_def admits_def)

lemma disciplined_readShards [simp]: "disciplined [] [] (readShards shs)"
  unfolding readShards_def by (rule disciplined_concat) (simp add: admits_def)

lemma disciplined_notified: "disciplined [] [ShardMutex sh] p \<Longrightarrow> disciplined [] [ShardMutex sh] (concat (replicate n readStore) @ p)"
  by (induction n) (simp_all add: readStore_def admits_def)

lemma disciplined_deleteInShard [simp]: "disciplined [] [] (deleteInShard x)"
  using disciplined_notified [of "fst x" "[Unlock (ShardMutex (fst x))]" "snd x"] by (simp add: deleteInShard_def case_prod_beta admits_def)

lemma disciplined_calls: "\<not> evicts c \<Longrightarrow> disciplined [] [] (lockTrace c)"
proof (induction c rule: lockTrace.induct)
  case (1 sh found)
  show ?case by (auto simp: getLocks_def deleteExpiredKeyLocks_def readStore_def admits_def split: getCase.split)
next
  case (2 sh found)
  then show ?case
    by (cases found) (auto simp: setLocks_def memoryUsageLocks_def admits_def intro!: disciplined_append)
next
  case (13 rounds)
  have "disciplined [] [] (cleanupRoundLocks x)" for x
    by (cases x) (auto simp: cleanupRoundLocks_def intro!: disciplined_append disciplined_concat)
  then show ?case by (auto simp: performCleanupLocks_def intro!: disciplined_append disciplined_concat)
qed (auto simp: delLocks_def readingLocks_def expireLocks_def memoryUsageLocks_def infoLocks_def admits_def
    intro!: disciplined_append disciplined_concat)

section \<open>No deadlock\<close>

definition orderly :: "goroutine \<Rightarrow> bool" where
  "orderly g \<longleftrightarrow> disciplined (rheld g) (wheld g) (todo g) \<and> (waiting g \<longrightarrow> (\<exists>l r. todo g = Lock l # r))"

text \<open>A write lock excludes every other holder.\<close>

definition exclusive :: "goroutine list \<Rightarrow> bool" where
  "exclusive gs \<longleftrightarrow> (\<forall>i < length gs. \<forall>j < length gs. i \<noteq> j \<longrightarrow>
     set (wheld (gs ! i)) \<inter> (set (rheld (gs ! j)) \<union> set (wheld (gs ! j))) = {})"

definition locks_inv :: "goroutine list \<Rightarrow> bool" where
  "locks_inv gs \<longleftrightarrow> (\<forall>g \<in> set gs. orderly g) \<and> exclusive gs"

definition finished :: "goroutine list \<Rightarrow> bool" where
  "finished gs \<longleftrightarrow> (\<forall>g \<in> set gs. todo g = [])"

text \<open>A write lock takes two steps.\<close>

definition lock_rank :: "goroutine list \<Rightarrow> int" where
  "lock_rank gs = sum_list (map (\<lambda>g. 2 * int (length (todo g)) - (if waiting g then 1 else 0)) gs)"

lemma workload_inv: "\<forall>cs \<in> set css. \<forall>c \<in> set cs. \<not> evicts c \<Longrightarrow> locks_inv (workload css)"
  by (auto simp: locks_inv_def workload_def orderly_def exclusive_def spawn_def intro!: disciplined_concat disciplined_calls)

lemma locks_inv_update:
  assumes "locks_inv gs" "i < length gs" "orderly g"
    and "\<And>j. j < length gs \<Longrightarrow> j \<noteq> i \<Longrightarrow> set (wheld g) \<inter> (set (rheld (gs ! j)) \<union> set (wheld (gs ! j))) = {} \<and>
      set (wheld (gs ! j)) \<inter> (set (rheld g) \<union> set (wheld g)) = {}"
  shows "locks_inv (gs[i := g])"
proof -
  have "\<forall>h \<in> set (gs[i := g]). orderly h" using assms(1,3) set_update_subset_insert [of gs i g] by (auto simp: locks_inv_def)
  moreover have "exclusive (gs[i := g])"
    unfolding exclusive_def
  proof (intro allI impI)
    fix a b
    assume ab: "a < length (gs[i := g])" "b < length (gs[i := g])" "a \<noteq> b"
    show "set (wheld (gs[i := g] ! a)) \<inter> (set (rheld (gs[i := g] ! b)) \<union> set (wheld (gs[i := g] ! b))) = {}"
    proof (cases "a = i")
      case True
      with ab assms(2) assms(4) [of b] show ?thesis by simp
    next
      case False
      with ab assms(1,2) assms(4) [of a] show ?thesis
        by (cases "b = i") (simp_all add: locks_inv_def exclusive_def)
    qed
  qed
  ultimately show ?thesis by (simp add: locks_inv_def)
qed

lemma others_excluded: "locks_inv gs \<Longrightarrow> i < length gs \<Longrightarrow> j < length gs \<Longrightarrow> j \<noteq> i \<Longrightarrow>
    set (wheld (gs ! i)) \<inter> (set (rheld (gs ! j)) \<union> set (wheld (gs ! j))) = {} \<and>
    set (wheld (gs ! j)) \<inter> (set (rheld (gs ! i)) \<union> set (wheld (gs ! i))) = {}"
  by (auto simp: locks_inv_def exclusive_def)

lemma orderly_at: "locks_inv gs \<Longrightarrow> i < length gs \<Longrightarrow> orderly (gs ! i)"
  by (simp add: locks_inv_def)

lemma lock_step_inv: "lock_step gs gs' \<Longrightarrow> locks_inv gs \<Longrightarrow> locks_inv gs'"
proof (induction rule: lock_step.induct)
  case (rlock i gs l r)
  have "l \<notin> set (wheld (gs ! j))" if "j < length gs" for j using rlock.hyps(3) that by (simp add: noWriter_def)
  with rlock.hyps orderly_at [OF rlock.prems rlock.hyps(1)] others_excluded [OF rlock.prems rlock.hyps(1)] show ?case
    by (intro locks_inv_update rlock.prems) (auto simp: orderly_def)
next
  case (announce i gs l r)
  with orderly_at [OF announce.prems announce.hyps(1)] others_excluded [OF announce.prems announce.hyps(1)] show ?case
    by (intro locks_inv_update announce.prems) (auto simp: orderly_def)
next
  case (lock i gs l r)
  have "l \<notin> set (rheld (gs ! j)) \<and> l \<notin> set (wheld (gs ! j))" if "j < length gs" for j using lock.hyps(4) that by (simp add: nobody_def)
  with lock.hyps orderly_at [OF lock.prems lock.hyps(1)] others_excluded [OF lock.prems lock.hyps(1)] show ?case
    by (intro locks_inv_update lock.prems) (auto simp: orderly_def)
next
  case (runlock i gs l r)
  with orderly_at [OF runlock.prems runlock.hyps(1)] others_excluded [OF runlock.prems runlock.hyps(1)] set_remove1_subset [of l "rheld (gs ! i)"]
  show ?case by (intro locks_inv_update runlock.prems) (auto simp: orderly_def)
next
  case (unlock i gs l r)
  with orderly_at [OF unlock.prems unlock.hyps(1)] others_excluded [OF unlock.prems unlock.hyps(1)] set_remove1_subset [of l "wheld (gs ! i)"]
  show ?case by (intro locks_inv_update unlock.prems) (auto simp: orderly_def)
qed

lemma sum_list_update_less:
  fixes f :: "'a \<Rightarrow> int"
  shows "i < length xs \<Longrightarrow> f x < f (xs ! i) \<Longrightarrow> sum_list (map f (xs[i := x])) < sum_list (map f xs)"
  by (induction xs arbitrary: i) (auto split: nat.split)

lemma lock_step_rank: "locks_inv gs \<Longrightarrow> lock_step gs gs' \<Longrightarrow> lock_rank gs' < lock_rank gs"
  by (auto simp: lock_rank_def orderly_def dest!: orderly_at elim!: lock_step.cases intro!: sum_list_update_less)

lemma lock_rank_nonneg: "locks_inv gs \<Longrightarrow> 0 \<le> lock_rank gs"
proof -
  assume inv: "locks_inv gs"
  have "0 \<le> 2 * int (length (todo g)) - (if waiting g then 1 else 0)" if "g \<in> set gs" for g
    using inv that by (cases "todo g") (auto simp: locks_inv_def orderly_def)
  then show ?thesis by (auto simp: lock_rank_def intro!: sum_list_nonneg)
qed

text \<open>Who wants to enter, and when it can: if nobody is inside, the goroutine itself or the writer that keeps it out.\<close>

definition enters :: "mutex \<Rightarrow> goroutine \<Rightarrow> bool" where
  "enters l g \<longleftrightarrow> (\<exists>r. todo g = RLock l # r \<or> todo g = Lock l # r)"

lemma enter_possible:
  assumes "nobody l gs" "g \<in> set gs" "enters l g"
  shows "\<exists>gs'. lock_step gs gs'"
proof (cases "\<exists>h \<in> set gs. pending l h")
  case True
  then obtain i where i: "i < length gs" "pending l (gs ! i)" by (metis in_set_conv_nth)
  then obtain r where "todo (gs ! i) = Lock l # r" "waiting (gs ! i)" by (cases "todo (gs ! i)") (auto simp: pending_def)
  with i assms(1) show ?thesis using lock_step.lock by blast
next
  case False
  then have free: "noWriter l gs" using assms(1) by (auto simp: noWriter_def nobody_def)
  obtain i where i: "i < length gs" "g = gs ! i" using assms(2) by (metis in_set_conv_nth)
  have "\<not> waiting g" if "todo g = Lock l # r" for r using False assms(2) that by (auto simp: pending_def)
  with assms(3) free i show ?thesis unfolding enters_def using lock_step.rlock lock_step.announce by blast
qed

text \<open>A goroutine that has something left gives a lock back or wants one that comes after all it holds.\<close>

lemma next_operation:
  assumes "locks_inv gs" "g \<in> set gs" "todo g \<noteq> []"
  shows "(\<exists>gs'. lock_step gs gs') \<or> (\<exists>l. enters l g \<and> (\<forall>h \<in> set (rheld g @ wheld g). h < l))"
proof -
  obtain i where i: "i < length gs" "g = gs ! i" using assms(2) by (metis in_set_conv_nth)
  have "disciplined (rheld g) (wheld g) (todo g)" using assms(1,2) by (simp add: locks_inv_def orderly_def)
  then consider l r where "todo g = RUnlock l # r" "l \<in> set (rheld g)" | l r where "todo g = Unlock l # r" "l \<in> set (wheld g)"
    | l where "enters l g" "admits (rheld g @ wheld g) l"
    using assms(3) by (cases "(rheld g, wheld g, todo g)" rule: disciplined.cases) (auto simp: enters_def)
  then show ?thesis
    by cases (use i lock_step.runlock lock_step.unlock in blast, use i lock_step.unlock in blast, auto simp: admits_def)
qed

text \<open>
  The greatest lock that is held is held by a goroutine that can go on: what it wants comes after it, so nobody holds that.
\<close>

lemma lock_progress:
  assumes inv: "locks_inv gs" and "\<not> finished gs"
  shows "\<exists>gs'. lock_step gs gs'"
proof -
  define A where "A = (\<Union>g \<in> set gs. set (rheld g @ wheld g))"
  have free: "nobody l gs \<longleftrightarrow> l \<notin> A" for l by (auto simp: nobody_def A_def)
  obtain g where g: "g \<in> set gs" "todo g \<noteq> []" "A \<noteq> {} \<longrightarrow> Max A \<in> set (rheld g @ wheld g)"
  proof (cases "A = {}")
    case True
    with assms(2) that show ?thesis by (auto simp: finished_def)
  next
    case False
    then have "Max A \<in> A" by (intro Max_in) (simp_all add: A_def)
    then obtain g where "g \<in> set gs" "Max A \<in> set (rheld g @ wheld g)" by (auto simp: A_def)
    moreover have "todo g \<noteq> []" using calculation inv by (auto simp: locks_inv_def orderly_def)
    ultimately show ?thesis using that by blast
  qed
  have "finite A" by (simp add: A_def)
  then have "l \<notin> A" if "\<forall>h \<in> set (rheld g @ wheld g). h < l" for l
    using g(3) that by (metis Max_ge empty_iff leD)
  then show ?thesis using next_operation [OF inv g(1,2)] enter_possible [OF _ g(1)] free by blast
qed

interpretation engine_locks: winding_down lock_step lock_step locks_inv finished lock_rank
  by unfold_locales (auto intro: lock_step_inv lock_step_rank lock_rank_nonneg lock_progress)

lemma lock_rank_workload: "lock_rank (workload css) = 2 * (\<Sum>cs\<leftarrow>css. int (length (concat (map lockTrace cs))))"
  by (induction css) (simp_all add: lock_rank_def workload_def spawn_def)

lemma finished_free: "locks_inv gs \<Longrightarrow> finished gs \<Longrightarrow> g \<in> set gs \<Longrightarrow> rheld g = [] \<and> wheld g = []"
  by (auto simp: locks_inv_def orderly_def finished_def)

section \<open>Running a schedule\<close>

definition tryStep :: "nat \<Rightarrow> goroutine list \<Rightarrow> goroutine list option" where
  "tryStep i gs =
     (if i < length gs then
        (let g = gs ! i in case todo g of
           [] \<Rightarrow> None
         | RLock l # r \<Rightarrow> if noWriter l gs then Some (gs[i := g\<lparr>todo := r, rheld := l # rheld g\<rparr>]) else None
         | Lock l # r \<Rightarrow>
             if waiting g then (if nobody l gs then Some (gs[i := g\<lparr>todo := r, wheld := l # wheld g, waiting := False\<rparr>]) else None)
             else if noWriter l gs then Some (gs[i := g\<lparr>waiting := True\<rparr>]) else None
         | RUnlock l # r \<Rightarrow> if l \<in> set (rheld g) then Some (gs[i := g\<lparr>todo := r, rheld := remove1 l (rheld g)\<rparr>]) else None
         | Unlock l # r \<Rightarrow> if l \<in> set (wheld g) then Some (gs[i := g\<lparr>todo := r, wheld := remove1 l (wheld g)\<rparr>]) else None)
      else None)"

lemma tryStep_iff: "lock_step gs gs' \<longleftrightarrow> (\<exists>i. tryStep i gs = Some gs')"
proof
  assume "lock_step gs gs'"
  then show "\<exists>i. tryStep i gs = Some gs'"
  proof (cases rule: lock_step.cases)
    case (rlock i l r)
    then have "tryStep i gs = Some gs'" by (simp add: tryStep_def Let_def)
    then show ?thesis ..
  next
    case (announce i l r)
    then have "tryStep i gs = Some gs'" by (simp add: tryStep_def Let_def)
    then show ?thesis ..
  next
    case (lock i l r)
    then have "tryStep i gs = Some gs'" by (simp add: tryStep_def Let_def)
    then show ?thesis ..
  next
    case (runlock i l r)
    then have "tryStep i gs = Some gs'" by (simp add: tryStep_def Let_def)
    then show ?thesis ..
  next
    case (unlock i l r)
    then have "tryStep i gs = Some gs'" by (simp add: tryStep_def Let_def)
    then show ?thesis ..
  qed
next
  assume "\<exists>i. tryStep i gs = Some gs'"
  then obtain i where "tryStep i gs = Some gs'" ..
  then show "lock_step gs gs'"
    by (auto simp: tryStep_def Let_def split: if_splits list.splits lockop.splits intro: lock_step.intros)
qed

fun runSchedule :: "nat list \<Rightarrow> goroutine list \<Rightarrow> goroutine list option" where
  "runSchedule [] gs = Some gs"
| "runSchedule (i # is) gs = (case tryStep i gs of None \<Rightarrow> None | Some gs' \<Rightarrow> runSchedule is gs')"

lemma runSchedule_sound: "runSchedule is gs = Some gs' \<Longrightarrow> (lock_step ^^ length is) gs gs'"
proof (induction "is" arbitrary: gs)
  case (Cons i "is")
  then obtain t where "tryStep i gs = Some t" "runSchedule is t = Some gs'" by (auto split: option.splits)
  then have "lock_step gs t" "(lock_step ^^ length is) t gs'" using Cons.IH [of t] tryStep_iff [of gs t] by blast+
  then show ?case by (auto intro: relpowp_Suc_I2 simp del: relpowp.simps)
qed simp

text \<open>
  Claim C18: goroutines that run any sequences of storage calls at the same time, cleanup rounds included, never
  deadlock as long as no call evicts keys: however they are scheduled, a write lock excludes every other holder, every
  run is bounded by the number of lock operations, some goroutine can always go on until all calls have returned, and
  then no lock is held.
\<close>

theorem storage_calls_complete:
  assumes "\<forall>cs \<in> set css. \<forall>c \<in> set cs. \<not> evicts c" and "(lock_step ^^ n) (workload css) gs"
  shows "exclusive gs \<and> int n \<le> 2 * (\<Sum>cs\<leftarrow>css. int (length (concat (map lockTrace cs)))) \<and>
    (finished gs \<or> (\<exists>gs'. lock_step gs gs')) \<and>
    (\<exists>gs'. rtranclp lock_step gs gs' \<and> finished gs' \<and> (\<forall>g \<in> set gs'. rheld g = [] \<and> wheld g = []))"
proof -
  note start = workload_inv [OF assms(1)]
  have inv: "locks_inv gs" using engine_locks.run_rank [OF assms(2) start] by simp
  moreover obtain gs' where "rtranclp lock_step gs gs'" "finished gs'" "locks_inv gs'"
    using engine_locks.reaches_final [OF inv] by blast
  ultimately show ?thesis
    using engine_locks.run_bounded [OF assms(2) start] engine_locks.never_stuck [OF assms(2) start] finished_free
    unfolding lock_rank_workload by (auto simp: locks_inv_def)
qed

theorem storage_calls_complete_witness:
  "\<exists>gs gs'. (lock_step ^^ 3) (workload [[CallGet 0 GetHit, CallSet 0 NoLimit], [CallDel [(0, 2)]], [Cleanup [(0, [1])]]]) gs \<and>
    exclusive gs \<and> \<not> finished gs \<and> rtranclp lock_step gs gs' \<and> finished gs'"
proof -
  let ?css = "[[CallGet 0 GetHit, CallSet 0 NoLimit], [CallDel [(0, 2)]], [Cleanup [(0, [1])]]]"
  have "case runSchedule [0, 0, 0] (workload ?css) of None \<Rightarrow> False | Some gs \<Rightarrow> \<not> finished gs" by code_simp
  then obtain gs where gs: "runSchedule [0, 0, 0] (workload ?css) = Some gs" "\<not> finished gs" by (auto split: option.splits)
  then have "(lock_step ^^ 3) (workload ?css) gs" using runSchedule_sound [OF gs(1)] by (simp add: numeral_3_eq_3)
  with gs(2) storage_calls_complete [of ?css 3 gs] show ?thesis by auto
qed

text \<open>
  An eviction locks a shard while it holds the storage, a \<^verbatim>\<open>Get\<close> that finds its key the other way round. With a memory
  limit a \<^verbatim>\<open>Set\<close> and a \<^verbatim>\<open>Get\<close> can block each other for ever.
\<close>

theorem eviction_deadlocks:
  "\<exists>gs. rtranclp lock_step (workload [[CallGet 0 GetHit], [CallSet 1 (AboveLimit [0, 1] [0])]]) gs \<and> \<not> finished gs \<and> \<not> (\<exists>gs'. lock_step gs gs')"
proof -
  let ?w = "workload [[CallGet 0 GetHit], [CallSet 1 (AboveLimit [0, 1] [0])]]" and ?is = "replicate 13 1 @ [0, 0, 0, 1, 1, 1]"
  have "case runSchedule ?is ?w of None \<Rightarrow> False | Some gs \<Rightarrow> \<not> finished gs \<and> length gs = 2 \<and> tryStep 0 gs = None \<and> tryStep 1 gs = None"
    by code_simp
  then obtain gs where gs: "runSchedule ?is ?w = Some gs" "\<not> finished gs" "length gs = 2" "tryStep 0 gs = None" "tryStep 1 gs = None"
    by (auto split: option.splits)
  have "tryStep i gs = None" for i using gs(3-5) by (cases "i < 2") (auto simp: less_2_cases_iff tryStep_def)
  then have "\<not> (\<exists>gs'. lock_step gs gs')" by (simp add: tryStep_iff)
  with gs(2) relpowp_imp_rtranclp [OF runSchedule_sound [OF gs(1)]] show ?thesis by blast
qed

end
