(* ===== verification/Ticker.thy ===== *)
theory Ticker
  imports Transitions
begin

text \<open>
  A goroutine that works on every tick of a timer until it is told to stop, as the cleanup of the storage and the
  heartbeat of the replication client do: the channel of the ticker holds one tick, a select takes a tick or the
  closed stop channel, whichever it likes when both are ready, and the owner closes the stop channel and waits for the
  goroutine to end. \<open>work\<close> is what the goroutine does on a tick.
\<close>

datatype tickerpc = TickerSelect | TickerWorks | TickerEnded

text \<open>Where the owner is: it has not asked, it waits, or the goroutine has told it that it ends.\<close>

datatype stopperpc = NotStopping | StopWaits | StopReturned

record 's tickerlife =
  tkState :: 's
  tkTick :: bool
  tkPc :: tickerpc
  tkStop :: stopperpc

definition startTicker :: "'s \<Rightarrow> 's tickerlife" where
  "startTicker s = \<lparr>tkState = s, tkTick = False, tkPc = TickerSelect, tkStop = NotStopping\<rparr>"

inductive ticker_step :: "('s \<Rightarrow> 's \<Rightarrow> bool) \<Rightarrow> 's tickerlife \<Rightarrow> 's tickerlife \<Rightarrow> bool" for work where
  ticked: "tkPc k = TickerSelect \<Longrightarrow> tkTick k \<Longrightarrow> ticker_step work k (k\<lparr>tkTick := False, tkPc := TickerWorks\<rparr>)"
| worked: "tkPc k = TickerWorks \<Longrightarrow> work (tkState k) s' \<Longrightarrow> ticker_step work k (k\<lparr>tkState := s', tkPc := TickerSelect\<rparr>)"
| stopped: "tkPc k = TickerSelect \<Longrightarrow> tkStop k \<noteq> NotStopping \<Longrightarrow> ticker_step work k (k\<lparr>tkPc := TickerEnded\<rparr>)"
| returned: "tkStop k = StopWaits \<Longrightarrow> tkPc k = TickerEnded \<Longrightarrow> ticker_step work k (k\<lparr>tkStop := StopReturned\<rparr>)"

text \<open>The timer fires until the goroutine stops it, others change the state, and the owner closes the channel.\<close>

inductive around_step :: "('s \<Rightarrow> 's \<Rightarrow> bool) \<Rightarrow> ('s \<Rightarrow> 's \<Rightarrow> bool) \<Rightarrow> 's tickerlife \<Rightarrow> 's tickerlife \<Rightarrow> bool" for others closing where
  tick: "tkPc k \<noteq> TickerEnded \<Longrightarrow> around_step others closing k (k\<lparr>tkTick := True\<rparr>)"
| other: "others (tkState k) s' \<Longrightarrow> around_step others closing k (k\<lparr>tkState := s'\<rparr>)"
| close: "tkStop k = NotStopping \<Longrightarrow> closing (tkState k) s' \<Longrightarrow> around_step others closing k (k\<lparr>tkState := s', tkStop := StopWaits\<rparr>)"

inductive ticker_reachable :: "('s \<Rightarrow> 's \<Rightarrow> bool) \<Rightarrow> ('s \<Rightarrow> 's \<Rightarrow> bool) \<Rightarrow> ('s \<Rightarrow> 's \<Rightarrow> bool) \<Rightarrow> 's \<Rightarrow> 's tickerlife \<Rightarrow> bool"
  for work others closing start where
  start: "ticker_reachable work others closing start (startTicker start)"
| own: "ticker_reachable work others closing start k \<Longrightarrow> ticker_step work k k' \<Longrightarrow> ticker_reachable work others closing start k'"
| around: "ticker_reachable work others closing start k \<Longrightarrow> around_step others closing k k' \<Longrightarrow> ticker_reachable work others closing start k'"

inductive_cases ticker_stepE: "ticker_step work k k'"

definition ticker_rank :: "'s tickerlife \<Rightarrow> int" where
  "ticker_rank k = (if tkTick k then 2 else 0) + (case tkPc k of TickerSelect \<Rightarrow> 1 | TickerWorks \<Rightarrow> 2 | TickerEnded \<Rightarrow> 0) +
     (if tkStop k = StopWaits then 1 else 0)"

definition ticker_inv :: "('s \<Rightarrow> bool) \<Rightarrow> 's tickerlife \<Rightarrow> bool" where
  "ticker_inv good k \<longleftrightarrow> good (tkState k) \<and> (tkPc k = TickerEnded \<longrightarrow> tkStop k \<noteq> NotStopping) \<and> (tkStop k = StopReturned \<longrightarrow> tkPc k = TickerEnded)"

text \<open>What the goroutine relies on: its work can always be done in a good state, and everybody keeps the states good.\<close>

locale ticker_work =
  fixes work others closing :: "'s \<Rightarrow> 's \<Rightarrow> bool" and good :: "'s \<Rightarrow> bool"
  assumes work_total: "good s \<Longrightarrow> \<exists>s'. work s s'"
    and work_good: "good s \<Longrightarrow> work s s' \<Longrightarrow> good s'"
    and others_good: "good s \<Longrightarrow> others s s' \<Longrightarrow> good s'"
    and closing_good: "good s \<Longrightarrow> closing s s' \<Longrightarrow> good s'"
begin

lemma ticker_step_inv: "ticker_step work k k' \<Longrightarrow> ticker_inv good k \<Longrightarrow> ticker_inv good k'"
  by (induction rule: ticker_step.induct) (auto simp: ticker_inv_def intro: work_good)

lemma ticker_reachable_inv: "ticker_reachable work others closing start k \<Longrightarrow> good start \<Longrightarrow> ticker_inv good k"
proof (induction rule: ticker_reachable.induct)
  case start
  then show ?case by (simp add: ticker_inv_def startTicker_def)
next
  case (own k k')
  then show ?case using ticker_step_inv by blast
next
  case (around k k')
  from around.hyps(2) around.IH [OF around.prems] show ?case
    by (induction rule: around_step.induct) (auto simp: ticker_inv_def intro: others_good closing_good)
qed

end

sublocale ticker_work \<subseteq> stopping: winding_down "ticker_step work" "ticker_step work" "ticker_inv good" "\<lambda>k. tkStop k \<noteq> StopWaits" ticker_rank
proof unfold_locales
  show "ticker_rank k' < ticker_rank k" if "ticker_inv good k" "ticker_step work k k'" for k k'
    using that(2) by (auto simp: ticker_rank_def elim: ticker_stepE split: tickerpc.split)
  show "0 \<le> ticker_rank k" for k :: "'a tickerlife" by (simp add: ticker_rank_def split: tickerpc.split)
  show "\<exists>k'. ticker_step work k k'" if "ticker_inv good k" "\<not> tkStop k \<noteq> StopWaits" for k
  proof (cases "tkPc k")
    case TickerSelect
    with that show ?thesis using ticker_step.stopped [of k work] by auto
  next
    case TickerWorks
    with that work_total [of "tkState k"] show ?thesis using ticker_step.worked by (fastforce simp: ticker_inv_def)
  next
    case TickerEnded
    with that show ?thesis using ticker_step.returned [of k work] by auto
  qed
qed (auto intro: ticker_step_inv)

context ticker_work
begin

lemma waits_open: "rtranclp (ticker_step work) k k' \<Longrightarrow> tkStop k \<noteq> NotStopping \<Longrightarrow> tkStop k' \<noteq> NotStopping"
  by (induction rule: rtranclp_induct) (auto elim: ticker_stepE)

lemma stop_returns:
  assumes "ticker_reachable work others closing start k" "good start" "tkStop k = StopWaits" "(ticker_step work ^^ n) k k'"
  shows "n \<le> 5 \<and> (tkStop k' = StopWaits \<longrightarrow> (\<exists>k''. ticker_step work k' k'')) \<and> (tkStop k' \<noteq> StopWaits \<longrightarrow> tkPc k' = TickerEnded) \<and>
    good (tkState k') \<and> (\<exists>k''. rtranclp (ticker_step work) k' k'' \<and> tkStop k'' = StopReturned)"
proof -
  note inv = ticker_reachable_inv [OF assms(1,2)] and run = relpowp_imp_rtranclp [OF assms(4)]
  have "ticker_rank k \<le> 5" by (simp add: ticker_rank_def split: tickerpc.split)
  then have n: "n \<le> 5" using stopping.run_bounded [OF assms(4) inv] by simp
  have inv': "ticker_inv good k'" using stopping.run_rank [OF assms(4) inv] by simp
  then obtain k'' where k'': "rtranclp (ticker_step work) k' k''" "tkStop k'' \<noteq> StopWaits"
    using stopping.reaches_final by blast
  have "tkStop k' \<noteq> NotStopping" "tkStop k'' \<noteq> NotStopping"
    using waits_open [OF run] waits_open [OF rtranclp_trans [OF run k''(1)]] assms(3) by simp_all
  with n inv' k'' stopping.never_stuck [OF assms(4) inv] show ?thesis
    by (cases "tkStop k''"; cases "tkStop k'") (auto simp: ticker_inv_def)
qed

end

end
