(* ===== verification/Background.thy ===== *)
theory Background
  imports Store_Properties Repl_Run Ticker
begin

text \<open>
  The background goroutines of the program as instances of \<open>Ticker\<close>: the cleanup of the in-memory engine
  (\<^verbatim>\<open>cleanupExpiredKeys\<close> and \<^verbatim>\<open>Close\<close> in \<^verbatim>\<open>src/storage/memory.go\<close>) and the heartbeat of the replication client
  (\<^verbatim>\<open>startHeartbeat\<close> and \<^verbatim>\<open>stopHeartbeat\<close> in \<^verbatim>\<open>src/replication/client.go\<close>). A tick is one step of its goroutine; the other users of the
  storage and of the client come in between.
\<close>

section \<open>Cleanup\<close>

definition cleanupTick :: "memstore \<Rightarrow> memstore \<Rightarrow> bool" where
  "cleanupTick s s' \<longleftrightarrow> (\<exists>dbord ord rng now. performCleanup dbord ord rng now s = Some s')"

text \<open>A caller may do all but close the storage and give the cleanup a configuration with which it does not return.\<close>

definition storeUse :: "hash \<Rightarrow> memstore \<Rightarrow> memstore \<Rightarrow> bool" where
  "storeUse H s s' \<longleftrightarrow> store_step H s s' \<and> closed s' = closed s \<and> config_ok (cleanupConfig s')"

definition storeClose :: "memstore \<Rightarrow> memstore \<Rightarrow> bool" where
  "storeClose s s' \<longleftrightarrow> Close s = Some s'"

definition cleanable :: "hash \<Rightarrow> memstore \<Rightarrow> bool" where
  "cleanable H s \<longleftrightarrow> store_inv H s \<and> config_ok (cleanupConfig s)"

interpretation cleaner: ticker_work cleanupTick "storeUse H" storeClose "cleanable H" for H
proof unfold_locales
  fix s s'
  assume good: "cleanable H s"
  then have spec: "\<exists>s'. performCleanup dbord ord rng now s = Some s' \<and> purged H now s s'" for dbord ord rng now
    using performCleanup_spec [of H s dbord ord rng now] by (auto simp: cleanable_def)
  show "\<exists>s'. cleanupTick s s'"
    using spec [of id "\<lambda>_ _ _. id" "\<lambda>_ _ _ _. 0" 0] unfolding cleanupTick_def by blast
  show "cleanable H s'" if "cleanupTick s s'"
  proof -
    obtain dbord ord rng now where "performCleanup dbord ord rng now s = Some s'" using \<open>cleanupTick s s'\<close> by (auto simp: cleanupTick_def)
    with good spec [of dbord ord rng now] show ?thesis by (auto simp: cleanable_def purged_def same_setup_def)
  qed
  show "cleanable H s'" if "storeUse H s s'"
    using that good store_step_inv [of H s s'] by (simp add: storeUse_def cleanable_def)
  show "cleanable H s'" if "storeClose s s'"
    using that good store_step_inv [OF store_step.close, of s s' H] by (auto simp: storeClose_def cleanable_def Close_def split: if_splits)
qed

text \<open>
  Whenever \<^verbatim>\<open>Close\<close> waits, it returns after at most five steps of the goroutine unless the ticker fires again, whichever way the
  select chooses; when it has returned the goroutine has ended, so no cleanup touches the store any more.
\<close>

theorem storage_close_returns:
  assumes "ticker_reachable cleanupTick (storeUse H) storeClose s k" and "store_inv H s" and "config_ok (cleanupConfig s)"
    and "tkStop k = StopWaits" and "(ticker_step cleanupTick ^^ n) k k'"
  shows "n \<le> 5 \<and> (tkStop k' = StopWaits \<longrightarrow> (\<exists>k''. ticker_step cleanupTick k' k'')) \<and> (tkStop k' \<noteq> StopWaits \<longrightarrow> tkPc k' = TickerEnded) \<and>
    store_inv H (tkState k') \<and> (\<exists>k''. rtranclp (ticker_step cleanupTick) k' k'' \<and> tkStop k'' = StopReturned)"
  using cleaner.stop_returns [OF assms(1) _ assms(4,5)] assms(2,3) by (simp add: cleanable_def)

section \<open>Heartbeat\<close>

text \<open>\<open>conn\<close> is what the connection answers at this tick.\<close>

definition heartbeatWork :: "(writeerror \<Rightarrow> string) \<Rightarrow> 's node \<Rightarrow> 's node \<Rightarrow> bool" where
  "heartbeatWork wtext n n' \<longleftrightarrow> (\<exists>conn. n' = heartbeatTick wtext conn n)"

text \<open>The stream changes the client in between; closing the stop channel changes no field.\<close>

interpretation heartbeat: ticker_work "heartbeatWork wtext" "\<lambda>_ _. True" "(=)" "\<lambda>_. True" for wtext
  by unfold_locales (auto simp: heartbeatWork_def)

theorem heartbeat_stop_returns:
  assumes "ticker_reachable (heartbeatWork wtext) (\<lambda>_ _. True) (=) n0 k" and "tkStop k = StopWaits"
    and "(ticker_step (heartbeatWork wtext) ^^ n) k k'"
  shows "n \<le> 5 \<and> (tkStop k' = StopWaits \<longrightarrow> (\<exists>k''. ticker_step (heartbeatWork wtext) k' k'')) \<and>
    (tkStop k' \<noteq> StopWaits \<longrightarrow> tkPc k' = TickerEnded) \<and> (\<exists>k''. rtranclp (ticker_step (heartbeatWork wtext)) k' k'' \<and> tkStop k'' = StopReturned)"
  using heartbeat.stop_returns [OF assms(1) TrueI assms(2,3)] by simp

end
