(* ===== verification/Repl_Output.thy ===== *)
theory Repl_Output
  imports Repl_Reconnect
begin

text \<open>
  What the replication client says on a connection: the handshake, then the acknowledgements of the heartbeat, which run
  beside the stream of commands. The writes of the heartbeat and of the handshake exclude each other by \<^verbatim>\<open>writeMu\<close>, so each
  is one step.
\<close>

definition sentCommand :: "string \<times> string list \<Rightarrow> bytes" where
  "sentCommand = (\<lambda>(name, args). wire (ArrayV (map BulkV (name # args))))"

definition authCommands :: "'s client \<Rightarrow> (string \<times> string list) list" where
  "authCommands c = (if masterPassword c = [] then [] else [(''AUTH'', [masterPassword c])])"

definition psyncCommand :: "'s client \<Rightarrow> string \<times> string list" where
  "psyncCommand c = (''PSYNC'', if replID c \<noteq> [] \<and> replOffset c > 0 then [replID c, FormatInt (replOffset c)] else [''?'', ''-1''])"

definition ackCommand :: "int \<Rightarrow> string \<times> string list" where
  "ackCommand offset = (''REPLCONF'', [''ACK'', FormatInt offset])"

text \<open>The client while it streams: it reads, processes a command, or the heartbeat ticks, on whatever the connection answers.\<close>

inductive stream_step :: "(string \<Rightarrow> string) \<Rightarrow> 's Storage \<Rightarrow> (writeerror \<Rightarrow> string) \<Rightarrow> 's node \<Rightarrow> 's node \<Rightarrow> bool" for U st wtext where
  reads: "stream_step U st wtext n (n\<lparr>nClient := (nClient n)\<lparr>cReader := r\<rparr>\<rparr>)"
| command: "processCommand U st now v (nClient n) = Some (err, c) \<Longrightarrow> stream_step U st wtext n (n\<lparr>nClient := c\<rparr>)"
| beat: "stream_step U st wtext n (heartbeatTick wtext conn n)"

section \<open>The handshake\<close>

lemma writes_command:
  "werr w = None \<Longrightarrow> WriteCommand name args w = (None, w\<lparr>written := written w @ sentCommand (name, args)\<rparr>)"
  using puts_ok [OF puts_WriteCommand] by (simp add: sentCommand_def)

lemma connect_output:
  assumes "connect (Inr conn) n = (None, n1)" "werr (connWriter conn) = None"
  shows "cWriter (nClient n1) = (connWriter conn)\<lparr>written := written (connWriter conn) @ concat (map sentCommand (authCommands (nClient n)))\<rparr> \<and>
    replID (nClient n1) = replID (nClient n) \<and> replOffset (nClient n1) = replOffset (nClient n) \<and>
    syncing (nClient n1) = syncing (nClient n)"
  using assms
  by (auto simp: connect_def connectSucceeded_def onClient_def authenticate_def wseq_def writes_command Flush_def authCommands_def Let_def
      split: option.splits if_splits prod.splits sum.splits)

lemma sync_output:
  assumes "performSync F st now c = Some (err, c')" "werr (cWriter c) = None" "\<not> syncing c"
  shows "cWriter c' = (cWriter c)\<lparr>written := written (cWriter c) @ sentCommand (psyncCommand c)\<rparr>"
  using assms
  by (auto simp: performSync_def synchronise_def syncSucceeded_def performFullSync_def sendPSYNC_def wseq_def writes_command Flush_def psyncCommand_def Let_def
      split: option.splits if_splits prod.splits sum.splits)

section \<open>The stream\<close>

lemma processCommand_output: "processCommand U st now v c = Some (err, c') \<Longrightarrow> cWriter c' = cWriter c \<and> replOffset c' = replOffset c"
  by (auto simp: processCommand_def split: sum.splits if_splits option.splits prod.splits)

lemma heartbeatTick_output:
  assumes "werr (cWriter (nClient n)) = None"
  shows "\<exists>k. cWriter (nClient (heartbeatTick wtext conn n)) = (cWriter (nClient n))\<lparr>written := written (cWriter (nClient n)) @
      concat (map sentCommand (replicate k (ackCommand (replOffset (nClient n)))))\<rparr> \<and>
    replOffset (nClient (heartbeatTick wtext conn n)) = replOffset (nClient n)"
proof (cases "\<not> connected n \<or> writeTimeout n > 0 \<and> ackDeadlineErr conn \<noteq> None")
  case True
  then have "nClient (heartbeatTick wtext conn n) = nClient n"
    by (auto simp: heartbeatTick_def sendReplconfACK_def Let_def)
  then show ?thesis by (intro exI [of _ 0]) simp
next
  case False
  then show ?thesis
    by (intro exI [of _ 1])
      (auto simp: heartbeatTick_def sendReplconfACK_def writes_command [OF assms] Flush_def onClient_def assms ackCommand_def)
qed

lemma stream_output:
  assumes "rtranclp (stream_step U st wtext) n n'" "werr (cWriter (nClient n)) = None"
  shows "\<exists>k. cWriter (nClient n') = (cWriter (nClient n))\<lparr>written := written (cWriter (nClient n)) @
      concat (map sentCommand (replicate k (ackCommand (replOffset (nClient n)))))\<rparr> \<and> replOffset (nClient n') = replOffset (nClient n)"
  using assms(1)
proof (induction rule: rtranclp_induct)
  case base
  show ?case by (intro exI [of _ 0]) simp
next
  case (step m n')
  then obtain k where k: "cWriter (nClient m) = (cWriter (nClient n))\<lparr>written := written (cWriter (nClient n)) @
      concat (map sentCommand (replicate k (ackCommand (replOffset (nClient n)))))\<rparr>" "replOffset (nClient m) = replOffset (nClient n)"
    by blast
  from step.hyps(2) show ?case
  proof cases
    case (beat conn)
    obtain j where "cWriter (nClient n') = (cWriter (nClient m))\<lparr>written := written (cWriter (nClient m)) @
        concat (map sentCommand (replicate j (ackCommand (replOffset (nClient m)))))\<rparr>" "replOffset (nClient n') = replOffset (nClient m)"
      using heartbeatTick_output [of m wtext conn] k(1) assms(2) beat by auto
    with k show ?thesis by (intro exI [of _ "k + j"]) (simp add: replicate_add)
  qed (use k processCommand_output in \<open>fastforce+\<close>)
qed

text \<open>
  Claim C10: everything the client sends to the master on a connection is, in this order, its authentication if it has a
  password, one \<^verbatim>\<open>PSYNC\<close> that asks to continue exactly when an earlier session left an identity and an offset, and
  acknowledgements, each a complete command; every acknowledgement carries the offset of the synchronisation, whatever was
  streamed since.
\<close>

theorem client_conversation:
  assumes "werr (connWriter conn) = None" and "written (connWriter conn) = []" and "\<not> syncing (nClient n)" and "connect (Inr conn) n = (None, n1)"
    and "performSync F st now (nClient n1) = Some (None, c)" and "rtranclp (stream_step U st wtext) (n1\<lparr>nClient := c\<rparr>) n2"
  shows "\<exists>k. written (cWriter (nClient n2)) =
    concat (map sentCommand (authCommands (nClient n) @ [psyncCommand (nClient n)] @ replicate k (ackCommand (replOffset c))))"
proof -
  note conn = connect_output [OF assms(4,1)]
  then have "cWriter c = (cWriter (nClient n1))\<lparr>written := written (cWriter (nClient n1)) @ sentCommand (psyncCommand (nClient n1))\<rparr>"
    using sync_output [OF assms(5)] assms(1,3) by simp
  moreover have "psyncCommand (nClient n1) = psyncCommand (nClient n)" using conn by (simp add: psyncCommand_def)
  ultimately show ?thesis using stream_output [OF assms(6)] conn assms(1,2) by auto
qed

text \<open>A client that resumes a session, on a connection whose master answers \<^verbatim>\<open>CONTINUE\<close>, and a tick of its heartbeat.\<close>

definition resumingNode :: "memstore node" where
  "resumingNode = demoNode\<lparr>nClient := (nClient demoNode)\<lparr>replID := ''a1'', replOffset := 5\<rparr>\<rparr>"

theorem client_conversation_witness:
  "\<exists>n1 c k. connect (Inr (demoConn (continueBytes ''a1'' []))) resumingNode = (None, n1) \<and>
    performSync (\<lambda>_. []) (memoryStorage (\<lambda>_. 0) plainOrders globalMatchingConfig) 1 (nClient n1) = Some (None, c) \<and>
    written (cWriter (nClient (heartbeatTick (\<lambda>_. []) (demoConn []) (n1\<lparr>nClient := c\<rparr>)))) =
      concat (map sentCommand ([(''PSYNC'', [''a1'', ''5''])] @ replicate k (ackCommand (replOffset c))))"
proof -
  let ?conn = "demoConn (continueBytes ''a1'' [])" and ?st = "memoryStorage (\<lambda>_. 0) plainOrders globalMatchingConfig"
  have fresh: "werr (connWriter ?conn) = None" "written (connWriter ?conn) = []" by (simp_all add: demoConn_def)
  have node: "masterPassword (nClient resumingNode) = []" "replID (nClient resumingNode) = ''a1''" "replOffset (nClient resumingNode) = 5"
    "\<not> syncing (nClient resumingNode)"
    by (simp_all add: resumingNode_def demoNode_def NewClient_def)
  have "setConnectionTimeouts ?conn resumingNode = None"
    by (simp add: setConnectionTimeouts_def resumingNode_def demoNode_def NewClient_def demoConn_def Second_def Millisecond_def)
  then obtain n1 where n1: "connect (Inr ?conn) resumingNode = (None, n1)"
      "nClient n1 = onConn ?conn (nClient resumingNode)"
    using node by (simp add: connect_def connectSucceeded_def onClient_def onConn_def)
  obtain c where c: "performSync (\<lambda>_. []) ?st 1 (nClient n1) = Some (None, c)"
    using performSync_continue [of "''a1''" "nClient n1" "[]" "\<lambda>_. []" ?st 1] n1(2) node
    by (auto simp: isASCII_def isSpace_def demoConn_def onConn_def)
  have "rtranclp (stream_step id ?st (\<lambda>_. [])) (n1\<lparr>nClient := c\<rparr>) (heartbeatTick (\<lambda>_. []) (demoConn []) (n1\<lparr>nClient := c\<rparr>))"
    by (rule r_into_rtranclp, rule stream_step.beat)
  moreover have "FormatInt 5 = ''5''" by code_simp
  ultimately show ?thesis
    using client_conversation [OF fresh node(4) n1(1) c] n1(1) c node by (auto simp: authCommands_def psyncCommand_def)
qed

end
