(* ===== verification/Repl_Stop.thy ===== *)
theory Repl_Stop
  imports Repl_Reconnect
begin

text \<open>
  The replication loop with its stop channel (\<^verbatim>\<open>run\<close> and \<^verbatim>\<open>streamCommands\<close> of
  \<^verbatim>\<open>src/replication/client.go\<close>). The goroutine looks at the channel in many places; the looks are numbered in
  the order it makes them, and from number \<open>K\<close> on it finds the channel closed. \<open>dials k\<close> is the outcome of
  the attempt to connect with number \<open>k\<close>: the network may go on for ever, and it is the stop that ends the loop.
  The first part defines the loops, the second shows what holds of them whenever the stop comes, the third that the
  loops of \<open>Repl_Client\<close> and \<open>Repl_Run\<close>, which leave the channel out, are these.
\<close>

section \<open>The command stream\<close>

text \<open>
  \<open>i\<close> is the number of the next look. The result is the error, \<open>None\<close> for the \<^verbatim>\<open>nil\<close> of a stop, the number
  of the next look and the client.
\<close>

function streamUntil ::
  "nat \<Rightarrow> (string \<Rightarrow> string) \<Rightarrow> 's Storage \<Rightarrow> (nat \<Rightarrow> int) \<Rightarrow> nat \<Rightarrow> nat \<Rightarrow> nat \<Rightarrow> 's client
     \<Rightarrow> (clienterror option \<times> nat \<times> 's client) option"
where
  "streamUntil K U st clock i t protocolErrorCount c =
     (if K \<le> i then Some (None, i + 1, c)
      else case ReadNext (cReader c) of
        (Inl err, r) \<Rightarrow>
          (let c = c\<lparr>cReader := r\<rparr> in
           if K \<le> i + 1 then Some (None, i + 2, c)
           else if err = IOErr EOF then Some (Some ConnectionClosed, i + 2, c)
           else if Contains (perror_text err) ''use of closed network connection'' then
             (if K \<le> i + 2 then Some (None, i + 3, c) else Some (Some (UnexpectedlyClosed err), i + 3, c))
           else if isProtocolError err then
             (if protocolErrorCount + 1 \<ge> maxProtocolErrors
              then Some (Some (Desynchronised (protocolErrorCount + 1) err), i + 2, c)
              else if K \<le> i + 2 then Some (None, i + 3, c)
              else streamUntil K U st clock (i + 3) t (protocolErrorCount + 1) c)
           else Some (Some (CommandReadFailed err), i + 2, c))
      | (Inr value, r) \<Rightarrow>
          (case processCommand U st (clock t) value (c\<lparr>cReader := r\<rparr>) of
             None \<Rightarrow> None
           | Some (_, c') \<Rightarrow> streamUntil K U st clock (i + 1) (t + 1) 0 c'))"
  by pat_completeness auto
termination
  by (relation "measure (\<lambda>(K, U, st, clock, i, t, n, c). K - i)") auto

declare streamUntil.simps [simp del]

datatype streamerror = StreamDeadline string | StreamFailed clienterror

text \<open>The text of the error contains \<^verbatim>\<open>use of closed network connection\<close>.\<close>

fun mentionsClosed :: "streamerror \<Rightarrow> bool" where
  "mentionsClosed (StreamDeadline e) \<longleftrightarrow> Contains e ''use of closed network connection''"
| "mentionsClosed (StreamFailed (UnexpectedlyClosed _)) \<longleftrightarrow> True"
| "mentionsClosed (StreamFailed _) \<longleftrightarrow> False"

definition streamCommandsUntil ::
  "nat \<Rightarrow> (string \<Rightarrow> string) \<Rightarrow> 's Storage \<Rightarrow> (nat \<Rightarrow> int) \<Rightarrow> netconn \<Rightarrow> nat \<Rightarrow> 's node
     \<Rightarrow> (streamerror option \<times> nat \<times> 's node) option"
where
  "streamCommandsUntil K U st clock conn i n =
     (let n = onClient (freshReader (connBuffered conn)) n in
      case streamDeadlineErr conn of
        Some e \<Rightarrow> Some (Some (StreamDeadline e), i, n)
      | None \<Rightarrow>
          (let n = startHeartbeat n in
           map_option (\<lambda>(err, j, c). (map_option StreamFailed err, j, n\<lparr>nClient := c\<rparr>))
             (streamUntil K U st clock i 0 0 (nClient n))))"

section \<open>The replication loop\<close>

text \<open>
  The end of a turn whose stream has failed: the loop returns at once when it is being stopped, and otherwise records the error,
  disconnects and goes on.
\<close>

definition streamFailure :: "nat \<Rightarrow> nat \<Rightarrow> streamerror \<Rightarrow> 's node \<Rightarrow> ('s node + nat \<times> 's node)" where
  "streamFailure K j err n =
     (if K \<le> j then Inl n
      else if mentionsClosed err \<and> K \<le> j + 1 then Inl n
      else Inr (if mentionsClosed err then j + 2 else j + 1, disconnect (onClient (recordMetricError ''streaming'') n)))"

text \<open>
  One turn of the loop on an attempt to connect, after the look at its head: \<open>Inl\<close> when it returns, \<open>Inr\<close> with the
  number of the next look when it goes on.
\<close>

definition runTurn ::
  "nat \<Rightarrow> (string \<Rightarrow> string) \<Rightarrow> (string \<Rightarrow> string list) \<Rightarrow> 's Storage \<Rightarrow> int \<Rightarrow> (nat \<Rightarrow> int) \<Rightarrow> (string + netconn) \<Rightarrow> nat \<Rightarrow> 's node
     \<Rightarrow> ('s node + nat \<times> 's node) option"
where
  "runTurn K U F st now clock dial i n =
     (case connect dial n of
        (Some err, n) \<Rightarrow>
          (let n = onClient (recordMetricError ''connection'') n in Some (if K \<le> i then Inl n else Inr (i + 1, n)))
      | (None, n) \<Rightarrow>
          (case performSync F st now (nClient n) of
             None \<Rightarrow> None
           | Some (Some err, c) \<Rightarrow>
               (let n = disconnect (n\<lparr>nClient := recordMetricError ''sync'' c\<rparr>) in
                Some (if K \<le> i then Inl n else Inr (i + 1, n)))
           | Some (None, c) \<Rightarrow>
               (case streamCommandsUntil K U st clock (projr dial) i (n\<lparr>nClient := c\<rparr>) of
                  None \<Rightarrow> None
                | Some (None, j, n) \<Rightarrow> Some (Inr (j, n))
                | Some (Some err, j, n) \<Rightarrow> Some (streamFailure K j err n))))"

lemma streamUntil_looks: "streamUntil K U st clock i t p c = Some (err, j, c') \<Longrightarrow> i < j"
proof (induction K U st clock i t p c rule: streamUntil.induct)
  case (1 K U st clock i t p c)
  obtain x r where read: "ReadNext (cReader c) = (x, r)" by (cases "ReadNext (cReader c)")
  show ?case
  proof (cases "K \<le> i")
    case False
    show ?thesis
    proof (cases x)
      case (Inl e)
      show ?thesis using "1.prems" "1.IH"(1) [OF False read [symmetric] Inl refl] read Inl False
        by (fastforce simp: streamUntil.simps [of K U st clock i t p c] Let_def split: if_splits)
    next
      case (Inr v)
      show ?thesis using "1.prems" "1.IH"(2) [OF False read [symmetric] Inr] read Inr False
        by (fastforce simp: streamUntil.simps [of K U st clock i t p c] split: option.splits)
    qed
  qed (use "1.prems" in \<open>simp add: streamUntil.simps\<close>)
qed

lemma runTurn_looks: "runTurn K U F st now clock dial i n = Some (Inr (j, n')) \<Longrightarrow> i \<le> j"
  by (fastforce simp: runTurn_def streamCommandsUntil_def streamFailure_def Let_def dest: streamUntil_looks
      split: prod.splits option.splits if_splits)

function runUntil ::
  "nat \<Rightarrow> (string \<Rightarrow> string) \<Rightarrow> (string \<Rightarrow> string list) \<Rightarrow> 's Storage \<Rightarrow> (nat \<Rightarrow> int) \<Rightarrow> (nat \<Rightarrow> nat \<Rightarrow> int) \<Rightarrow>
     (nat \<Rightarrow> string + netconn) \<Rightarrow> nat \<Rightarrow> nat \<Rightarrow> 's node \<Rightarrow> 's node option"
where
  "runUntil K U F st now clock dials k i n =
     (if K \<le> i then Some (disconnect n)
      else case runTurn K U F st (now k) (clock k) (dials k) (i + 1) n of
          None \<Rightarrow> None
        | Some (Inl n') \<Rightarrow> Some n'
        | Some (Inr (j, n')) \<Rightarrow> runUntil K U F st now clock dials (k + 1) j n')"
  by pat_completeness auto
termination
proof (relation "measure (\<lambda>(K, U, F, st, now, clock, dials, k, i, n). K - i)", simp)
  fix K i j k :: nat and U F and st :: "'s Storage" and now clock dials n x y n'
  assume "\<not> K \<le> i" "runTurn K U F st (now k) (clock k) (dials k) (i + 1) n = Some x" "x = Inr y" "(j, n') = y"
  with runTurn_looks [of K U F st "now k" "clock k" "dials k" "i + 1" n j n'] show
    "((K, U, F, st, now, clock, dials, k + 1, j, n'), K, U, F, st, now, clock, dials, k, i, n) \<in>
      measure (\<lambda>(K, U, F, st, now, clock, dials, k, i, n). K - i)" by auto
qed

declare runUntil.simps [simp del]

text \<open>The goroutine: it signals its end on every way out.\<close>

definition runStopped ::
  "nat \<Rightarrow> (string \<Rightarrow> string) \<Rightarrow> (string \<Rightarrow> string list) \<Rightarrow> 's Storage \<Rightarrow> (nat \<Rightarrow> int) \<Rightarrow> (nat \<Rightarrow> nat \<Rightarrow> int) \<Rightarrow>
     (nat \<Rightarrow> string + netconn) \<Rightarrow> 's node \<Rightarrow> 's node option"
where
  "runStopped K U F st now clock dials n = map_option finishRun (runUntil K U F st now clock dials 0 0 n)"

section \<open>What every run keeps\<close>

text \<open>A property of the client that neither the reader nor a command of the master can break.\<close>

locale stream_invariant =
  fixes U :: "string \<Rightarrow> string" and st :: "'s Storage" and P :: "'s client \<Rightarrow> bool"
  assumes reader: "P c \<Longrightarrow> P (c\<lparr>cReader := r\<rparr>)"
    and command: "P c \<Longrightarrow> \<exists>e c'. processCommand U st now v c = Some (e, c') \<and> P c'"
begin

lemma stream_keeps:
  "U' = U \<Longrightarrow> st' = st \<Longrightarrow> P c \<Longrightarrow> \<exists>e j c'. streamUntil K U' st' clock i t p c = Some (e, j, c') \<and> P c'"
proof (induction K U' st' clock i t p c rule: streamUntil.induct)
  case (1 K U' st' clock i t p c)
  obtain x r where read: "ReadNext (cReader c) = (x, r)" by (cases "ReadNext (cReader c)")
  show ?case
  proof (cases "K \<le> i")
    case False
    show ?thesis
    proof (cases x)
      case (Inl err)
      show ?thesis
        using "1.IH"(1) [OF False read [symmetric] Inl refl _ _ _ _ _ _ "1.prems"(1,2) reader [OF "1.prems"(3)]]
          reader [OF "1.prems"(3)] by (subst streamUntil.simps) (simp add: read Inl False Let_def)
    next
      case (Inr v)
      obtain e c' where c': "processCommand U st (clock t) v (c\<lparr>cReader := r\<rparr>) = Some (e, c')" "P c'"
        using command [OF reader [OF "1.prems"(3)]] by blast
      with "1.IH"(2) [OF False read [symmetric] Inr _ refl "1.prems"(1,2)] "1.prems"(1,2) show ?thesis
        by (subst streamUntil.simps) (simp add: read Inr False)
    qed
  qed (use "1.prems" in \<open>simp add: streamUntil.simps\<close>)
qed

lemma streamCommands_keeps:
  assumes "P (nClient n)"
  shows "\<exists>e j n'. streamCommandsUntil K U st clock conn i n = Some (e, j, n') \<and> P (nClient n') \<and>
    ReconnectCount n' = ReconnectCount n \<and> runEnded n' = runEnded n \<and> doneClosed n' = doneClosed n"
proof -
  let ?c = "freshReader (connBuffered conn) (nClient n)"
  obtain e j c' where "streamUntil K U st clock i 0 0 ?c = Some (e, j, c')" "P c'"
    using stream_keeps [OF refl refl reader [OF assms]] unfolding freshReader_def by blast
  then show ?thesis
    by (cases "streamDeadlineErr conn")
      (simp_all add: streamCommandsUntil_def onClient_def startHeartbeat_def freshReader_def reader [OF assms] Let_def)
qed

end

text \<open>
  What a metrics collector has been told agrees with the statistics: a call for every established connection, every completed
  synchronisation and every command executed.
\<close>

definition isCommandCall :: "metricCall \<Rightarrow> bool" where
  "isCommandCall m \<longleftrightarrow> (\<exists>name. m = MetricCommandProcessed name)"

definition metered :: "int \<Rightarrow> 's client \<Rightarrow> bool" where
  "metered connections c \<longleftrightarrow> (\<forall>ms. cMetrics c = Some ms \<longrightarrow>
     int (count_list ms MetricReconnection) = connections \<and> count_list ms MetricSyncDuration = syncCallbacks c \<and>
     int (length (filter isCommandCall ms)) = CommandsProcessed c)"

lemma metered_calls:
  "metered n (recordMetric MetricReconnection c) = metered (n - 1) c"
  "metered n c \<Longrightarrow> metered n (recordMetricError e c)"
  by (auto simp: metered_def recordMetricError_def recordMetric_def isCommandCall_def)

lemma metered_other [simp]:
  "metered n (c\<lparr>cReader := r\<rparr>) = metered n c" "metered n (c\<lparr>cWriter := w\<rparr>) = metered n c" "metered n (c\<lparr>cStorage := s\<rparr>) = metered n c"
  "metered n (c\<lparr>replID := rid\<rparr>) = metered n c" "metered n (c\<lparr>replOffset := off\<rparr>) = metered n c" "metered n (c\<lparr>syncing := b\<rparr>) = metered n c"
  by (simp_all add: metered_def)

lemma metered_command: "processCommand U st now v c = Some (e, c') \<Longrightarrow> metered n c \<Longrightarrow> metered n c'"
  by (auto simp: processCommand_def metered_def recordMetric_def isCommandCall_def
      split: sum.splits if_splits option.splits prod.splits)

lemma metered_succeeded: "metered n c \<Longrightarrow> metered n (syncSucceeded now c)"
  by (auto simp: metered_def syncSucceeded_def recordMetric_def isCommandCall_def)

lemma metered_sync: "performSync F st now c = Some (e, c') \<Longrightarrow> metered n c \<Longrightarrow> metered n c'"
  by (auto simp: performSync_def synchronise_def performFullSync_def sendPSYNC_def Let_def metered_succeeded
      split: prod.splits option.splits sum.splits if_splits)

lemma metered_connect:
  "connect dial n = (e, n') \<Longrightarrow> metered (ReconnectCount n) (nClient n) \<Longrightarrow> metered (ReconnectCount n') (nClient n')"
  by (auto simp: connect_def connectSucceeded_def authenticate_def disconnect_def onClient_def metered_calls Let_def
      split: sum.splits option.splits if_splits prod.splits)

definition healthy :: "hash \<Rightarrow> memstore node \<Rightarrow> bool" where
  "healthy H n \<longleftrightarrow> store_inv H (cStorage (nClient n)) \<and> metered (ReconnectCount n) (nClient n)"

interpretation mem_stream: stream_invariant U "memoryStorage H ords cfg" "\<lambda>c. store_inv H (cStorage c) \<and> metered m c"
proof unfold_locales
  fix c :: "memstore client" and now v
  assume "store_inv H (cStorage c) \<and> metered m c"
  with mem.processCommand_safe [of H c U ords cfg now v] metered_command [of U "memoryStorage H ords cfg" now v c _ _ m]
  show "\<exists>e c'. processCommand U (memoryStorage H ords cfg) now v c = Some (e, c') \<and> store_inv H (cStorage c') \<and> metered m c'"
    by blast
qed simp

text \<open>The state in which a turn returns or goes on is healthy, and its end has not been signalled.\<close>

definition kept :: "hash \<Rightarrow> memstore node \<Rightarrow> memstore node + nat \<times> memstore node \<Rightarrow> bool" where
  "kept H n x \<longleftrightarrow> (\<forall>n'. x = Inl n' \<or> (\<exists>j. x = Inr (j, n')) \<longrightarrow> healthy H n' \<and> runEnded n' = runEnded n \<and> doneClosed n' = doneClosed n)"

lemma streamFailure_keeps: "healthy H n \<Longrightarrow> kept H n (streamFailure K j err n)"
  using metered_calls(2) [of "ReconnectCount n" "nClient n"]
  by (auto simp: streamFailure_def kept_def healthy_def onClient_def disconnect_def recordMetricError_def)

lemma connect_life: "connect dial n = (e, n') \<Longrightarrow> runEnded n' = runEnded n \<and> doneClosed n' = doneClosed n"
  by (auto simp: connect_def connectSucceeded_def onClient_def disconnect_def Let_def
      split: sum.splits option.splits if_splits prod.splits)

lemma runTurn_keeps:
  assumes "healthy H n"
  shows "\<exists>x. runTurn K U F (memoryStorage H ords cfg) now clock dial i n = Some x \<and> kept H n x"
proof -
  let ?st = "memoryStorage H ords cfg"
  obtain e n1 where con: "connect dial n = (e, n1)" by (cases "connect dial n")
  have n1: "store_inv H (cStorage (nClient n1))" "metered (ReconnectCount n1) (nClient n1)" "runEnded n1 = runEnded n" "doneClosed n1 = doneClosed n"
    using assms mem.connect_storage [OF con] metered_connect [OF con] connect_life [OF con] by (auto simp: healthy_def)
  obtain e2 c2 where sync: "performSync F ?st now (nClient n1) = Some (e2, c2)" "store_inv H (cStorage c2)"
    using mem.performSync_safe [OF n1(1)] by blast
  have c2: "metered (ReconnectCount n1) c2" using metered_sync [OF sync(1) n1(2)] .
  obtain e3 j n3 where stream: "streamCommandsUntil K U ?st clock (projr dial) i (n1\<lparr>nClient := c2\<rparr>) = Some (e3, j, n3)"
      "healthy H n3" "runEnded n3 = runEnded n" "doneClosed n3 = doneClosed n"
    using mem_stream.streamCommands_keeps [of H "n1\<lparr>nClient := c2\<rparr>" "ReconnectCount n1" K U ords cfg clock "projr dial" i] sync(2) c2 n1
    by (auto simp: healthy_def)
  show ?thesis
  proof (cases "e = None \<and> e2 = None")
    case True
    show ?thesis using con sync(1) stream True streamFailure_keeps [OF stream(2), of K j]
      by (cases e3) (simp_all add: runTurn_def kept_def)
  next
    case False
    then show ?thesis using con sync c2 n1 metered_calls(2) [of "ReconnectCount n1"]
      by (cases e) (auto simp: runTurn_def kept_def healthy_def onClient_def disconnect_def recordMetricError_def Let_def)
  qed
qed

lemma runUntil_keeps:
  "st = memoryStorage H ords cfg \<Longrightarrow> healthy H n \<Longrightarrow>
     \<exists>n'. runUntil K U F st now clock dials k i n = Some n' \<and> healthy H n' \<and> runEnded n' = runEnded n \<and> doneClosed n' = doneClosed n"
proof (induction K U F st now clock dials k i n rule: runUntil.induct)
  case (1 K U F st now clock dials k i n)
  show ?case
  proof (cases "K \<le> i")
    case True
    then show ?thesis using "1.prems"(2) by (simp add: runUntil.simps healthy_def disconnect_def)
  next
    case False
    obtain x where x: "runTurn K U F st (now k) (clock k) (dials k) (i + 1) n = Some x" "kept H n x"
      using runTurn_keeps [OF "1.prems"(2)] "1.prems"(1) by blast
    show ?thesis
    proof (cases x)
      case (Inl n')
      with x False show ?thesis by (subst runUntil.simps) (simp add: kept_def)
    next
      case (Inr y)
      obtain j n' where y: "y = (j, n')" by (cases y)
      with "1.IH" [OF False x(1) Inr y [symmetric] "1.prems"(1)] x False Inr show ?thesis by (subst runUntil.simps) (simp add: kept_def)
    qed
  qed
qed


text \<open>A master that accepts every other connection and then talks nonsense; the stop comes at the twentieth look.\<close>

definition flakyMaster :: "nat \<Rightarrow> string + netconn" where
  "flakyMaster k = (if even k then Inr (demoConn ''+CONTINUE nonsense'') else Inl ''connection refused'')"


section \<open>Stopping within a stream\<close>

context storage_laws
begin

text \<open>Whenever the stop comes, the writes carried out are the first ones of the stream, each as a whole.\<close>

lemma stop_law:
  assumes "follows c x" and "list_all (in_scope (cDatabases c)) ws" and "entersScope (cDatabases c) (fst x) ws"
    and "cReader c = \<lparr>pending = concat (map commandWire ws), endErr = EOF\<rparr>"
  shows "\<exists>e j c' k. streamUntil K U st clock i t p c = Some (e, j, c') \<and> follows c' (masterRun clock t (take k ws) x) \<and>
    (if K - i \<le> length ws then e = None \<and> k = K - i else e = (if K = i + length ws + 1 then None else Some ConnectionClosed) \<and> k = length ws)"
  using assms
proof (induction ws arbitrary: c x t p i)
  case Nil
  show ?case
  proof (cases "K \<le> i")
    case True
    with Nil(1) show ?thesis by (subst streamUntil.simps) auto
  next
    case False
    with Nil show ?thesis by (subst streamUntil.simps) (auto simp: ReadNext_empty follows_def Let_def)
  qed
next
  case (Cons w ws)
  show ?case
  proof (cases "K \<le> i")
    case True
    with Cons.prems(1) show ?thesis by (subst streamUntil.simps) auto
  next
    case False
    obtain v r c' where step: "ReadNext (cReader c) = (Inr v, r)" "processCommand U st (clock t) v (c\<lparr>cReader := r\<rparr>) = Some (None, c')"
        "follows c' (masterStep (clock t) w x)" "list_all (in_scope (cDatabases c')) ws"
        "entersScope (cDatabases c') (fst (masterStep (clock t) w x)) ws" "cReader c' = \<lparr>pending = concat (map commandWire ws), endErr = EOF\<rparr>"
      using next_write [OF Cons.prems] by blast
    obtain e j c'' k where rest: "streamUntil K U st clock (i + 1) (t + 1) 0 c' = Some (e, j, c'')"
        "follows c'' (masterRun clock (t + 1) (take k ws) (masterStep (clock t) w x))"
        "if K - (i + 1) \<le> length ws then e = None \<and> k = K - (i + 1)
         else e = (if K = i + 1 + length ws + 1 then None else Some ConnectionClosed) \<and> k = length ws"
      using Cons.IH [OF step(3-6)] by blast
    have "streamUntil K U st clock i t p c = Some (e, j, c'')" using step(1,2) rest(1) False by (subst streamUntil.simps) simp
    with rest(2,3) False show ?thesis
      by (intro exI [of _ e] exI [of _ j] exI [of _ c''] exI [of _ "Suc k"]) (auto split: if_splits)
  qed
qed

end

section \<open>Without a stop\<close>

text \<open>
  The stream of \<open>Repl_Client\<close> is this one when the stop comes late enough: \<open>m\<close> is the number of looks it takes.
\<close>

lemma streamLoop_unstopped:
  "streamLoop U st clock t p c = Some (err, c') \<Longrightarrow>
     \<exists>m. \<forall>K i. i + m \<le> K \<longrightarrow> streamUntil K U st clock i t p c = Some (Some err, i + m, c')"
proof (induction U st clock t p c rule: streamLoop.induct)
  case (1 U st clock t p c)
  obtain x r where read: "ReadNext (cReader c) = (x, r)" by (cases "ReadNext (cReader c)")
  note until = streamUntil.simps [of _ U st clock _ t p c] and loop = streamLoop.simps [of U st clock t p c]
  show ?case
  proof (cases x)
    case (Inl e)
    consider (eof) "e = IOErr EOF" | (gone) "e \<noteq> IOErr EOF" "Contains (perror_text e) ''use of closed network connection''"
      | (again) "e \<noteq> IOErr EOF" "\<not> Contains (perror_text e) ''use of closed network connection''" "isProtocolError e" "p + 1 < maxProtocolErrors"
      | (fatal) "e \<noteq> IOErr EOF" "\<not> Contains (perror_text e) ''use of closed network connection''" "isProtocolError e \<longrightarrow> maxProtocolErrors \<le> p + 1"
      by linarith
    then show ?thesis
    proof cases
      case gone
      with "1.prems" read Inl show ?thesis by (intro exI [of _ 3]) (auto simp: until loop Let_def)
    next
      case again
      then obtain m where "\<forall>K i. i + m \<le> K \<longrightarrow> streamUntil K U st clock i t (p + 1) (c\<lparr>cReader := r\<rparr>) = Some (Some err, i + m, c')"
        using "1.IH"(1) [OF read [symmetric] Inl refl] "1.prems" read Inl by (auto simp: loop Let_def)
      with again read Inl show ?thesis by (intro exI [of _ "m + 3"]) (auto simp: until Let_def add.assoc)
    next
      case eof
      with "1.prems" read Inl show ?thesis by (intro exI [of _ 2]) (auto simp: until loop Let_def)
    next
      case fatal
      with "1.prems" read Inl show ?thesis by (intro exI [of _ 2]) (auto simp: until loop Let_def split: if_splits)
    qed
  next
    case (Inr v)
    then obtain e2 c2 where step: "processCommand U st (clock t) v (c\<lparr>cReader := r\<rparr>) = Some (e2, c2)"
        "streamLoop U st clock (t + 1) 0 c2 = Some (err, c')"
      using "1.prems" read by (auto simp: loop split: option.splits)
    then obtain m where "\<forall>K i. i + m \<le> K \<longrightarrow> streamUntil K U st clock i (t + 1) 0 c2 = Some (Some err, i + m, c')"
      using "1.IH"(2) [OF read [symmetric] Inr step(1) refl] by blast
    with step read Inr show ?thesis by (intro exI [of _ "m + 1"]) (auto simp: until add.assoc)
  qed
qed

lemma streamFailure_unstopped:
  "\<exists>m>0. \<forall>K j. j + m \<le> K \<longrightarrow> streamFailure K j err n = Inr (j + m, disconnect (onClient (recordMetricError ''streaming'') n))"
  by (cases "mentionsClosed err") (auto simp: streamFailure_def intro: exI [of _ "1 :: nat"] exI [of _ "2 :: nat"])

lemma streamCommands_unstopped:
  assumes "streamDeadlineErr conn = None" and "streamCommands U st clock (connBuffered conn) (nClient n) = Some (err, c)"
  shows "\<exists>m. \<forall>K i. i + m \<le> K \<longrightarrow>
    streamCommandsUntil K U st clock conn i n = Some (Some (StreamFailed err), i + m, (startHeartbeat n)\<lparr>nClient := c\<rparr>)"
proof -
  obtain m where "\<forall>K i. i + m \<le> K \<longrightarrow> streamUntil K U st clock i 0 0 (freshReader (connBuffered conn) (nClient n)) = Some (Some err, i + m, c)"
    using assms(2) streamLoop_unstopped unfolding streamCommands_def by blast
  then show ?thesis using assms(1)
    by (intro exI [of _ m]) (auto simp: streamCommandsUntil_def onClient_def startHeartbeat_def)
qed

lemma runTurn_unstopped:
  assumes "runOnce U F st now clock dial n = Some n'"
  shows "\<exists>m>0. \<forall>K i. i + m \<le> K \<longrightarrow> runTurn K U F st now clock dial i n = Some (Inr (i + m, n'))"
proof -
  obtain e n1 where con: "connect dial n = (e, n1)" by (cases "connect dial n")
  show ?thesis
  proof (cases "e = None \<and> (\<exists>c. performSync F st now (nClient n1) = Some (None, c))")
    case False
    then have "\<forall>K i. i + 1 \<le> K \<longrightarrow> runTurn K U F st now clock dial i n = Some (Inr (i + 1, n'))"
      using assms con by (cases e) (auto simp: runOnce_def runTurn_def Let_def split: option.splits prod.splits)
    then show ?thesis by (intro exI [of _ 1]) simp
  next
    case True
    then obtain c where c: "e = None" "performSync F st now (nClient n1) = Some (None, c)" by blast
    let ?conn = "projr dial" and ?n = "n1\<lparr>nClient := c\<rparr>"
    have "\<exists>err n2 m. (\<forall>K i. i + m \<le> K \<longrightarrow> streamCommandsUntil K U st clock ?conn i ?n = Some (Some err, i + m, n2)) \<and>
        n' = disconnect (onClient (recordMetricError ''streaming'') n2)"
    proof (cases "streamDeadlineErr ?conn")
      case None
      then obtain err c' where "streamCommands U st clock (connBuffered ?conn) (nClient ?n) = Some (err, c')"
          "n' = disconnect ((startHeartbeat ?n)\<lparr>nClient := recordMetricError ''streaming'' c'\<rparr>)"
        using assms con c by (auto simp: runOnce_def Let_def split: option.splits)
      moreover obtain m where "\<forall>K i. i + m \<le> K \<longrightarrow>
          streamCommandsUntil K U st clock ?conn i ?n = Some (Some (StreamFailed err), i + m, (startHeartbeat ?n)\<lparr>nClient := c'\<rparr>)"
        using streamCommands_unstopped [OF None calculation(1)] by blast
      ultimately show ?thesis
        by (intro exI [of _ "StreamFailed err"] exI [of _ "(startHeartbeat ?n)\<lparr>nClient := c'\<rparr>"] exI [of _ m]) (simp add: onClient_def)
    next
      case (Some e)
      then show ?thesis using assms con c
        by (intro exI [of _ "StreamDeadline e"] exI [of _ "onClient (freshReader (connBuffered ?conn)) ?n"] exI [of _ 0])
          (auto simp: runOnce_def streamCommandsUntil_def onClient_def Let_def)
    qed
    then obtain err n2 m where m: "\<forall>K i. i + m \<le> K \<longrightarrow> streamCommandsUntil K U st clock ?conn i ?n = Some (Some err, i + m, n2)"
        "n' = disconnect (onClient (recordMetricError ''streaming'') n2)" by blast
    obtain m' where "0 < m'" "\<forall>K j. j + m' \<le> K \<longrightarrow> streamFailure K j err n2 = Inr (j + m', n')"
      using streamFailure_unstopped [of err n2] m(2) by blast
    with m(1) con c show ?thesis by (intro exI [of _ "m + m'"]) (simp add: runTurn_def add.assoc)
  qed
qed

lemma runLoop_unstopped:
  "runLoop U F st now clock k ds n = Some n' \<Longrightarrow>
     \<exists>m. \<forall>dials i. (\<forall>a<length ds. dials (k + a) = ds ! a) \<longrightarrow> runUntil (i + m) U F st now clock dials k i n = Some n'"
proof (induction ds arbitrary: k n)
  case Nil
  then show ?case by (intro exI [of _ 0]) (simp add: runUntil.simps)
next
  case (Cons d ds)
  then obtain n1 where n1: "runOnce U F st (now k) (clock k) d n = Some n1" "runLoop U F st now clock (k + 1) ds n1 = Some n'"
    by (auto split: option.splits)
  obtain m1 where m1: "\<forall>K i. i + m1 \<le> K \<longrightarrow> runTurn K U F st (now k) (clock k) d i n = Some (Inr (i + m1, n1))"
    using runTurn_unstopped [OF n1(1)] by blast
  obtain m2 where m2: "\<forall>dials i. (\<forall>a<length ds. dials (k + 1 + a) = ds ! a) \<longrightarrow> runUntil (i + m2) U F st now clock dials (k + 1) i n1 = Some n'"
    using Cons.IH [OF n1(2)] by blast
  have "runUntil (i + (1 + m1 + m2)) U F st now clock dials k i n = Some n'" if "\<forall>a<length (d # ds). dials (k + a) = (d # ds) ! a" for dials i
  proof -
    have "dials k = d" "\<forall>a<length ds. dials (k + 1 + a) = ds ! a" using that by (force, auto)
    moreover have "runUntil (i + 1 + m1 + m2) U F st now clock dials (k + 1) (i + 1 + m1) n1 = Some n'"
      using m2 calculation(2) by blast
    ultimately show ?thesis using m1 by (subst runUntil.simps) (simp add: add.assoc)
  qed
  then show ?case by blast
qed

text \<open>
  The loop of \<open>Repl_Run\<close> over a list of attempts is the loop with its stop channel, stopped when it has made them.
\<close>

lemma run_is_stopped:
  assumes "run U F st now clock ds n = Some n'"
  shows "\<exists>K. \<forall>dials. (\<forall>a<length ds. dials a = ds ! a) \<longrightarrow> runStopped K U F st now clock dials n = Some n'"
proof -
  obtain n1 where n1: "runLoop U F st now clock 0 ds n = Some n1" "n' = finishRun n1"
    using assms by (auto simp: run_def)
  from runLoop_unstopped [OF this(1)] obtain m
    where "\<forall>dials i. (\<forall>a<length ds. dials (0 + a) = ds ! a) \<longrightarrow> runUntil (i + m) U F st now clock dials 0 i n = Some n1" by blast
  from this [rule_format, of _ 0] n1(2) show ?thesis by (intro exI [of _ m]) (simp add: runStopped_def)
qed

end
