(* ===== verification/Demo_Checks.thy ===== *)
theory Demo_Checks
  imports Reporting
begin

text \<open>
  Example programs that run parts of the library on fixed inputs and print what they find: \<^verbatim>\<open>src/examples/fixes-demo\<close> (the
  protocol reader), \<^verbatim>\<open>src/examples/pattern-matching\<close>, and \<^verbatim>\<open>src/examples/psync-demo\<close> and \<^verbatim>\<open>rdb-logging-demo\<close> (progress
  reports). A program is the list of the lines it prints, without headings and explanations; marks and symbols
  are the bytes of their UTF-8 encoding. Shown: what the programs print, and that they report success.
\<close>

definition okMark :: string where "okMark = [CHR 0xE2, CHR 0x9C, CHR 0x85]"
definition badMark :: string where "badMark = [CHR 0xE2, CHR 0x9D, CHR 0x8C]"

section \<open>Protocol fixes\<close>

definition testMissingCRLF :: "string list" where
  "testMissingCRLF = [''Testing protocol parsing with missing CRLF...'',
     (case fst (ReadNext \<lparr>pending = ''+OK'' @ [LF], endErr = EOF\<rparr>) of
        Inl err \<Rightarrow> ''  '' @ okMark @ '' Correctly caught CRLF error: '' @ perror_text err
      | Inr _ \<Rightarrow> ''  '' @ badMark @ '' Should have caught CRLF error'')]"

definition testInvalidCRLF :: "string list" where
  "testInvalidCRLF = [''Testing protocol parsing with invalid CRLF...'',
     (case fst (ReadNext \<lparr>pending = ''+OK'' @ [CR, CHR 0x00], endErr = EOF\<rparr>) of
        Inl err \<Rightarrow> ''  '' @ okMark @ '' Correctly caught invalid CRLF: '' @ perror_text err
      | Inr _ \<Rightarrow> ''  '' @ badMark @ '' Should have caught invalid CRLF error'')]"

text \<open>A bulk string as the program writes it with \<^verbatim>\<open>fmt.Fprintf\<close>.\<close>

definition bulkReader :: "bytes \<Rightarrow> reader" where
  "bulkReader d = \<lparr>pending = ''$'' @ FormatInt (int (length d)) @ CRLF @ d @ CRLF, endErr = EOF\<rparr>"

definition testBufferBoundaries :: "string list" where
  "testBufferBoundaries = [''Testing buffer boundary protection...'',
     (let testData = map (\<lambda>i. char_of (i mod 256)) [0..<4096] in
      case fst (ReadNext (bulkReader testData)) of
        Inl err \<Rightarrow> ''  '' @ badMark @ '' Failed to read bulk string: '' @ perror_text err
      | Inr value \<Rightarrow>
          (if length (vData value) = 4096 then ''  '' @ okMark @ '' Successfully handled 4096-byte buffer boundary''
           else ''  '' @ badMark @ '' Data length mismatch: expected 4096, got '' @ FormatInt (int (length (vData value)))))]"

definition countBytes :: "int chunk_fn" where
  "countBytes totalRead chunk = (None, case chunk of None \<Rightarrow> totalRead | Some c \<Rightarrow> totalRead + int (length c))"

definition testLargeDataHandling :: "string list" where
  "testLargeDataHandling = [''Testing large data handling with streaming...'',
     (let largeSize = 50000; testData = map (\<lambda>i. char_of (65 + i mod 26)) [0..<largeSize] in
      case ReadBulkString countBytes (bulkReader testData) 0 of
        (Inl err, _) \<Rightarrow> ''  '' @ badMark @ '' Failed to stream large data: '' @ perror_text err
      | (Inr _, _, totalRead) \<Rightarrow>
          (if totalRead = int largeSize then ''  '' @ okMark @ '' Successfully streamed '' @ FormatInt totalRead @ '' bytes in chunks''
           else ''  '' @ badMark @ '' Data size mismatch: expected '' @ FormatInt (int largeSize) @ '', got '' @ FormatInt totalRead))]"

definition fixesDemo :: "string list" where
  "fixesDemo = testMissingCRLF @ testInvalidCRLF @ testBufferBoundaries @ testLargeDataHandling"

lemma callbacks [simp]: "collect cs (Some c) = (None, cs @ [c])" "countBytes k (Some c) = (None, k + int (length c))"
  by (simp_all add: collect_def countBytes_def)

text \<open>A callback that only counts sees the chunks that \<open>collect\<close> keeps.\<close>

lemma readChunks_counts:
  "readChunks collect n r cs = (x, r', cs') \<Longrightarrow>
     readChunks countBytes n r k = (x, r', k + int (length (concat cs')) - int (length (concat cs)))"
proof (induction n arbitrary: r cs k rule: less_induct)
  case (less n)
  show ?case
  proof (cases "n = 0")
    case True
    with less.prems show ?thesis by (auto simp: readChunks.simps)
  next
    case False
    let ?toRead = "if n < chunkSize then n else chunkSize"
    obtain y r1 where read: "ReadFull ?toRead r = (y, r1)" by (cases "ReadFull ?toRead r")
    show ?thesis
    proof (cases y)
      case (Inl e)
      with less.prems read False show ?thesis
        by (cases e) (auto simp: readChunks.simps [of _ n] Let_def)
    next
      case (Inr c)
      then have "n - length c < n" using ReadFull_length [of ?toRead r c r1] read False by (auto simp: chunkSize_def)
      moreover have "readChunks collect (n - length c) r1 (cs @ [c]) = (x, r', cs')"
        using less.prems read Inr False by (simp add: readChunks.simps [of _ n] Let_def)
      ultimately show ?thesis
        using less.IH [of "n - length c" r1 "cs @ [c]" "k + int (length c)"] read Inr False
        by (simp add: readChunks.simps [of _ n] Let_def)
    qed
  qed
qed

lemma ReadBulkString_counts:
  assumes "int (length d) \<le> maxBulkSize"
  shows "ReadBulkString countBytes (bulkReader d) 0 = (Inr (), \<lparr>pending = [], endErr = EOF\<rparr>, int (length d))"
proof -
  obtain cs where "readChunks collect (length d) \<lparr>pending = d @ CRLF, endErr = EOF\<rparr> [] =
      (Inr (), \<lparr>pending = CRLF, endErr = EOF\<rparr>, [] @ cs)" "concat cs = d"
    using readChunks_collect [OF refl, of d CRLF EOF "[]"] by blast
  then have "readChunks countBytes (length d) \<lparr>pending = d @ CRLF, endErr = EOF\<rparr> 0 =
      (Inr (), \<lparr>pending = CRLF, endErr = EOF\<rparr>, int (length d))"
    using readChunks_counts [of "length d" _ "[]"] by simp
  moreover have "in_int64 (int (length d))" using assms by (simp add: in_int64_def int64_bounds)
  ultimately show ?thesis
    using readBulkHeader_wire [of "int (length d)" "d @ CRLF" EOF] expectCRLF_CRLF [of "[]" EOF] assms
    by (simp add: ReadBulkString_def readBulkData_def bulkReader_def)
qed

lemma ReadNext_bulk:
  assumes "int (length d) \<le> maxBulkSize"
  shows "fst (ReadNext (bulkReader d)) = Inr (BulkV d)"
proof -
  have "ReadNext \<lparr>pending = wire (BulkV d) @ [], endErr = EOF\<rparr> = (Inr (BulkV d), \<lparr>pending = [], endErr = EOF\<rparr>)"
    by (rule resp.roundtrip) (use assms in simp)
  then show ?thesis by (simp add: bulkReader_def)
qed

lemma missingCRLF_output:
  "testMissingCRLF = [''Testing protocol parsing with missing CRLF...'',
     ''  '' @ okMark @ '' Correctly caught CRLF error: missing CRLF terminator, got [75, 10] instead of [13, 10]'']"
  by code_simp

lemma invalidCRLF_output:
  "testInvalidCRLF = [''Testing protocol parsing with invalid CRLF...'',
     ''  '' @ okMark @ '' Correctly caught invalid CRLF: failed to read line: EOF'']"
  by code_simp

lemma bufferBoundaries_output:
  "testBufferBoundaries = [''Testing buffer boundary protection...'', ''  '' @ okMark @ '' Successfully handled 4096-byte buffer boundary'']"
proof -
  define d :: bytes where "d = map (\<lambda>i. char_of (i mod 256)) [0..<4096]"
  have "length d = 4096" unfolding d_def length_map length_upt by simp
  then show ?thesis using ReadNext_bulk [of d] unfolding testBufferBoundaries_def d_def [symmetric] by simp
qed

lemma largeDataHandling_output:
  "testLargeDataHandling = [''Testing large data handling with streaming...'', ''  '' @ okMark @ '' Successfully streamed 50000 bytes in chunks'']"
proof -
  define d :: bytes where "d = map (\<lambda>i. char_of (65 + i mod 26)) [0..<50000]"
  have "length d = 50000" unfolding d_def length_map length_upt by simp
  moreover have "FormatInt 50000 = ''50000''" by (simp add: FormatInt_def show_nat.simps digit_def)
  ultimately show ?thesis using ReadBulkString_counts [of d] unfolding testLargeDataHandling_def Let_def d_def [symmetric] by simp
qed

text \<open>All four checks of the program report success; the two malformed replies give different errors.\<close>

lemmas fixesDemo_output = fixesDemo_def [unfolded missingCRLF_output invalidCRLF_output bufferBoundaries_output largeDataHandling_output]

section \<open>Matching strategies\<close>

definition demoPatterns :: "string list" where
  "demoPatterns = [''user:*'', ''*:profile'', ''cache:*:data'', ''user:*:profile:*'', ''h?llo'']"

definition demoStrings :: "string list" where
  "demoStrings = [''user:123'', ''user:123:profile'', ''cache:session:data'', ''user:123:profile:settings'', ''hello'', ''nomatch'']"

definition demoStrategies :: "(string \<times> MatchingStrategy) list" where
  "demoStrategies = [(''Simple'', StrategySimple), (''Regex'', StrategyRegex), (''Automaton'', StrategyAutomaton), (''Glob'', StrategyGlob)]"

definition countChars :: "string \<Rightarrow> char \<Rightarrow> int" where
  "countChars s c = int (length (filter (\<lambda>x. x = c) s))"

definition containsChar :: "string \<Rightarrow> char \<Rightarrow> bool" where
  "containsChar s c \<longleftrightarrow> c \<in> set s"

text \<open>What a cell of the table shows; \<open>None\<close> is \<^verbatim>\<open>N/A\<close>.\<close>

definition tableCell :: "string \<Rightarrow> string \<Rightarrow> MatchingStrategy \<Rightarrow> bool option" where
  "tableCell pat str st =
     (if st = StrategySimple \<and> (countChars pat CHR ''*'' > 1 \<or> containsChar pat CHR ''?'') then None
      else Some (MatchPatternWithStrategy str pat st))"

definition strategyTable :: "(string \<times> string \<times> bool option list) list" where
  "strategyTable = concat (map (\<lambda>pat. map (\<lambda>str. (pat, str, map (\<lambda>(_, st). tableCell pat str st) demoStrategies)) demoStrings) demoPatterns)"

text \<open>The part on the package-wide strategy: the strategies printed, and the match found with the changed one.\<close>

definition matchPatternWrapper :: "MatchingConfig \<Rightarrow> string \<Rightarrow> string \<Rightarrow> bool" where
  "matchPatternWrapper cfg str pat = MatchPatternWithStrategy str pat (GetMatchingStrategy cfg)"

definition globalDemo :: "MatchingConfig \<Rightarrow> (MatchingStrategy list \<times> bool) \<times> MatchingConfig" where
  "globalDemo cfg =
     (let originalStrategy = GetMatchingStrategy cfg;
          changed = SetMatchingStrategy StrategyRegex cfg;
          found = matchPatternWrapper changed ''user:123:profile:settings'' ''user:*:profile:*'';
          restored = SetMatchingStrategy originalStrategy changed in
      (([originalStrategy, GetMatchingStrategy changed, GetMatchingStrategy restored], found), restored))"

definition redisKeys :: "string list" where
  "redisKeys = [''user:1001:session'', ''user:1002:profile'', ''cache:user:1001:data'', ''session:active:user:1001'', ''temp:cache:session:abc123'']"

definition redisPatterns :: "string list" where
  "redisPatterns = [''user:*'', ''*:profile'', ''cache:*:data'', ''session:*:user:*'']"

definition useCases :: "(string \<times> (string \<times> bool) list) list" where
  "useCases = map (\<lambda>pat. (pat, map (\<lambda>key. (key, MatchPatternWithStrategy key pat StrategySimple)) redisKeys)) redisPatterns"

text \<open>
  In every row of the table the strategies that apply agree, and what they say is the glob relation.
\<close>

lemma strategyTable_agrees:
  assumes "(pat, str, cells) \<in> set strategyTable"
  shows "\<exists>simple. cells = [simple, Some (globs pat str), Some (globs pat str), Some (globs pat str)] \<and>
    (simple = None \<or> simple = Some (globs pat str))"
proof -
  have row: "pat \<in> set demoPatterns" "str \<in> set demoStrings" "cells = map (\<lambda>(_, st). tableCell pat str st) demoStrategies"
    using assms by (auto simp: strategyTable_def)
  have "list_all (\<lambda>p. plain p \<and> isASCII p \<and> p \<noteq> ''*'') demoPatterns" "list_all (\<lambda>s. segment s \<and> LF \<notin> set s) demoStrings"
    by code_simp+
  then have ok: "plain pat" "isASCII pat" "pat \<noteq> ''*''" "segment str" "LF \<notin> set str" using row by (auto simp: list_all_iff)
  have "list_all (\<lambda>p. list_all (\<lambda>s. tableCell p s StrategySimple \<in> {None, Some (globs p s)}) demoStrings) demoPatterns"
    by code_simp
  then have "tableCell pat str StrategySimple \<in> {None, Some (globs pat str)}" using row by (auto simp: list_all_iff)
  moreover have "tableCell pat str st = Some (globs pat str)" if "st \<in> {StrategyGlob, StrategyRegex, StrategyAutomaton}" for st
    using strategies_decide [OF ok(1,2,4,5) that] ok(3) that by (auto simp: tableCell_def)
  ultimately show ?thesis by (auto simp: row(3) demoStrategies_def)
qed

lemma globalDemo_restores: "globalDemo cfg = (([strategy cfg, StrategyRegex, strategy cfg], True), cfg)"
proof -
  have "MatchPatternWithStrategy ''user:123:profile:settings'' ''user:*:profile:*'' StrategyRegex"
    by (subst strategies_decide) (code_simp+)
  then show ?thesis by (simp add: globalDemo_def SetMatchingStrategy_def GetMatchingStrategy_def matchPatternWrapper_def Let_def)
qed

text \<open>
  The simple strategy, which the program uses for its last pattern as well, finds no session: it knows one \<open>*\<close> only, and
  the last of several as the end of a prefix that contains the others.
\<close>

lemma useCases_output:
  "map (\<lambda>(pat, marks). (pat, map fst (filter snd marks))) useCases =
     [(''user:*'', [''user:1001:session'', ''user:1002:profile'']), (''*:profile'', [''user:1002:profile'']),
      (''cache:*:data'', [''cache:user:1001:data'']), (''session:*:user:*'', [])]"
  by code_simp

lemma useCases_miss: "globs ''session:*:user:*'' ''session:active:user:1001''"
  by code_simp

section \<open>Progress reports\<close>

text \<open>
  The aggregator of \<^verbatim>\<open>psync-demo\<close> is a copy of the library's with the size threshold written into the code; the clock
  gives the time at which chunk \<open>i\<close> is added and, after the last one, the time of the final report.
\<close>

definition demoChunks :: "int list" where
  "demoChunks = replicate 36 8192 @ [4620]"

fun addChunks :: "(nat \<Rightarrow> int) \<Rightarrow> nat \<Rightarrow> int list \<Rightarrow> rdbChunkAggregator \<Rightarrow> entry list \<times> rdbChunkAggregator" where
  "addChunks clock i [] agg = ([], agg)"
| "addChunks clock i (n # ns) agg =
     (case addChunk (clock i) n agg of (es, agg) \<Rightarrow> case addChunks clock (i + 1) ns agg of (es', agg) \<Rightarrow> (es @ es', agg))"

definition psyncDemo :: "(nat \<Rightarrow> int) \<Rightarrow> int \<Rightarrow> entry list" where
  "psyncDemo clock start =
     (case addChunks clock 0 demoChunks (newRDBChunkAggregator start) of (es, agg) \<Rightarrow> es @ aggLogFinal (clock 37) agg)"

text \<open>An entry without its times, and the entries a sequence of chunks leads to.\<close>

definition untimed :: "entry \<Rightarrow> string \<times> logvalue list" where
  "untimed e = (case e of (_, msg, fs) \<Rightarrow> (msg, take 4 fs))"

fun progressMarks :: "int \<Rightarrow> int \<Rightarrow> int list \<Rightarrow> (string \<times> logvalue list) list" where
  "progressMarks c t [] = []"
| "progressMarks c t (n # ns) =
     (if (c + 1) mod 10 = 0 \<or> (t + n) mod 50000 = 0
      then [(''RDB chunk progress'', [StringV ''chunks'', IntV (c + 1), StringV ''totalSize'', IntV (t + n)])] else []) @
     progressMarks (c + 1) (t + n) ns"

lemma addChunks_marks:
  assumes "0 \<le> chunkCount agg" "0 \<le> aggTotalSize agg" "list_all (\<lambda>n. 0 \<le> n) ns" "logThreshold agg = 10" "sizeThreshold agg = 50000"
  shows "map untimed (fst (addChunks clock i ns agg)) = progressMarks (chunkCount agg) (aggTotalSize agg) ns \<and>
    snd (addChunks clock i ns agg) = agg\<lparr>chunkCount := chunkCount agg + int (length ns), aggTotalSize := aggTotalSize agg + sum_list ns\<rparr>"
  using assms
proof (induction ns arbitrary: agg i)
  case (Cons n ns)
  obtain es agg' where step: "addChunk (clock i) n agg = (es, agg')" by (cases "addChunk (clock i) n agg")
  then have agg': "agg' = agg\<lparr>chunkCount := chunkCount agg + 1, aggTotalSize := aggTotalSize agg + n\<rparr>"
    by (auto simp: addChunk_def Let_def)
  have "map untimed es = (if (chunkCount agg + 1) mod 10 = 0 \<or> (aggTotalSize agg + n) mod 50000 = 0
      then [(''RDB chunk progress'', [StringV ''chunks'', IntV (chunkCount agg + 1), StringV ''totalSize'', IntV (aggTotalSize agg + n)])] else [])"
    using step Cons.prems by (auto simp: addChunk_def untimed_def smod_pos Let_def)
  with Cons.IH [of agg' "i + 1"] Cons.prems agg' step show ?case by (auto split: prod.split)
qed simp

text \<open>The four log entries the program announces, at any speed: three of ten chunks each and the final one.\<close>

lemma psyncDemo_entries:
  "map untimed (psyncDemo clock start) =
     map (\<lambda>n. (''RDB chunk progress'', [StringV ''chunks'', IntV n, StringV ''totalSize'', IntV (8192 * n)])) [10, 20, 30] @
     [(''RDB data reading completed'', [StringV ''totalSize'', IntV 299532, StringV ''chunks'', IntV 37])]"
proof -
  let ?agg = "newRDBChunkAggregator start"
  have "list_all (\<lambda>n. 0 \<le> n) demoChunks" "length demoChunks = 37" "sum_list demoChunks = 299532" by code_simp+
  moreover from this addChunks_marks [of ?agg demoChunks clock 0]
  have "map untimed (fst (addChunks clock 0 demoChunks ?agg)) = progressMarks 0 0 demoChunks"
      "snd (addChunks clock 0 demoChunks ?agg) = ?agg\<lparr>chunkCount := 37, aggTotalSize := 299532\<rparr>"
    by (simp_all add: newRDBChunkAggregator_def)
  moreover have "progressMarks 0 0 demoChunks =
      map (\<lambda>n. (''RDB chunk progress'', [StringV ''chunks'', IntV n, StringV ''totalSize'', IntV (8192 * n)])) [10, 20, 30]" by code_simp
  ultimately show ?thesis
    by (auto simp: psyncDemo_def aggLogFinal_def untimed_def case_prod_beta)
qed

text \<open>
  \<^verbatim>\<open>rdb-logging-demo\<close>: six keys with a report after every third. Its logger prints messages of the level Info and above; a pair
  is printed when it is complete.
\<close>

fun pairText :: "logvalue list \<Rightarrow> string" where
  "pairText (k # v # rest) = '' '' @ formatValue k @ ''='' @ formatValue v @ pairText rest"
| "pairText _ = []"

fun exampleLogger :: "entry \<Rightarrow> string list" where
  "exampleLogger (LevelDebug, msg, fs) = []"
| "exampleLogger (LevelInfo, msg, fs) = [''INFO: '' @ msg @ pairText fs]"
| "exampleLogger (LevelError, msg, fs) = [''ERROR: '' @ msg @ pairText fs]"

definition demoKeys :: "(int \<times> string) list" where
  "demoKeys = [(0, ''string''), (0, ''string''), (0, ''hash''), (1, ''list''), (1, ''string''), (0, ''string'')]"

text \<open>The program ends within the interval after which the library reports in any case, so the times do not matter for it.\<close>

definition rdbLoggingDemo :: "(int \<times> int \<times> string) list \<Rightarrow> int \<Rightarrow> string list" where
  "rdbLoggingDemo keys final =
     (case trackKeys id id keys ((newLoadTracker 0)\<lparr>tBatchSize := 3\<rparr>) of
        (es, t) \<Rightarrow> concat (map exampleLogger (es @ LogFinal id id final t)))"

text \<open>
  The program announces three aggregate lines. It prints five: a report has a line for every database seen so far.
\<close>

lemma rdbLoggingDemo_output:
  "rdbLoggingDemo (map (\<lambda>(db, ty). (Second, db, ty)) demoKeys) Second =
    [''INFO: RDB load progress db=0 keys=3 types=string:2,hash:1 total_processed=3 elapsed=1s rate=3 keys/s'',
     ''INFO: RDB load progress db=0 keys=4 types=string:3,hash:1 total_processed=6 elapsed=1s rate=6 keys/s'',
     ''INFO: RDB load progress db=1 keys=2 types=list:1,string:1 total_processed=6 elapsed=1s rate=6 keys/s'',
     ''INFO: RDB load progress db=0 keys=4 types=string:3,hash:1 total_processed=6 elapsed=1s rate=6 keys/s'',
     ''INFO: RDB load progress db=1 keys=2 types=list:1,string:1 total_processed=6 elapsed=1s rate=6 keys/s'']"
  by code_simp

end
