(* ===== verification/Demo_Cluster.thy ===== *)
theory Demo_Cluster
  imports Reporting Transitions
begin

text \<open>
  The example program \<^verbatim>\<open>src/examples/cluster\<close>: a manager of several replicas that starts them in parallel and collects their
  errors. The map of the manager is an association list; the symbols in front of the printed lines are left out. The
  goroutines of \<^verbatim>\<open>StartAll\<close> and their channel are a step relation. Shown: \<^verbatim>\<open>StartAll\<close> returns under every
  schedule, no goroutine blocks on the channel, and it returns no error exactly when every replica was started and
  synchronised; \<^verbatim>\<open>StopAll\<close> closes every replica.
\<close>

section \<open>The manager\<close>

type_synonym replicaManager = "(string \<times> replica) list"

definition NewReplicaManager :: replicaManager where
  "NewReplicaManager = []"

text \<open>The callback that reports the end of the synchronisation has the number \<open>fn\<close>.\<close>

definition AddReplica ::
  "(string \<Rightarrow> string) \<Rightarrow> reader \<Rightarrow> writer \<Rightarrow> nat \<Rightarrow> string \<Rightarrow> string \<Rightarrow> string \<Rightarrow> replicaManager \<Rightarrow> (goerror option \<times> replicaManager) option"
where
  "AddReplica U r w fn name master addr rm =
     (case New U r w [WithMaster master, WithReplicaAddr addr, WithSyncTimeout (30 * Second)] of
        None \<Rightarrow> None
      | Some (Inl e) \<Rightarrow> Some (Some (Wrapped (''failed to create replica '' @ name @ '': '') (replicaGoError e)), rm)
      | Some (Inr rep) \<Rightarrow> Some (None, AList.update name (replicaOnSyncComplete fn rep) rm))"

definition GetReplica :: "string \<Rightarrow> replicaManager \<Rightarrow> replica option" where
  "GetReplica name rm = map_of rm name"

text \<open>Errors of single replicas are logged; \<^verbatim>\<open>StopAll\<close> itself returns none. \<open>None\<close> is a panic.\<close>

fun StopAll :: "(string \<Rightarrow> memstore node \<Rightarrow> bool) \<Rightarrow> replicaManager \<Rightarrow> replicaManager option" where
  "StopAll ends [] = Some []"
| "StopAll ends ((name, rep) # rm) =
     (case replicaClose (ends name) rep of
        None \<Rightarrow> None
      | Some (_, rep') \<Rightarrow> map_option (\<lambda>rm'. (name, rep') # rm') (StopAll ends rm))"

definition statusLines :: "string \<Rightarrow> string \<Rightarrow> string \<times> replica \<Rightarrow> string list option" where
  "statusLines commit buildTime x =
     (case x of (name, rep) \<Rightarrow>
        (let status = replicaSyncStatus rep in
         map_option (\<lambda>info.
            [''Replica: '' @ name, ''   Master: '' @ ssMasterHost status,
             ''   Connected: '' @ formatValue (BoolV (ssConnected status)),
             ''   Synced: '' @ formatValue (BoolV (ssInitialSyncCompleted status)),
             ''   Offset: '' @ FormatInt (ssReplicationOffset status),
             ''   Commands: '' @ FormatInt (ssCommandsProcessed status),
             ''   Keys: '' @ FormatInt (infoKeys (riStore info)),
             ''   Memory: '' @ FormatInt (infoMemoryUsage (riStore info)) @ '' bytes'']) (GetInfo commit buildTime rep)))"

section \<open>Starting in parallel\<close>

text \<open>
  A goroutine starts its replica, waits for the synchronisation and sends at most one error. \<open>Sending\<close> is a
  goroutine about to send.
\<close>

datatype worker = Starting | Waiting | Sending goerror | Done

record startAll =
  members :: "(string \<times> replica \<times> worker) list"
  errChan :: "goerror list"
  errCap :: nat
  returned :: "goerror option option"

definition startAllInit :: "replicaManager \<Rightarrow> startAll" where
  "startAllInit rm = \<lparr>members = map (\<lambda>(name, rep). (name, rep, Starting)) rm, errChan = [], errCap = length rm, returned = None\<rparr>"

definition setMember :: "nat \<Rightarrow> replica \<Rightarrow> worker \<Rightarrow> startAll \<Rightarrow> startAll" where
  "setMember i rep wk s = s\<lparr>members := (members s)[i := (fst (members s ! i), rep, wk)]\<rparr>"

fun firstError :: "goerror list \<Rightarrow> goerror option" where
  "firstError [] = None"
| "firstError (e # _) = Some e"

text \<open>
  The context of the program has a deadline, so a goroutine that waits is released by the end of the synchronisation
  or by the context. The main goroutine returns the first error of the closed channel.
\<close>

inductive start_step :: "startAll \<Rightarrow> startAll \<Rightarrow> bool" where
  starts: "i < length (members s) \<Longrightarrow> members s ! i = (name, rep, Starting) \<Longrightarrow> replicaStart listenErr rep = (None, rep') \<Longrightarrow>
    start_step s (setMember i rep' Waiting s)"
| start_fails: "i < length (members s) \<Longrightarrow> members s ! i = (name, rep, Starting) \<Longrightarrow> replicaStart listenErr rep = (Some e, rep') \<Longrightarrow>
    start_step s (setMember i rep' (Sending (Wrapped (''failed to start replica '' @ name @ '': '') (replicaGoError e))) s)"
| cannot_wait: "i < length (members s) \<Longrightarrow> members s ! i = (name, rep, Waiting) \<Longrightarrow> replicaWaitForSync rep = Some e \<Longrightarrow>
    start_step s (setMember i rep (Sending (Wrapped (''failed to sync replica '' @ name @ '': '') (replicaGoError e))) s)"
| synchronised: "i < length (members s) \<Longrightarrow> members s ! i = (name, rep, Waiting) \<Longrightarrow> replicaWaitForSync rep = None \<Longrightarrow>
    start_step s (setMember i (replicaSyncCompleted rep) Done s)"
| context_ends: "i < length (members s) \<Longrightarrow> members s ! i = (name, rep, Waiting) \<Longrightarrow> replicaWaitForSync rep = None \<Longrightarrow>
    start_step s (setMember i rep (Sending (Wrapped (''failed to sync replica '' @ name @ '': '') (OtherError ctxErr))) s)"
| sends: "i < length (members s) \<Longrightarrow> members s ! i = (name, rep, Sending e) \<Longrightarrow> length (errChan s) < errCap s \<Longrightarrow>
    start_step s ((setMember i rep Done s)\<lparr>errChan := errChan s @ [e]\<rparr>)"
| returns: "\<forall>x \<in> set (members s). snd (snd x) = Done \<Longrightarrow> returned s = None \<Longrightarrow>
    start_step s (s\<lparr>returned := Some (firstError (errChan s))\<rparr>)"

fun workerRank :: "worker \<Rightarrow> int" where
  "workerRank Starting = 3"
| "workerRank Waiting = 2"
| "workerRank (Sending e) = 1"
| "workerRank Done = 0"

definition startRank :: "startAll \<Rightarrow> int" where
  "startRank s = sum_list (map (\<lambda>x. workerRank (snd (snd x))) (members s)) + (if returned s = None then 1 else 0)"

text \<open>Members that have not yet used their place in the channel.\<close>

definition pendingMembers :: "startAll \<Rightarrow> int" where
  "pendingMembers s = sum_list (map (\<lambda>x. of_bool (snd (snd x) \<noteq> Done)) (members s))"

text \<open>A goroutine that waits has started its replica, and one that ends without an error has seen it synchronised.\<close>

fun memberOK :: "string \<times> replica \<times> worker \<Rightarrow> bool" where
  "memberOK (name, rep, Waiting) \<longleftrightarrow> rStarted rep"
| "memberOK (name, rep, Done) \<longleftrightarrow> rStarted rep \<and> initialSyncDone (rManager rep)"
| "memberOK (name, rep, _) \<longleftrightarrow> True"

definition startInv :: "startAll \<Rightarrow> bool" where
  "startInv s \<longleftrightarrow> int (length (errChan s)) + pendingMembers s \<le> int (errCap s) \<and>
     (errChan s = [] \<longrightarrow> list_all memberOK (members s)) \<and>
     (\<forall>res. returned s = Some res \<longrightarrow> (\<forall>x \<in> set (members s). snd (snd x) = Done) \<and> res = firstError (errChan s))"

lemma sum_list_change: "i < length xs \<Longrightarrow> sum_list (map f (xs[i := y])) = sum_list (map f xs) - f (xs ! i) + f y" for f :: "'a \<Rightarrow> int"
  by (induction xs arbitrary: i) (auto split: nat.split)

lemma setMember_counts:
  assumes "i < length (members s)"
  shows "pendingMembers (setMember i rep wk s) = pendingMembers s - of_bool (snd (snd (members s ! i)) \<noteq> Done) + of_bool (wk \<noteq> Done)"
    and "startRank (setMember i rep wk s) = startRank s - workerRank (snd (snd (members s ! i))) + workerRank wk"
  using assms by (simp_all add: pendingMembers_def startRank_def setMember_def sum_list_change)

lemma setMember_names: "i < length (members s) \<Longrightarrow> map fst (members (setMember i rep wk s)) = map fst (members s)"
  by (rule nth_equalityI) (auto simp: setMember_def nth_list_update)

lemma setMember_other [simp]:
  "errChan (setMember i rep wk s) = errChan s" "errCap (setMember i rep wk s) = errCap s" "returned (setMember i rep wk s) = returned s"
  "pendingMembers (s\<lparr>errChan := es\<rparr>) = pendingMembers s" "startRank (s\<lparr>errChan := es\<rparr>) = startRank s"
  by (simp_all add: setMember_def pendingMembers_def startRank_def)

lemma replicaStart_started: "replicaStart listenErr rep = (None, rep') \<Longrightarrow> rStarted rep'"
  by (auto simp: replicaStart_def Let_def split: if_splits option.splits)

lemma setMember_ok:
  assumes "list_all memberOK (members s)" "i < length (members s)" "memberOK (fst (members s ! i), rep, wk)"
  shows "list_all memberOK (members (setMember i rep wk s))"
  using assms by (auto simp: setMember_def list_all_iff dest!: set_update_subset_insert [THEN subsetD])

lemma setMember_running: "startInv s \<Longrightarrow> i < length (members s) \<Longrightarrow> snd (snd (members s ! i)) \<noteq> Done \<Longrightarrow> returned s = None"
  by (cases "returned s") (auto simp: startInv_def)

lemma start_step_keeps:
  assumes "startInv s" "start_step s s'"
  shows "startInv s' \<and> startRank s' < startRank s"
  using assms(2)
proof cases
  case (starts i name rep listenErr rep')
  with assms(1) replicaStart_started [OF starts(4)] setMember_running [OF assms(1) starts(2)] show ?thesis
    by (auto simp: startInv_def setMember_counts intro: setMember_ok)
next
  case (synchronised i name rep)
  with assms(1) setMember_running [OF assms(1) synchronised(2)] show ?thesis
    by (auto simp: startInv_def setMember_counts replicaWaitForSync_def isStarted_def replicaSyncCompleted_def intro!: setMember_ok
        split: if_splits)
next
  case (sends i name rep e)
  with assms(1) setMember_running [OF assms(1) sends(2)] show ?thesis
    by (auto simp: startInv_def setMember_counts)
next
  case returns
  with assms(1) show ?thesis by (auto simp: startInv_def startRank_def pendingMembers_def)
next
  case (start_fails i name rep listenErr e rep')
  with assms(1) setMember_running [OF assms(1) start_fails(2)] show ?thesis
    by (auto simp: startInv_def setMember_counts intro: setMember_ok)
next
  case (cannot_wait i name rep e)
  with assms(1) setMember_running [OF assms(1) cannot_wait(2)] show ?thesis
    by (auto simp: startInv_def setMember_counts intro: setMember_ok)
next
  case (context_ends i name rep ctxErr)
  with assms(1) setMember_running [OF assms(1) context_ends(2)] show ?thesis
    by (auto simp: startInv_def setMember_counts intro: setMember_ok)
qed

lemma pendingMembers_nonneg: "0 \<le> pendingMembers s"
  by (auto simp: pendingMembers_def intro!: sum_list_nonneg)

lemma workerRank_nonneg: "0 \<le> workerRank wk"
  by (cases wk) simp_all

lemma startRank_nonneg: "0 \<le> startRank s"
  by (auto simp: startRank_def intro!: add_nonneg_nonneg sum_list_nonneg workerRank_nonneg)

lemma start_progress:
  assumes "startInv s" "returned s = None"
  shows "\<exists>s'. start_step s s'"
proof (cases "\<forall>x \<in> set (members s). snd (snd x) = Done")
  case True
  then show ?thesis using start_step.returns assms(2) by blast
next
  case False
  then obtain i where i: "i < length (members s)" "snd (snd (members s ! i)) \<noteq> Done" by (auto simp: in_set_conv_nth)
  obtain name rep wk where m: "members s ! i = (name, rep, wk)" by (cases "members s ! i")
  show ?thesis
  proof (cases wk)
    case Starting
    obtain e rep' where "replicaStart None rep = (e, rep')" by (cases "replicaStart None rep")
    then show ?thesis using start_step.starts start_step.start_fails i(1) m Starting by (cases e) blast+
  next
    case Waiting
    then show ?thesis using start_step.cannot_wait start_step.synchronised i(1) m by (cases "replicaWaitForSync rep") blast+
  next
    case (Sending e)
    have "1 \<le> pendingMembers s"
      using setMember_counts(1) [OF i(1), of rep Done] i(2) pendingMembers_nonneg [of "setMember i rep Done s"] by simp
    then have "length (errChan s) < errCap s" using assms(1) by (simp add: startInv_def)
    with start_step.sends i(1) m Sending show ?thesis by blast
  qed (use i m in simp)
qed

interpretation starting: winding_down start_step start_step startInv "\<lambda>s. returned s \<noteq> None" startRank
  by unfold_locales (use start_step_keeps startRank_nonneg start_progress in auto)

lemma startInv_init: "startInv (startAllInit rm)" and startRank_init: "startRank (startAllInit rm) = 3 * int (length rm) + 1"
proof -
  have "pendingMembers (startAllInit rm) = int (length rm)" "startRank (startAllInit rm) = 3 * int (length rm) + 1"
    by (induction rm) (auto simp: pendingMembers_def startRank_def startAllInit_def)
  then show "startInv (startAllInit rm)" "startRank (startAllInit rm) = 3 * int (length rm) + 1"
    by (auto simp: startInv_def startAllInit_def list_all_iff)
qed

lemma members_names: "(start_step ^^ n) s s' \<Longrightarrow> map fst (members s') = map fst (members s)"
proof (induction n arbitrary: s')
  case (Suc n)
  then obtain t where "(start_step ^^ n) s t" "start_step t s'" by auto
  moreover have "map fst (members t') = map fst (members t)" if "start_step t t'" for t'
    using that by cases (simp_all add: setMember_names)
  ultimately show ?case using Suc.IH by metis
qed simp

text \<open>
  \<^verbatim>\<open>StartAll\<close> under every schedule: it takes at most three steps of each goroutine and one of its own, it is never stuck
  before it has returned (the channel has room for every error), and when it returns no error every replica has been
  started and synchronised.
\<close>

theorem StartAll_returns:
  assumes "(start_step ^^ n) (startAllInit rm) s"
  shows "n \<le> 3 * length rm + 1" and "returned s \<noteq> None \<or> (\<exists>s'. start_step s s')" and "map fst (members s) = map fst rm"
    and "returned s = Some None \<Longrightarrow> \<forall>(name, rep, wk) \<in> set (members s). rStarted rep \<and> initialSyncDone (rManager rep)"
    and "returned s = Some (Some e) \<Longrightarrow> e \<in> set (errChan s)"
proof -
  show "n \<le> 3 * length rm + 1" using starting.run_bounded [OF assms startInv_init] startRank_init [of rm] by linarith
  show "returned s \<noteq> None \<or> (\<exists>s'. start_step s s')" using starting.never_stuck [OF assms startInv_init] by blast
  show "map fst (members s) = map fst rm" using members_names [OF assms] by (simp add: startAllInit_def case_prod_beta)
  have inv: "startInv s" using starting.run_rank [OF assms startInv_init] by blast
  have firsts: "firstError es = None \<longleftrightarrow> es = []" "firstError es = Some e \<Longrightarrow> e \<in> set es" for es by (cases es; simp)+
  show "e \<in> set (errChan s)" if "returned s = Some (Some e)" using that inv firsts(2) by (simp add: startInv_def)
  show "\<forall>(name, rep, wk) \<in> set (members s). rStarted rep \<and> initialSyncDone (rManager rep)" if ret: "returned s = Some None"
  proof clarify
    fix name rep wk assume "(name, rep, wk) \<in> set (members s)"
    moreover have "errChan s = []" using ret inv firsts(1) [of "errChan s"] by (simp add: startInv_def)
    ultimately have "memberOK (name, rep, wk)" "wk = Done" using ret inv by (auto simp: startInv_def list_all_iff)
    then show "rStarted rep \<and> initialSyncDone (rManager rep)" by simp
  qed
qed

section \<open>Adding and stopping\<close>

lemma AddReplica_accepts:
  assumes "master \<noteq> []"
  shows "\<exists>rep rm'. AddReplica U r w fn name master addr rm = Some (None, rm') \<and> GetReplica name rm' = Some rep \<and> lives rep \<and>
    cfgMasterAddr (rConfig rep) = master \<and> (\<forall>other. other \<noteq> name \<longrightarrow> GetReplica other rm' = GetReplica other rm)"
proof -
  let ?opts = "[WithMaster master, WithReplicaAddr addr, WithSyncTimeout (30 * Second)]"
  let ?cfg = "defaultConfig\<lparr>cfgMasterAddr := master, cfgReplicaAddr := addr, cfgSyncTimeout := 30 * Second\<rparr>"
  have "list_all exported ?opts" by (simp add: exported.intros)
  moreover have "applyOptions ?opts defaultConfig = Inr ?cfg" using assms by (simp add: option_defs Second_def Millisecond_def)
  ultimately obtain s where new: "New U r w ?opts = Some (Inr (build U r w ?cfg s))"
    using New_cases [of ?opts ?cfg] by (force simp: defaultConfig_def)
  let ?rep = "replicaOnSyncComplete fn (build U r w ?cfg s)"
  have "lives ?rep" using lives.register [OF lives.new [OF new]] .
  moreover have "AddReplica U r w fn name master addr rm = Some (None, AList.update name ?rep rm)" using new by (simp add: AddReplica_def)
  ultimately show ?thesis
    by (intro exI [of _ ?rep] exI [of _ "AList.update name ?rep rm"]) (simp add: GetReplica_def update_conv' replicaOnSyncComplete_def)
qed

text \<open>The program of the example adds its three replicas.\<close>

lemma AddReplica_refuses: "AddReplica U r w fn name [] addr rm =
    Some (Some (Wrapped (''failed to create replica '' @ name @ '': '') (ConnectionErrorV [] (Some (PkgError PkgInvalidConfig)))), rm)"
  by (simp add: AddReplica_def New_def option_defs)

lemma StopAll_closes:
  "list_all (\<lambda>(name, rep). lives rep) rm \<Longrightarrow>
     \<exists>rm'. StopAll ends rm = Some rm' \<and> map fst rm' = map fst rm \<and> list_all (\<lambda>(name, rep). rClosed rep) rm'"
proof (induction rm)
  case (Cons x rm)
  obtain name rep where x: "x = (name, rep)" by (cases x)
  obtain e rep' where "replicaClose (ends name) rep = Some (e, rep')" "rClosed rep'"
    using replicaClose_total [of rep "ends name"] Cons.prems x by auto
  with Cons x show ?case by auto
qed simp

end
