(* ===== verification/Demo_Reading.thy ===== *)
theory Demo_Reading
  imports Demo_Cluster
begin

text \<open>
  The example programs that configure a replica and read its store directly: \<^verbatim>\<open>src/examples/basic\<close>,
  \<^verbatim>\<open>database-filtering\<close>, \<^verbatim>\<open>timeout-demo\<close>, and the last part of \<^verbatim>\<open>cluster\<close>. A program is the lines it prints, without headings
  and symbols. Shown: the configurations are accepted and reach the components; the programs print exactly the
  live values of the keys they ask for, and the report per database counts its live keys.
\<close>

section \<open>Configurations\<close>

definition getEnvOrDefault :: "(string \<Rightarrow> string) \<Rightarrow> string \<Rightarrow> string \<Rightarrow> string" where
  "getEnvOrDefault env key defaultValue = (if env key \<noteq> [] then env key else defaultValue)"

definition basicOptions :: "roption list" where
  "basicOptions = [WithMaster ''localhost:6379'', WithReplicaAddr '':6380'', WithSyncTimeout (30 * Second)]"

definition filteringOptions :: "(string \<Rightarrow> string) \<Rightarrow> roption list" where
  "filteringOptions env =
     [WithMaster (getEnvOrDefault env ''REDIS_MASTER_ADDR'' ''localhost:6379''), WithMasterAuth (env ''REDIS_MASTER_AUTH''),
      WithReplicaAddr (getEnvOrDefault env ''REDIS_REPLICA_ADDR'' '':6380''), WithReplicaAuth (env ''REDIS_REPLICA_AUTH''),
      WithDatabases [0, 1, 2], WithSyncTimeout (30 * Second)]"

definition timeoutOptions :: "roption list" where
  "timeoutOptions = [WithMaster ''localhost:6379'', WithSyncTimeout (30 * Second), WithReadTimeout (30 * Second),
     WithWriteTimeout (10 * Second), WithHeartbeatInterval (30 * Second)]"

lemma getEnvOrDefault_set: "defaultValue \<noteq> [] \<Longrightarrow> getEnvOrDefault env key defaultValue \<noteq> []"
  by (simp add: getEnvOrDefault_def)

text \<open>A replica made from accepted options, as far as the programs use it.\<close>

lemma accepted:
  assumes "list_all exported opts" and "applyOptions opts defaultConfig = Inr cfg" and "cfgShardCount cfg = 0"
  shows "\<exists>rep. New U r w opts = Some (Inr rep) \<and> lives rep \<and> rConfig rep = cfg \<and> store_inv H (rStore rep) \<and>
    readTimeout (smNode (rManager rep)) = cfgReadTimeout cfg \<and> writeTimeout (smNode (rManager rep)) = cfgWriteTimeout cfg \<and>
    cDatabases (nClient (smNode (rManager rep))) = remdups (cfgDatabases cfg)"
proof -
  obtain s where s: "New U r w opts = Some (Inr (build U r w cfg s))" "store_inv H s"
    using New_cases [OF assms(1,2), of U r w H] assms(3) by auto
  from s(1) have "lives (build U r w cfg s)" by (rule lives.new)
  with s show ?thesis by (intro exI [of _ "build U r w cfg s"]) (simp add: build_node)
qed

lemma filtering_replica:
  "\<exists>rep. New U r w (filteringOptions env) = Some (Inr rep) \<and> lives rep \<and> store_inv H (rStore rep) \<and>
     cDatabases (nClient (smNode (rManager rep))) = [0, 1, 2]"
proof -
  let ?opts = "filteringOptions env"
  obtain cfg where "applyOptions ?opts defaultConfig = Inr cfg" "cfgShardCount cfg = 0" "cfgDatabases cfg = [0, 1, 2]"
    by (simp add: filteringOptions_def option_defs getEnvOrDefault_set Second_def Millisecond_def defaultConfig_def)
  moreover have "list_all exported ?opts" by (simp add: filteringOptions_def exported.intros)
  ultimately show ?thesis using accepted [of ?opts cfg U r w H] by auto
qed

lemma timeout_replica:
  "\<exists>rep. New U r w timeoutOptions = Some (Inr rep) \<and> lives rep \<and> rServer rep = None \<and>
     readTimeout (smNode (rManager rep)) = 30 * Second \<and> writeTimeout (smNode (rManager rep)) = 10 * Second"
proof -
  obtain cfg where cfg: "applyOptions timeoutOptions defaultConfig = Inr cfg" "cfgShardCount cfg = 0" "cfgReplicaAddr cfg = []"
      "cfgReadTimeout cfg = 30 * Second" "cfgWriteTimeout cfg = 10 * Second"
    by (simp add: timeoutOptions_def option_defs Second_def Millisecond_def defaultConfig_def)
  have "list_all exported timeoutOptions" by (simp add: timeoutOptions_def exported.intros)
  from New_cases [OF this cfg(1), of U r w] cfg(2) obtain s where s: "New U r w timeoutOptions = Some (Inr (build U r w cfg s))" by auto
  with lives.new [OF s] cfg show ?thesis
    by (intro exI [of _ "build U r w cfg s"]) (simp add: build_node newServer_def)
qed

section \<open>Reading the store\<close>

text \<open>A line for every key that has a value.\<close>

fun showKeys :: "hash \<Rightarrow> int \<Rightarrow> string \<Rightarrow> string list \<Rightarrow> memstore \<Rightarrow> (string list \<times> memstore) option" where
  "showKeys H now indent [] s = Some ([], s)"
| "showKeys H now indent (key # ks) s =
     (case Get H now key s of
        None \<Rightarrow> None
      | Some (v, s) \<Rightarrow>
          (case showKeys H now indent ks s of
             None \<Rightarrow> None
           | Some (ls, s) \<Rightarrow> Some ((case v of None \<Rightarrow> [] | Some d \<Rightarrow> [indent @ key @ '' = '' @ d]) @ ls, s)))"

text \<open>\<^verbatim>\<open>%v\<close> of a slice of strings.\<close>

definition sliceText :: "string list \<Rightarrow> string" where
  "sliceText ks = ''['' @ joinStrings '' '' ks @ '']''"

definition demonstrateStorageAccess ::
  "hash \<Rightarrow> MatchingConfig \<Rightarrow> (nat \<Rightarrow> string order) \<Rightarrow> int \<Rightarrow> memstore \<Rightarrow> (string list \<times> memstore) option"
where
  "demonstrateStorageAccess H cfg ord now s =
     (case showKeys H now ''   '' [''test:key'', ''counter'', ''user:1'', ''config:app''] s of
        None \<Rightarrow> None
      | Some (ls, s) \<Rightarrow>
          map_option (\<lambda>allKeys.
            (ls @ (if allKeys \<noteq> [] then [''   All keys ('' @ FormatInt (int (length allKeys)) @ ''): '' @ sliceText allKeys]
                   else [''   No keys found in replica'']), s))
          (Keys cfg ord now ''*'' s))"

definition replicaReading ::
  "hash \<Rightarrow> MatchingConfig \<Rightarrow> (nat \<Rightarrow> string order) \<Rightarrow> int \<Rightarrow> memstore \<Rightarrow> (string list \<times> memstore) option"
where
  "replicaReading H cfg ord now s =
     (case showKeys H now ''   '' [''user:1'', ''config:app'', ''counter''] s of
        None \<Rightarrow> None
      | Some (ls, s) \<Rightarrow>
          map_option (\<lambda>allKeys.
            (ls @ (if allKeys \<noteq> [] then [''   All keys: '' @ sliceText allKeys] else [''   No keys found'']), s))
          (Keys cfg ord now ''*'' s))"

fun demonstrateCrossReplicaOperations ::
  "hash \<Rightarrow> MatchingConfig \<Rightarrow> (nat \<Rightarrow> string order) \<Rightarrow> int \<Rightarrow> string list \<Rightarrow> replicaManager \<Rightarrow> (string list \<times> replicaManager) option"
where
  "demonstrateCrossReplicaOperations H cfg ord now [] rm = Some ([], rm)"
| "demonstrateCrossReplicaOperations H cfg ord now (name # names) rm =
     (case GetReplica name rm of
        None \<Rightarrow> demonstrateCrossReplicaOperations H cfg ord now names rm
      | Some rep \<Rightarrow>
          (case replicaReading H cfg ord now (replicaStorage rep) of
             None \<Rightarrow> None
           | Some (ls, s) \<Rightarrow>
               map_option (\<lambda>(ls', rm). ((''Checking '' @ name @ '' replica:'') # ls @ ls', rm))
                 (demonstrateCrossReplicaOperations H cfg ord now names (AList.update name (rep\<lparr>rStore := s\<rparr>) rm))))"

text \<open>
  The loop of \<^verbatim>\<open>database-filtering\<close> over the databases; the error of \<^verbatim>\<open>SelectDB\<close> is ignored.
\<close>

definition databaseLines ::
  "hash \<Rightarrow> MatchingConfig \<Rightarrow> (nat \<Rightarrow> string order) \<Rightarrow> int \<Rightarrow> int \<Rightarrow> memstore \<Rightarrow> (string list \<times> memstore) option"
where
  "databaseLines H cfg ord now db s =
     (case SelectDB db s of
        None \<Rightarrow> None
      | Some (_, s) \<Rightarrow>
          (case Keys cfg ord now ''*'' s of
             None \<Rightarrow> None
           | Some ks \<Rightarrow>
               (if ks \<noteq> [] then
                  map_option (apfst (\<lambda>ls. (''   Database '' @ FormatInt db @ '': '' @ FormatInt (int (length ks)) @ '' keys found'') # ls))
                    (showKeys H now ''     '' (take (min (length ks) 3) ks) s)
                else Some ([''   Database '' @ FormatInt db @ '': No keys'' @
                    (if db < 3 then '' (replicated but empty)'' else '' (not replicated)'')], s))))"

fun databaseReport ::
  "hash \<Rightarrow> MatchingConfig \<Rightarrow> (nat \<Rightarrow> string order) \<Rightarrow> int \<Rightarrow> int list \<Rightarrow> memstore \<Rightarrow> (string list \<times> memstore) option"
where
  "databaseReport H cfg ord now [] s = Some ([], s)"
| "databaseReport H cfg ord now (db # dbs) s =
     (case databaseLines H cfg ord now db s of
        None \<Rightarrow> None
      | Some (ls, s) \<Rightarrow> map_option (apfst (\<lambda>ls'. ls @ ls')) (databaseReport H cfg ord now dbs s))"

section \<open>What is printed\<close>

definition valueLine :: "int \<Rightarrow> memstore \<Rightarrow> string \<Rightarrow> string \<Rightarrow> string list" where
  "valueLine now s indent key =
     (case Option.bind (live now s (currentDB s) key) stringData of None \<Rightarrow> [] | Some d \<Rightarrow> [indent @ key @ '' = '' @ d])"

lemma showKeys_spec:
  "store_inv H s \<Longrightarrow> \<exists>s'. showKeys H now indent ks s = Some (concat (map (valueLine now s indent) ks), s') \<and>
     store_inv H s' \<and> same_setup s s' \<and> live now s' = live now s"
proof (induction ks arbitrary: s)
  case Nil
  then show ?case by (simp add: same_setup_def)
next
  case (Cons key ks)
  obtain s1 where s1: "Get H now key s = Some (Option.bind (live now s (currentDB s) key) stringData, s1)" "store_inv H s1"
      "same_setup s s1" "live now s1 = live now s" using Get_spec [OF Cons.prems] by blast
  have "valueLine now s1 = valueLine now s" using s1(3,4) by (auto simp: valueLine_def same_setup_def fun_eq_iff)
  with Cons.IH [OF s1(2)] s1 show ?case by (auto simp: valueLine_def same_setup_def)
qed

text \<open>
  The report on one database: the number of its live keys and values of up to three of them, or that there are none; nothing
  that a reader can see of any database changes.
\<close>

theorem databaseLines_spec:
  assumes "store_inv H s" and "0 \<le> db" and "db \<le> 15"
  shows "\<exists>ls s' ks. databaseLines H cfg ord now db s = Some (ls, s') \<and> store_inv H s' \<and> currentDB s' = db \<and>
    live now s' = live now s \<and> distinct ks \<and> set ks = dom (live now s db) \<and>
    (if ks = [] then length ls = 1 else hd ls = ''   Database '' @ FormatInt db @ '': '' @ FormatInt (int (length ks)) @ '' keys found'' \<and>
      tl ls = concat (map (valueLine now (s\<lparr>currentDB := db\<rparr>) ''     '') (take 3 ks)))"
proof -
  obtain s1 where s1: "SelectDB db s = Some (Inr (), s1)" "store_inv H s1" "currentDB s1 = db" "contents s1 = contents s"
    using SelectDB_spec [OF assms] by blast
  then have live1: "live now s1 = live now s" by (simp add: live_def fun_eq_iff)
  obtain ks where ks: "Keys cfg ord now ''*'' s1 = Some ks" "distinct ks" "set ks = dom (live now s db)"
    using Keys_spec [OF s1(2), of cfg ord now "''*''"] s1(3) live1 by (auto simp: wanted_def)
  obtain s2 where s2: "showKeys H now ''     '' (take (min (length ks) 3) ks) s1 =
      Some (concat (map (valueLine now s1 ''     '') (take (min (length ks) 3) ks)), s2)" "store_inv H s2" "live now s2 = live now s1"
      "same_setup s1 s2"
    using showKeys_spec [OF s1(2)] by blast
  from s2(4) s1(3) have db: "currentDB s2 = db" by (simp add: same_setup_def)
  have "live now (s\<lparr>currentDB := db\<rparr>) = live now s1"
    using live1 by (simp add: live_def contents_def fun_eq_iff)
  then have "valueLine now s1 = valueLine now (s\<lparr>currentDB := db\<rparr>)"
    using s1(3) by (simp add: valueLine_def fun_eq_iff)
  then show ?thesis using s1 ks s2(1-3) db live1
    by (intro exI [of _ "fst (the (databaseLines H cfg ord now db s))"] exI [of _ "snd (the (databaseLines H cfg ord now db s))"] exI [of _ ks])
      (auto simp: databaseLines_def min_def)
qed

lemma databaseReport_spec:
  assumes "store_inv H s" and "list_all (\<lambda>db. 0 \<le> db \<and> db \<le> 15) dbs"
  shows "\<exists>ls s'. databaseReport H cfg ord now dbs s = Some (ls, s') \<and> store_inv H s' \<and> live now s' = live now s \<and>
    (dbs \<noteq> [] \<longrightarrow> currentDB s' = last dbs)"
  using assms
proof (induction dbs arbitrary: s)
  case (Cons db dbs)
  then obtain ls s1 where s1: "databaseLines H cfg ord now db s = Some (ls, s1)" "store_inv H s1" "currentDB s1 = db" "live now s1 = live now s"
    using databaseLines_spec [OF Cons.prems(1), of db cfg ord now] by auto
  with Cons.IH [OF s1(2)] Cons.prems(2) show ?case by (auto split: if_splits)
qed simp

text \<open>
  The report of the program ends with database 3, on the storage that the replication client uses. A client that replicates the
  databases 0, 1 and 2 drops every data command after it, although the program goes on to invite changes on the master.
\<close>

theorem report_stops_replication:
  assumes "store_inv H (cStorage c)" and "cDatabases c = [0, 1, 2]" and "commandFilters c = []"
    and "ParseCommand U v = Inr cmd" and "isDataCommand (cmdName cmd)"
  shows "\<exists>ls s'. databaseReport H cfg ord now [0..3] (cStorage c) = Some (ls, s') \<and>
    processCommand U (memoryStorage H ords mcfg) t v (c\<lparr>cStorage := s'\<rparr>) = Some (None, c\<lparr>cStorage := s'\<rparr>)"
proof -
  have four: "[0..3] = [0, 1, 2, 3 :: int]" by code_simp
  obtain ls s' where s': "databaseReport H cfg ord now [0..3] (cStorage c) = Some (ls, s')" "currentDB s' = 3"
    using databaseReport_spec [OF assms(1), of "[0..3]" cfg ord now] by (auto simp: four)
  have "\<not> skippedSelect (cDatabases c) cmd"
    using assms(5) by (auto simp: skippedSelect_def isDataCommand_def dataCommands_def)
  with s' assms(2-5) show ?thesis by (intro exI [of _ ls] exI [of _ s']) (simp add: processCommand_def memoryStorage_def CurrentDB_def)
qed

text \<open>A \<^verbatim>\<open>SET\<close> that the master sends after the report is lost.\<close>

lemma report_loses_set:
  defines "c \<equiv> demoSession\<lparr>cDatabases := [0, 1, 2]\<rparr>"
  shows "\<exists>ls s'. databaseReport (\<lambda>_. 0) cfg ord now [0..3] demo = Some (ls, s') \<and>
    processCommand id (memoryStorage (\<lambda>_. 0) ords mcfg) t (ArrayV (map BulkV [''SET'', ''k'', ''v''])) (c\<lparr>cStorage := s'\<rparr>) =
      Some (None, c\<lparr>cStorage := s'\<rparr>)"
proof -
  have "ToUpper id ''SET'' = ''SET''" by code_simp
  then obtain cmd where cmd: "ParseCommand id (ArrayV (map BulkV [''SET'', ''k'', ''v''])) = Inr cmd" "cmdName cmd = ''SET''"
    by (simp add: ParseCommand_def)
  have "cStorage c = demo" "cDatabases c = [0, 1, 2]" "commandFilters c = []" by (simp_all add: c_def demoSession_def)
  moreover have "isDataCommand ''SET''" by (simp add: isDataCommand_def dataCommands_def)
  ultimately show ?thesis using report_stops_replication [of "\<lambda>_. 0" c id _ cmd cfg ord now ords mcfg t] cmd demo_inv by simp
qed

end
