(* ===== verification/Demo_Monitoring.thy ===== *)
theory Demo_Monitoring
  imports Demo_Reading Repl_Stop
begin

text \<open>
  The example program \<^verbatim>\<open>src/examples/monitoring\<close>: a logger and a metrics collector of the user's own, and the status it prints. The
  symbols in front of the printed lines are left out; the counters are far from the end of their type, except the
  sum of the bytes, whose arguments are the caller's. Shown: the counts the collector reports are the
  numbers of the calls, after a run of the replication loop they are the client's own statistics, and the library never
  reports network bytes to it.
\<close>

section \<open>The logger\<close>

fun levelLabel :: "level \<Rightarrow> string" where
  "levelLabel LevelDebug = ''DEBUG: ''"
| "levelLabel LevelInfo = ''INFO: ''"
| "levelLabel LevelError = ''ERROR: ''"

definition customLogger :: "string logger" where
  "customLogger lvl msg fs = levelLabel lvl @ msg @ concat (map (\<lambda>f. '' '' @ fieldKey f @ ''='' @ formatValue (fieldValue f)) fs)"

section \<open>The collector\<close>

record metricsCollector =
  mcSyncDurations :: "int list"
  mcCommandCounts :: "(string \<times> int) list"
  mcNetworkBytes :: int
  mcReconnectionCount :: int
  mcErrorCounts :: "(string \<times> int) list"

definition NewMetricsCollector :: metricsCollector where
  "NewMetricsCollector = \<lparr>mcSyncDurations = [], mcCommandCounts = [], mcNetworkBytes = 0, mcReconnectionCount = 0, mcErrorCounts = []\<rparr>"

text \<open>An entry of a map, zero where there is none, and the statement \<^verbatim>\<open>m[key]++\<close>.\<close>

definition entryOf :: "string \<Rightarrow> (string \<times> int) list \<Rightarrow> int" where
  "entryOf key m = (case map_of m key of None \<Rightarrow> 0 | Some n \<Rightarrow> n)"

definition countUp :: "string \<Rightarrow> (string \<times> int) list \<Rightarrow> (string \<times> int) list" where
  "countUp key m = AList.update key (entryOf key m + 1) m"

text \<open>The methods of the collector: the lines printed and the new state.\<close>

fun collectorCall :: "metric \<Rightarrow> metricsCollector \<Rightarrow> string list \<times> metricsCollector" where
  "collectorCall (SyncDuration d) m = ([''Sync duration: '' @ durationString d], m\<lparr>mcSyncDurations := mcSyncDurations m @ [d]\<rparr>)"
| "collectorCall (CommandProcessed cmd d) m =
     ([''Command processed: '' @ cmd @ '' (took '' @ durationString d @ '')''], m\<lparr>mcCommandCounts := countUp cmd (mcCommandCounts m)\<rparr>)"
| "collectorCall (NetworkBytes n) m = ([], m\<lparr>mcNetworkBytes := wrap64 (mcNetworkBytes m + n)\<rparr>)"
| "collectorCall (KeyCountMetric n) m = ([''Key count: '' @ FormatInt n], m)"
| "collectorCall (MemoryUsageMetric n) m = ([''Memory usage: '' @ FormatInt n @ '' bytes''], m)"
| "collectorCall Reconnection m =
     (let m' = m\<lparr>mcReconnectionCount := mcReconnectionCount m + 1\<rparr> in ([''Reconnection #'' @ FormatInt (mcReconnectionCount m')], m'))"
| "collectorCall (ErrorMetric errorType) m =
     (let m' = m\<lparr>mcErrorCounts := countUp errorType (mcErrorCounts m)\<rparr> in
      ([''Error recorded: '' @ errorType @ '' (total: '' @ FormatInt (entryOf errorType (mcErrorCounts m')) @ '')''], m'))"

text \<open>\<^verbatim>\<open>%v\<close> of a map: its entries in the order of the keys, byte by byte.\<close>

fun bytesBefore :: "string \<Rightarrow> string \<Rightarrow> bool" where
  "bytesBefore [] b = True"
| "bytesBefore (x # a) [] = False"
| "bytesBefore (x # a) (y # b) \<longleftrightarrow> (if x = y then bytesBefore a b else (of_char x :: nat) < of_char y)"

fun insertEntry :: "string \<times> int \<Rightarrow> (string \<times> int) list \<Rightarrow> (string \<times> int) list" where
  "insertEntry x [] = [x]"
| "insertEntry x (y # ys) = (if bytesBefore (fst x) (fst y) then x # y # ys else y # insertEntry x ys)"

definition mapText :: "(string \<times> int) list \<Rightarrow> string" where
  "mapText m = ''map['' @ joinStrings '' '' (map (\<lambda>(k, n). k @ '':'' @ FormatInt n) (foldr insertEntry m [])) @ '']''"

definition PrintReport :: "metricsCollector \<Rightarrow> string list" where
  "PrintReport m =
     [''Metrics Report:'', ''   Sync durations: '' @ sliceText (map durationString (mcSyncDurations m)),
      ''   Command counts: '' @ mapText (mcCommandCounts m), ''   Network bytes: '' @ FormatInt (mcNetworkBytes m),
      ''   Reconnections: '' @ FormatInt (mcReconnectionCount m), ''   Error counts: '' @ mapText (mcErrorCounts m)]"

section \<open>The program\<close>

definition monitoringOptions :: "roption list" where
  "monitoringOptions = [WithMaster ''localhost:6379'', WithReplicaAddr '':6380'', WithLogger True, WithMetrics True,
     WithSyncTimeout (30 * Second), WithMaxMemory (100 * 1024 * 1024)]"

definition printDetailedStatus :: "string \<Rightarrow> string \<Rightarrow> replica \<Rightarrow> string list option" where
  "printDetailedStatus commit buildTime rep =
     (let status = replicaSyncStatus rep in
      map_option (\<lambda>info.
        [customLogger LevelInfo ''Status Update''
           [\<lparr>fieldKey = ''connected'', fieldValue = BoolV (ssConnected status)\<rparr>,
            \<lparr>fieldKey = ''sync_completed'', fieldValue = BoolV (ssInitialSyncCompleted status)\<rparr>,
            \<lparr>fieldKey = ''repl_offset'', fieldValue = Int64V (ssReplicationOffset status)\<rparr>,
            \<lparr>fieldKey = ''commands_processed'', fieldValue = Int64V (ssCommandsProcessed status)\<rparr>],
         customLogger LevelInfo ''Replication Info''
           [\<lparr>fieldKey = ''master'', fieldValue = StringV (riMasterHost info)\<rparr>,
            \<lparr>fieldKey = ''offset'', fieldValue = Int64V (riReplicationOffset info)\<rparr>],
         customLogger LevelInfo ''Version Info''
           [\<lparr>fieldKey = ''version'', fieldValue = StringV (case map_of (riVersion info) ''version'' of None \<Rightarrow> [] | Some v \<Rightarrow> v)\<rparr>]])
      (GetInfo commit buildTime rep))"

text \<open>Every call of the collector in a run, one after the other.\<close>

definition collectorCalls :: "metric list \<Rightarrow> metricsCollector \<Rightarrow> metricsCollector" where
  "collectorCalls = fold (\<lambda>x m. snd (collectorCall x m))"

lemma collectorCalls_simps [simp]: "collectorCalls [] m = m" "collectorCalls (x # xs) m = collectorCalls xs (snd (collectorCall x m))"
  by (simp_all add: collectorCalls_def)

section \<open>What is reported\<close>

definition total :: "(string \<times> int) list \<Rightarrow> int" where
  "total m = sum_list (map snd m)"

lemma entryOf_Cons: "entryOf key (x # m) = (if fst x = key then snd x else entryOf key m)"
  by (cases x) (auto simp: entryOf_def)

lemma total_countUp [simp]: "total (countUp key m) = total m + 1"
  unfolding countUp_def total_def by (induction m) (auto simp: entryOf_Cons, simp add: entryOf_def)

lemma entryOf_countUp [simp]: "entryOf key' (countUp key m) = entryOf key' m + (if key = key' then 1 else 0)"
  by (auto simp: countUp_def entryOf_def update_conv')

text \<open>
  A call of the collector that the client makes, with the duration that the model of the client leaves out.
\<close>

fun told :: "metricCall \<Rightarrow> replMetric \<Rightarrow> bool" where
  "told MetricSyncDuration (RSyncDuration d) = True"
| "told (MetricCommandProcessed cmd) (RCommandProcessed cmd' d) \<longleftrightarrow> cmd = cmd'"
| "told MetricReconnection RReconnection = True"
| "told (MetricError e) (RError e') \<longleftrightarrow> e = e'"
| "told _ _ = False"

lemma collected:
  assumes "list_all2 told calls xs"
  shows "let m' = collectorCalls (map metricsAdapter xs) m in
    length (mcSyncDurations m') = length (mcSyncDurations m) + count_list calls MetricSyncDuration \<and>
    total (mcCommandCounts m') = total (mcCommandCounts m) + int (length (filter isCommandCall calls)) \<and>
    entryOf cmd (mcCommandCounts m') = entryOf cmd (mcCommandCounts m) + int (count_list calls (MetricCommandProcessed cmd)) \<and>
    entryOf err (mcErrorCounts m') = entryOf err (mcErrorCounts m) + int (count_list calls (MetricError err)) \<and>
    mcReconnectionCount m' = mcReconnectionCount m + int (count_list calls MetricReconnection) \<and>
    mcNetworkBytes m' = mcNetworkBytes m"
  using assms
proof (induction calls xs arbitrary: m rule: list_all2_induct)
  case (Cons x xs y ys)
  from Cons(3) [of "snd (collectorCall (metricsAdapter y) m)"] Cons(1) show ?case
    by (cases x; cases y) (auto simp: Let_def isCommandCall_def)
qed simp

text \<open>
  After any number of connections, synchronisations and commands, the report shows the statistics of the client, and zero
  network bytes: no code of the library calls \<^verbatim>\<open>RecordNetworkBytes\<close>.
\<close>

theorem report_agrees:
  assumes "metered connections c" and "cMetrics c = Some calls" and "list_all2 told calls xs"
  shows "let m = collectorCalls (map metricsAdapter xs) NewMetricsCollector in
    mcReconnectionCount m = connections \<and> length (mcSyncDurations m) = syncCallbacks c \<and>
    total (mcCommandCounts m) = CommandsProcessed c \<and> PrintReport m ! 3 = ''   Network bytes: 0''"
proof -
  have "FormatInt 0 = ''0''" by code_simp
  with assms(1,2) collected [OF assms(3), of NewMetricsCollector undefined undefined] show ?thesis
    by (auto simp: Let_def metered_def PrintReport_def NewMetricsCollector_def total_def)
qed

text \<open>The options of the program are accepted, the collector is attached and the memory limit is set.\<close>

lemma monitoring_replica:
  "\<exists>rep. New U r w monitoringOptions = Some (Inr rep) \<and> lives rep \<and> store_inv H (rStore rep) \<and>
     memoryLimit (rStore rep) = 100 * 1024 * 1024 \<and> cMetrics (nClient (smNode (rManager rep))) = Some []"
proof -
  obtain cfg where cfg: "applyOptions monitoringOptions defaultConfig = Inr cfg" "cfgShardCount cfg = 0"
      "cfgMaxMemory cfg = 100 * 1024 * 1024" "cfgMetrics cfg"
    by (simp add: monitoringOptions_def option_defs Second_def Millisecond_def defaultConfig_def)
  have "list_all exported monitoringOptions" by (simp add: monitoringOptions_def exported.intros)
  from New_cases [OF this cfg(1), of U r w H] cfg(2,3) obtain s where s: "New U r w monitoringOptions = Some (Inr (build U r w cfg s))"
      "store_inv H s" "memoryLimit s = 100 * 1024 * 1024" by auto
  with lives.new [OF s(1)] cfg(4) show ?thesis by (intro exI [of _ "build U r w cfg s"]) (simp add: build_node)
qed

text \<open>A short session: two commands, a lost connection, and the report after it.\<close>

lemma monitoring_report:
  "PrintReport (collectorCalls (map metricsAdapter [RReconnection, RSyncDuration 1500000000, RCommandProcessed ''SET'' 2000,
      RCommandProcessed ''DEL'' 1000, RCommandProcessed ''SET'' 3000, RError ''streaming'', RReconnection]) NewMetricsCollector) =
    [''Metrics Report:'', ''   Sync durations: [1.5s]'', ''   Command counts: map[DEL:1 SET:2]'', ''   Network bytes: 0'',
     ''   Reconnections: 2'', ''   Error counts: map[streaming:1]'']"
  by code_simp

end
