(* ===== verification/Spec2Isabelle.thy ===== *)
theory Spec2Isabelle
  imports System Replica Sync_Races Server_Life Serving Reporting Store_Locks Background Repl_Output Repl_Stop
    Demo_Checks Demo_Cluster Demo_Reading Demo_Monitoring
begin

text \<open>
  \<^bold>\<open>redis-inmemory-replica, verified.\<close>

  The program is a Go library that keeps a copy of a Redis master in memory. A replication client connects to the
  master, asks for a resynchronisation, loads the snapshot (an RDB file) into a sharded store and then applies the
  commands the master streams; a server answers Redis clients from the same store, runs their Lua scripts and
  refuses or redirects their writes; a background task removes expired keys. \<^verbatim>\<open>New\<close> in
  \<^verbatim>\<open>src/replica.go\<close> puts these parts together from a list of options.

  \<^bold>\<open>Theories and sources.\<close> Every definition keeps the name of the Go function it translates where that is
  possible; a suffix or prefix tells two Go functions of one name apart (\<open>executeCommand\<close> of the replication
  client, \<open>executeClientCommand\<close> of the server, \<open>executeLuaCommand\<close> of the script engine).

  \<^item> \<open>Prelude\<close>, \<open>Decimal\<close>, \<open>Float64\<close>, \<open>Sha1\<close>: what the code uses of the Go language and its standard library (64-bit
    integers with wrap-around, \<^verbatim>\<open>strconv\<close>, \<^verbatim>\<open>strings\<close>, doubles as rounded rationals, SHA-1), and the shared lemmas.
  \<^item> \<open>Resp_Stream\<close>, \<open>Resp_Reader\<close>, \<open>Resp_Writer\<close>, \<open>Resp_Correct\<close>: package \<^verbatim>\<open>src/protocol\<close>. A reader is the bytes still to
    come and the error after them, a writer the bytes put out and its sticky error. Shown: writing and reading are
    inverse, for values and for pipelines of commands; reading ends on every input; skipping and chunked
    reading agree with reading; the integer parser agrees with \<^verbatim>\<open>strconv.ParseInt\<close> within 64 bits and
    what it does beyond them.
  \<^item> \<open>Store_Types\<close>, \<open>Matching\<close>, \<open>Store_Ops\<close>, \<open>Store_Cleanup\<close>, \<open>Store_Info\<close>: package \<^verbatim>\<open>src/storage\<close>. The store is the record of
    \<^verbatim>\<open>MemoryStorage\<close>: databases of shards of entries, memory limit, observers (the trace of the calls made to
    them), cleanup configuration. \<open>Store_Invariant\<close>, \<open>Store_Correct\<close>, \<open>Store_Evict\<close>, \<open>Store_Scan\<close>, \<open>Store_Safety\<close> and
    \<open>Store_Properties\<close> show that the invariant holds in every reachable store and no operation panics there, that the
    operations refine updates of a map from databases and keys to values, that cleanup and eviction remove what
    they should, that the cursor iteration is complete for a stable map order, and which pattern
    strategies agree.
  \<^item> \<open>Store_Locks\<close>: the mutexes of the storage and its shards. A call is the sequence of its lock operations; goroutines with any
    calls are interleaved. Shown: without evictions no schedule deadlocks and every call returns; with a memory limit
    two calls can block each other.
  \<^item> \<open>Transitions\<close>, \<open>Ticker\<close>, \<open>Background\<close>: the locale \<open>winding_down\<close> of transition systems that come to an end whatever the
    outside does, with the shutdown of the server and the locks as instances; goroutines that work on every tick of a
    timer until they are stopped; and the two of the program, the cleanup of the storage, which \<^verbatim>\<open>Close\<close> ends, and the
    heartbeat of the client. Stopping them returns and leaves no goroutine behind.
  \<^item> \<open>Storage_Interface\<close>: the interface \<^verbatim>\<open>Storage\<close> as a record of operations, its laws as the locales \<open>storage_reads\<close> and
    \<open>storage_laws\<close>, and the in-memory engine as their instance. The clients of the interface (snapshot handler,
    replication client, server, scripts) are proved against the laws.
  \<^item> \<open>Lzf\<close>, \<open>Rdb_Parser\<close>, \<open>Rdb_Parse\<close>, \<open>Rdb_Correct\<close>, \<open>Rdb_Load\<close>, \<open>Rdb_Safety\<close>: \<^verbatim>\<open>lzf.go\<close>, \<^verbatim>\<open>rdb.go\<close> and the snapshot handler of
    \<^verbatim>\<open>client.go\<close> in \<^verbatim>\<open>src/replication\<close>. Shown against writers of the two formats: decompression inverts compression, the
    parser delivers every item of a file in order, loading leaves exactly the keys of the file in the
    replicated databases; and on any bytes whatever parsing ends, without a panic of the store.
  \<^item> \<open>Repl_Client\<close>, \<open>Repl_Correct\<close>, \<open>Repl_Run\<close>, \<open>Repl_Reconnect\<close>: the replication client in \<^verbatim>\<open>client.go\<close>. The first two hold
    one session (authentication, \<^verbatim>\<open>PSYNC\<close>, snapshot, stream) and show that the store follows an
    abstract master; the other two hold the loop over connections and the heartbeat, and show that the loop survives
    every network and catches up after a broken connection. \<open>Repl_Output\<close>: what the client sends, command by command.
    \<open>Repl_Stop\<close>: the stream and the loop with every look at the stop channel. Whenever it is closed they return, after a whole
    number of the master's commands; what a metrics collector was told agrees with the statistics; and the loop
    without stop channel of \<open>Repl_Run\<close> is what this one does before it is stopped.
  \<^item> \<open>Sync_Manager\<close>, \<open>Sync_Correct\<close>, \<open>Sync_Races\<close>: \<^verbatim>\<open>src/replication/sync.go\<close>. Locks are released, callbacks are not lost,
    waiting callers are released; the interleavings of \<^verbatim>\<open>WaitForSync\<close> and of the heartbeat channels are step
    relations, with the lost wake-up and the double close they allow.
  \<^item> \<open>Lua_Engine\<close>, \<open>Lua_Correct\<close>: \<^verbatim>\<open>src/lua/engine.go\<close>. The script cache is a least-recently-used cache under SHA-1 names;
    the pool of interpreter states forgets keys, arguments and functions of a script, but no other global.
  \<^item> \<open>Server\<close>, \<open>Server_Correct\<close>, \<open>Server_Properties\<close>: \<^verbatim>\<open>src/server/server.go\<close>. Every reply is a complete RESP value;
    nothing happens without authentication; clients do not change the data except by scripts; reading commands
    are answered from the live keys; no command panics but for two oversized arguments. \<open>Server_Life\<close>: the listener, the
    accept loop, the goroutines of the connections and \<^verbatim>\<open>Stop\<close> as a step relation; \<^verbatim>\<open>Stop\<close> returns under every schedule
    and leaves no goroutine and no connection.
  \<^item> \<open>Serving\<close>: an abstract server over a map of keys. The bytes of a pipeline of reading commands are answered with its
    replies, and after a session with a master these are the replies on the master's data.
  \<^item> \<open>Options\<close>, \<open>Replica\<close>: \<^verbatim>\<open>src/options.go\<close> and \<^verbatim>\<open>src/replica.go\<close>. Accepted configurations are valid, \<^verbatim>\<open>New\<close> builds what was
    configured, and the life cycle of the replica is safe in every order of calls. \<open>Reporting\<close>: \<^verbatim>\<open>src/errors.go\<close>,
    \<^verbatim>\<open>src/interfaces.go\<close> and \<^verbatim>\<open>src/adapters.go\<close>, that is the error values, the default logger with its adapter, and the progress reports of
    a snapshot load.
  \<^item> \<open>Demo_Checks\<close>, \<open>Demo_Cluster\<close>, \<open>Demo_Reading\<close>, \<open>Demo_Monitoring\<close>: the programs of \<^verbatim>\<open>src/examples\<close>, as the lines they print. Shown: what
    the self-checks of the programs report; that the manager of several replicas returns under every schedule; that the
    readers print the live values; that the example collector's report is the client's statistics; and that one
    program, by reading a database that is not replicated, stops the replication it wants to show.
  \<^item> \<open>System\<close>: the composition. A run is any interleaving of client commands, replicated commands and cleanup rounds on
    the one store; the invariant survives, nothing panics, and what clients read changes by the master and by scripts only.

  \<^bold>\<open>Conventions.\<close> An operation that can panic in Go returns an option, \<open>None\<close> being the panic; errors are values of
  datatypes with the source's cases. The order in which Go iterates over a map, the random generator, the clock and
  the hash function of the shards are parameters, and the theorems hold for all of them. \<^verbatim>\<open>strings.ToUpper\<close> and
  \<^verbatim>\<open>strings.Fields\<close> on texts that are not ASCII, the Lua interpreter and the answers of the
  network are parameters too.

  \<^bold>\<open>Bounds.\<close> Loops are recursive functions with termination proofs. Fuel occurs once, in the specification of a
  client that repeats \<^verbatim>\<open>SCAN\<close>: the number of keys plus one is shown to be enough. The one loop of the code that
  need not end, deleting expired keys in batches, is an option-valued partial function. The run loop of the client is a
  recursion over the dial results up to the moment it is stopped. The store invariant bounds the number of shards by what the runtime
  can allocate; counts that pass through doubles are exact below 2^53.

  \<^bold>\<open>Not modelled.\<close> Sockets and TLS (the settings are modelled, the connections are parameters); waiting times, and the durations
  in the calls to a metrics collector; which log lines the operations produce, apart from the progress reports; the Lua
  interpreter (a third-party package), and with it the two example programs that only run scripts in it. In the
  store model each operation is one step, and scripts and \<^verbatim>\<open>MGET\<close> are one step in \<open>System\<close>: the locks are a model of their own
  (\<open>Store_Locks\<close>), which does not carry the data. The interfaces without an implementation (transactions, snapshots of the
  store) have no model, nor have the headings, hints and timings of the example programs.
\<close>

end
